(* ===== verification/Prelude.thy ===== *)
theory Prelude
  imports Main "HOL-Library.Word" "HOL-Library.Monad_Syntax" "HOL-Library.Multiset"
begin

text \<open>
  The vocabulary shared by the component theories.

  Machine integers of the Go sources keep their width: \<open>uint16\<close>, \<open>uint32\<close> and
  \<open>uint64\<close> are words, so that additions wrap the way the compiled code wraps.
  Go's \<open>int\<close> is an \<^typ>\<open>int\<close> (or a \<^typ>\<open>nat\<close> where the code only counts upwards
  from zero).  A run-time panic (an index out of range, a nil pointer) is the
  value \<^const>\<open>None\<close> of an option.

  The theory also models the one piece of Go's standard library that the
  sources use pervasively, the binary search \<open>sort.Search\<close>, and proves what it
  returns on a list that is split by the searched value.
\<close>

type_synonym uint8 = "8 word"
type_synonym uint16 = "16 word"
type_synonym uint32 = "32 word"
type_synonym uint64 = "64 word"

type_synonym vbno = uint16
type_synonym seqno = uint64
type_synonym bytes = "uint8 list"


section \<open>Successors of machine words\<close>

lemma unat_Suc_word:
  fixes x :: "'a::len word"
  assumes "x \<noteq> - 1"
  shows "unat (x + 1) = Suc (unat x)"
  using assms by (metis add.commute add_eq_0_iff unatSuc)

lemma word_of_nat_inj:
  assumes "i < 2 ^ LENGTH('a::len)" "j < 2 ^ LENGTH('a)"
  shows "(word_of_nat i :: 'a word) = word_of_nat j \<longleftrightarrow> i = j"
  using assms by (simp add: word_of_nat_eq_iff take_bit_nat_eq_self_iff[THEN iffD2])

lemma word_less_inc_self:
  fixes x :: "'a::len word"
  assumes "x \<noteq> - 1"
  shows "x < x + 1"
  using unat_Suc_word[OF assms] by (simp add: word_less_nat_alt)

lemma word_less_imp_not_max:
  fixes x y :: "'a::len word"
  assumes "x < y"
  shows "x \<noteq> - 1"
  using assms by (metis word_order.extremum_strict)

lemma word_le_imp_less_inc:
  fixes x y z :: "'a::len word"
  assumes "x \<le> y" "y < z"
  shows "x < y + 1"
  using word_less_inc_self[OF word_less_imp_not_max[OF assms(2)]] assms(1) by (rule le_less_trans[rotated])

lemma word_dec_less:
  fixes x y :: "'a::len word"
  assumes "x < y"
  shows "y - 1 < y" and "x \<le> y - 1"
proof -
  have "y \<noteq> 0" using assms by auto
  then have "y - 1 \<noteq> - 1" by auto
  from word_less_inc_self[OF this] show "y - 1 < y" by simp
  from assms show "x \<le> y - 1" using less_inc_imp_less_eq[of x "y - 1"] by simp
qed


section \<open>Go's binary search\<close>

text \<open>
  \<open>sort.Search n f\<close>: the loop keeps \<open>f (i - 1) = false\<close> and \<open>f j = true\<close>, and
  halves the interval.
\<close>

function search_loop :: "(nat \<Rightarrow> bool) \<Rightarrow> nat \<Rightarrow> nat \<Rightarrow> nat" where
  "search_loop f i j =
     (if i < j then
        let h = (i + j) div 2 in
          if \<not> f h then search_loop f (h + 1) j else search_loop f i h
      else i)"
  by pat_completeness auto
termination
  by (relation "measure (\<lambda>(f, i, j). j - i)") auto

declare search_loop.simps [simp del]

definition sort_Search :: "nat \<Rightarrow> (nat \<Rightarrow> bool) \<Rightarrow> nat" where
  "sort_Search n f = search_loop f 0 n"

lemma search_loop_done: "\<not> i < j \<Longrightarrow> search_loop f i j = i"
  by (subst search_loop.simps) simp

lemma search_loop_step:
  "i < j \<Longrightarrow> search_loop f i j =
     (if f ((i + j) div 2) then search_loop f i ((i + j) div 2)
      else search_loop f (Suc ((i + j) div 2)) j)"
  by (subst search_loop.simps) (simp add: Let_def)

lemma search_loop_bounds:
  "i \<le> j \<Longrightarrow> i \<le> search_loop f i j \<and> search_loop f i j \<le> j"
proof (induction f i j rule: search_loop.induct)
  case (1 f i j)
  show ?case
  proof (cases "i < j")
    case True
    let ?h = "(i + j) div 2"
    have h: "i \<le> ?h" "?h < j" using True by auto
    have a: "\<not> f ?h \<Longrightarrow> Suc ?h \<le> search_loop f (Suc ?h) j \<and> search_loop f (Suc ?h) j \<le> j"
      using "1.IH"(1)[OF True refl] h by simp
    have b: "f ?h \<Longrightarrow> i \<le> search_loop f i ?h \<and> search_loop f i ?h \<le> ?h"
      using "1.IH"(2)[OF True refl] h by simp
    show ?thesis
      unfolding search_loop_step[OF True] using h a b by (cases "f ?h") auto
  next
    case False
    with "1.prems" show ?thesis by (simp add: search_loop_done)
  qed
qed

lemma search_loop_correct:
  assumes "i \<le> m" "m \<le> j" "\<forall>k. i \<le> k \<and> k < j \<longrightarrow> (f k \<longleftrightarrow> m \<le> k)"
  shows "search_loop f i j = m"
  using assms
proof (induction f i j rule: search_loop.induct)
  case (1 f i j)
  show ?case
  proof (cases "i < j")
    case True
    let ?h = "(i + j) div 2"
    have h: "i \<le> ?h" "?h < j" using True by auto
    with "1.prems" have fh: "f ?h \<longleftrightarrow> m \<le> ?h" by blast
    have "f ?h \<Longrightarrow> search_loop f i ?h = m"
      using fh "1.prems" h by (intro "1.IH"(2)[OF True refl]) auto
    moreover have "\<not> f ?h \<Longrightarrow> search_loop f (?h + 1) j = m"
      using fh "1.prems" h by (intro "1.IH"(1)[OF True refl]) auto
    ultimately show ?thesis
      unfolding search_loop_step[OF True] by (cases "f ?h") simp_all
  next
    case False
    with "1.prems"(1,2) show ?thesis by (simp add: search_loop_done)
  qed
qed

lemma sort_Search_le: "sort_Search n f \<le> n"
  using search_loop_bounds[of 0 n f] by (simp add: sort_Search_def)


section \<open>Lists split by a value\<close>

text \<open>
  A list is split at \<open>x\<close> when everything below \<open>x\<close> comes before everything that
  is not, and \<open>x\<close> itself before everything above it.  Sorted lists are split at
  every value; a list whose tail is out of order is still split at the values
  below that tail, which is what the asynchronous truncation of the tracker
  relies on.
\<close>

definition split_at :: "'a::linorder \<Rightarrow> 'a list \<Rightarrow> bool" where
  "split_at x xs \<longleftrightarrow> sorted_wrt (\<lambda>a b. (x \<le> a \<longrightarrow> x \<le> b) \<and> (x < a \<longrightarrow> x < b)) xs"

lemma sorted_split_at: "sorted xs \<Longrightarrow> split_at x xs"
  unfolding split_at_def by (rule sorted_wrt_mono_rel) auto

lemma split_at_Cons:
  "split_at x (a # xs) \<longleftrightarrow>
     (\<forall>b\<in>set xs. (x \<le> a \<longrightarrow> x \<le> b) \<and> (x < a \<longrightarrow> x < b)) \<and> split_at x xs"
  by (simp add: split_at_def)

lemma split_at_Nil [simp]: "split_at x []"
  by (simp add: split_at_def)

lemma split_at_nth:
  assumes "split_at x xs" "i < j" "j < length xs" "x \<le> xs ! i"
  shows "x \<le> xs ! j"
  using assms sorted_wrt_nth_less[of _ xs i j] by (auto simp: split_at_def)

lemma split_at_takeWhile_filter:
  "split_at x xs \<Longrightarrow> takeWhile (\<lambda>a. a < x) xs = filter (\<lambda>a. a < x) xs"
  by (induction xs) (auto simp: split_at_Cons filter_empty_conv not_less)

lemma split_at_dropWhile_filter:
  "split_at x xs \<Longrightarrow> dropWhile (\<lambda>a. a < x) xs = filter (\<lambda>a. x \<le> a) xs"
  by (induction xs) (auto simp: split_at_Cons filter_id_conv not_less)

lemma split_at_nth_length_takeWhile:
  assumes "split_at x xs" "k < length xs"
  shows "x \<le> xs ! k \<longleftrightarrow> length (takeWhile (\<lambda>a. a < x) xs) \<le> k"
proof
  let ?t = "takeWhile (\<lambda>a. a < x) xs"
  assume x: "x \<le> xs ! k"
  show "length ?t \<le> k"
  proof (rule ccontr)
    assume "\<not> length ?t \<le> k"
    then have "k < length ?t" by simp
    then have "xs ! k \<in> set ?t" by (metis nth_mem takeWhile_nth)
    then have "xs ! k < x" by (blast dest: set_takeWhileD)
    with x show False by simp
  qed
next
  let ?m = "length (takeWhile (\<lambda>a. a < x) xs)"
  assume "?m \<le> k"
  moreover from this assms(2) have "\<not> xs ! ?m < x"
    using nth_length_takeWhile[of "\<lambda>a. a < x" xs] by simp
  ultimately show "x \<le> xs ! k"
    using assms split_at_nth[of x xs ?m k] by (cases "?m = k") auto
qed

text \<open>The search both list-search helpers of the code are built from.\<close>

definition search_geq :: "'a::linorder list \<Rightarrow> 'a \<Rightarrow> nat \<times> bool" where
  "search_geq xs x =
     (let index = sort_Search (length xs) (\<lambda>i. xs ! i \<ge> x) in
        if index < length xs \<and> xs ! index = x then (index, True) else (index, False))"

lemma search_geq_le: "fst (search_geq xs x) \<le> length xs"
  by (simp add: search_geq_def Let_def sort_Search_le)

lemma sort_Search_split:
  assumes "split_at x xs"
  shows "sort_Search (length xs) (\<lambda>i. xs ! i \<ge> x) = length (takeWhile (\<lambda>a. a < x) xs)"
  unfolding sort_Search_def
  by (rule search_loop_correct)
     (auto simp: length_takeWhile_le split_at_nth_length_takeWhile[OF assms])

lemma split_at_mem_nth:
  assumes "split_at x xs" "x \<in> set xs"
  shows "length (takeWhile (\<lambda>a. a < x) xs) < length xs \<and>
         xs ! length (takeWhile (\<lambda>a. a < x) xs) = x"
  using assms
proof (induction xs)
  case (Cons a xs)
  then show ?case by (cases "a < x") (auto simp: split_at_Cons)
qed simp

lemma search_geq_sound:
  assumes "search_geq xs x = (i, True)"
  shows "i < length xs \<and> xs ! i = x"
proof -
  define k where "k = sort_Search (length xs) (\<lambda>i. xs ! i \<ge> x)"
  from assms have "(if k < length xs \<and> xs ! k = x then (k, True) else (k, False)) = (i, True)"
    unfolding search_geq_def Let_def k_def .
  then have "k < length xs \<and> xs ! k = x \<and> k = i"
    by (cases "k < length xs \<and> xs ! k = x") auto
  then show ?thesis by blast
qed

lemma search_geq_split:
  assumes "split_at x xs"
  shows "search_geq xs x = (length (filter (\<lambda>a. a < x) xs), x \<in> set xs)"
proof -
  define m where "m = length (takeWhile (\<lambda>a. a < x) xs)"
  have iff: "(m < length xs \<and> xs ! m = x) = (x \<in> set xs)"
    using split_at_mem_nth[OF assms] nth_mem[of m xs] unfolding m_def by metis
  have "search_geq xs x = (m, x \<in> set xs)"
    unfolding search_geq_def Let_def sort_Search_split[OF assms] m_def[symmetric] iff
    by (cases "x \<in> set xs") simp_all
  then show ?thesis
    by (simp only: m_def split_at_takeWhile_filter[OF assms])
qed

lemma filter_le_distinct_found:
  assumes "distinct xs" "split_at x xs" "x \<in> set xs"
  shows "filter (\<lambda>a. x \<le> a) xs = x # filter (\<lambda>a. x < a) xs"
  using assms
proof (induction xs)
  case (Cons a xs)
  show ?case
  proof (cases "a = x")
    case True
    with Cons.prems have "\<forall>b\<in>set xs. x < b" by (auto simp: split_at_Cons order_less_le)
    then have "filter (\<lambda>a. x < a) xs = xs" "filter (\<lambda>a. x \<le> a) xs = xs"
      by (auto simp: filter_id_conv)
    with True show ?thesis by simp
  next
    case False
    with Cons show ?thesis by (auto simp: split_at_Cons)
  qed
qed simp

lemma drop_length_filter_split:
  assumes "split_at x xs"
  shows "drop (length (filter (\<lambda>a. a < x) xs)) xs = filter (\<lambda>a. x \<le> a) xs"
  using split_at_takeWhile_filter[OF assms] split_at_dropWhile_filter[OF assms]
    dropWhile_eq_drop[of "\<lambda>a. a < x" xs] by simp

end
