(* ===== verification/Memcached.thy ===== *)
theory Memcached
  imports Prelude
begin

text \<open>
  The data that flows through the pipeline: DCP events, memcached requests and
  responses, and the operations on them in \<open>base/types.go\<close>,
  \<open>base/mcreqeust_pool.go\<close>, \<open>parts/router.go\<close> (composing a request) and
  \<open>parts/outgoing_nozzle_common.go\<close> (document metadata, batches).

  Command codes and response statuses are datatypes with the codes the
  repository names; every other code is \<open>Other...\<close>.  A byte slice is a list; an
  index outside a slice is a panic, \<open>None\<close>.
\<close>

unbundle bit_operations_syntax


section \<open>Big-endian integers\<close>

text \<open>\<open>binary.BigEndian\<close> of the standard library, on slices.\<close>

fun be_value :: "nat \<Rightarrow> bytes \<Rightarrow> nat" where
  "be_value acc [] = acc"
| "be_value acc (b # bs) = be_value (acc * 256 + unat b) bs"

fun put_be :: "nat \<Rightarrow> nat \<Rightarrow> bytes" where
  "put_be 0 v = []"
| "put_be (Suc n) v = put_be n (v div 256) @ [word_of_nat (v mod 256)]"

text \<open>\<open>xs[a:b]\<close> and its read as an integer.\<close>

definition slice :: "nat \<Rightarrow> nat \<Rightarrow> 'a list \<Rightarrow> 'a list option" where
  "slice a b xs = (if a \<le> b \<and> b \<le> length xs then Some (take (b - a) (drop a xs)) else None)"

definition be_uint32 :: "nat \<Rightarrow> bytes \<Rightarrow> uint32 option" where
  "be_uint32 a xs = map_option (\<lambda>s. word_of_nat (be_value 0 s)) (slice a (a + 4) xs)"

definition be_uint64 :: "nat \<Rightarrow> bytes \<Rightarrow> uint64 option" where
  "be_uint64 a xs = map_option (\<lambda>s. word_of_nat (be_value 0 s)) (slice a (a + 8) xs)"

definition put_uint32 :: "uint32 \<Rightarrow> bytes" where
  "put_uint32 w = put_be 4 (unat w)"

definition put_uint64 :: "uint64 \<Rightarrow> bytes" where
  "put_uint64 w = put_be 8 (unat w)"

lemma length_put_be [simp]: "length (put_be n v) = n"
  by (induction n v rule: put_be.induct) simp_all

lemma length_put_uint [simp]: "length (put_uint32 w) = 4" "length (put_uint64 w') = 8"
  by (simp_all add: put_uint32_def put_uint64_def)

lemma be_value_append: "be_value acc (xs @ ys) = be_value (be_value acc xs) ys"
  by (induction acc xs rule: be_value.induct) simp_all

lemma be_value_put_be: "v < 256 ^ n \<Longrightarrow> be_value 0 (put_be n v) = v"
proof (induction n v rule: put_be.induct)
  case (2 n v)
  have "v div 256 < 256 ^ n" using 2(2) by (simp add: less_mult_imp_div_less mult.commute)
  moreover have "unat (word_of_nat (v mod 256) :: uint8) = v mod 256" by (simp add: unat_of_nat)
  ultimately show ?case using 2 by (simp add: be_value_append)
qed simp

lemma be_value_put_uint [simp]:
  "word_of_nat (be_value 0 (put_uint32 w)) = w" "word_of_nat (be_value 0 (put_uint64 w')) = w'"
proof -
  have "unat w < 256 ^ 4" "unat w' < 256 ^ 8"
    using unsigned_less[of w] unsigned_less[of w'] by simp_all
  then show "word_of_nat (be_value 0 (put_uint32 w)) = w" "word_of_nat (be_value 0 (put_uint64 w')) = w'"
    by (simp_all add: put_uint32_def put_uint64_def be_value_put_be)
qed

lemma put_uint64_inj [simp]: "put_uint64 a = put_uint64 b \<longleftrightarrow> a = b"
  by (metis be_value_put_uint(2))


section \<open>Requests, responses and events\<close>

datatype CommandCode =
    UPR_MUTATION | UPR_DELETION | UPR_EXPIRATION | UPR_SNAPSHOT
  | TAP_MUTATION | TAP_DELETE
  | GET_WITH_META | SET_WITH_META | DELETE_WITH_META
  | OtherCode uint8

datatype Status =
    SUCCESS | KEY_ENOENT | KEY_EEXISTS | NO_BUCKET | NOT_MY_VBUCKET
  | TMPFAIL | ENOMEM | EBUSY | NOT_INITIALIZED
  | OtherStatus uint16

record MCRequest =
  Opcode :: CommandCode
  Cas :: uint64
  Opaque :: uint32
  VBucket :: vbno
  Extras :: bytes
  Key :: bytes
  Body :: bytes
  DataType :: uint8

record MCResponse =
  resp_Status :: Status
  resp_Opaque :: uint32
  resp_Cas :: uint64
  resp_Extras :: bytes
  resp_DataType :: uint8

record UprEvent =
  ev_Opcode :: CommandCode
  ev_VBucket :: vbno
  ev_Key :: bytes
  ev_Value :: bytes
  ev_Cas :: uint64
  ev_Flags :: uint32
  ev_Expiry :: uint32
  ev_RevSeqno :: uint64
  ev_Seqno :: seqno
  ev_SnapstartSeq :: seqno
  ev_SnapendSeq :: seqno
  ev_SnapshotType :: uint32
  ev_DataType :: uint8

record WrappedMCRequest =
  wr_Seqno :: seqno
  Req :: MCRequest
  Start_time :: int
  UniqueKey :: bytes

definition ConstructUniqueKey :: "WrappedMCRequest \<Rightarrow> WrappedMCRequest option" where
  "ConstructUniqueKey r =
     map_option (\<lambda>s. r\<lparr>UniqueKey := Key (Req r) @ s\<rparr>) (slice 8 16 (Extras (Req r)))"

definition HasXattr :: "uint8 \<Rightarrow> bool" where
  "HasXattr dataType = (dataType AND 4 > 0)"

definition encodeOpCode :: "CommandCode \<Rightarrow> CommandCode" where
  "encodeOpCode code =
     (if code = UPR_MUTATION \<or> code = TAP_MUTATION then SET_WITH_META
      else if code = TAP_DELETE \<or> code = UPR_DELETION \<or> code = UPR_EXPIRATION then DELETE_WITH_META
      else code)"


section \<open>The request pool\<close>

text \<open>
  An object of the pool is either new or one that was put back; what it still
  holds is what cleaning left.
\<close>

definition addOne :: WrappedMCRequest where
  "addOne = \<lparr>wr_Seqno = 0,
     Req = \<lparr>Opcode = OtherCode 0, Cas = 0, Opaque = 0, VBucket = 0, Extras = [], Key = [], Body = [], DataType = 0\<rparr>,
     Start_time = 0, UniqueKey = []\<rparr>"

definition cleanExtras :: "MCRequest \<Rightarrow> MCRequest" where
  "cleanExtras r = r\<lparr>Extras := replicate (length (Extras r)) 0\<rparr>"

definition cleanMCReq :: "MCRequest \<Rightarrow> MCRequest" where
  "cleanMCReq r = (cleanExtras (r\<lparr>Cas := 0, Opaque := 0, VBucket := 0, Key := [], Body := []\<rparr>))\<lparr>Opcode := OtherCode 0\<rparr>"

definition cleanReq :: "WrappedMCRequest \<Rightarrow> WrappedMCRequest" where
  "cleanReq r = r\<lparr>Req := cleanMCReq (Req r), wr_Seqno := 0\<rparr>"

inductive pooled :: "WrappedMCRequest \<Rightarrow> bool" where
  pooled_new: "pooled addOne"
| pooled_put: "pooled (cleanReq r)"


section \<open>Composing a request from an event\<close>

datatype ConflictResolutionMode = CRMode_RevId | CRMode_LWW

definition FORCE_ACCEPT_WITH_META_OPS :: uint32 where
  "FORCE_ACCEPT_WITH_META_OPS = 0x02"

definition IS_EXPIRATION :: uint32 where
  "IS_EXPIRATION = 0x10"

text \<open>
  \<open>wrapped\<close> is the object the request creator returned.  Writing into a slice of
  the extras replaces those bytes; \<open>put_at\<close> is \<open>None\<close> when the slice is out of
  range.
\<close>

definition put_at :: "nat \<Rightarrow> bytes \<Rightarrow> bytes \<Rightarrow> bytes option" where
  "put_at a bs xs = (if a + length bs \<le> length xs then Some (take a xs @ bs @ drop (a + length bs) xs) else None)"

definition resize_extras :: "nat \<Rightarrow> bytes \<Rightarrow> bytes" where
  "resize_extras n xs = (if length xs \<noteq> n then replicate n 0 else xs)"

definition compose_extras :: "ConflictResolutionMode \<Rightarrow> UprEvent \<Rightarrow> bytes \<Rightarrow> bytes option" where
  "compose_extras sourceCRMode ev old =
     (if ev_Opcode ev = UPR_MUTATION \<or> ev_Opcode ev = UPR_DELETION \<or> ev_Opcode ev = UPR_EXPIRATION then
        let extrasSize = (if sourceCRMode = CRMode_LWW \<or> ev_Opcode ev = UPR_EXPIRATION then 28 else 24);
            options = (if sourceCRMode = CRMode_LWW then FORCE_ACCEPT_WITH_META_OPS else 0) OR
                      (if ev_Opcode ev = UPR_EXPIRATION then IS_EXPIRATION else 0)
        in do {
             x1 \<leftarrow> put_at 0 (put_uint32 (ev_Flags ev)) (resize_extras extrasSize old);
             x2 \<leftarrow> put_at 4 (put_uint32 (ev_Expiry ev)) x1;
             x3 \<leftarrow> put_at 8 (put_uint64 (ev_RevSeqno ev)) x2;
             x4 \<leftarrow> put_at 16 (put_uint64 (ev_Cas ev)) x3;
             if options > 0 then put_at 24 (put_uint32 options) x4 else Some x4 }
      else if ev_Opcode ev = UPR_SNAPSHOT then do {
             x1 \<leftarrow> put_at 0 (put_uint64 (ev_Seqno ev)) (resize_extras 28 old);
             x2 \<leftarrow> put_at 8 (put_uint64 (ev_SnapstartSeq ev)) x1;
             x3 \<leftarrow> put_at 16 (put_uint64 (ev_SnapendSeq ev)) x2;
             put_at 24 (put_uint32 (ev_SnapshotType ev)) x3 }
      else Some old)"

definition ComposeMCRequest ::
  "ConflictResolutionMode \<Rightarrow> int \<Rightarrow> WrappedMCRequest \<Rightarrow> UprEvent \<Rightarrow> WrappedMCRequest option" where
  "ComposeMCRequest sourceCRMode now wrapped ev = do {
     x \<leftarrow> compose_extras sourceCRMode ev (Extras (Req wrapped));
     ConstructUniqueKey (wrapped\<lparr>
       Req := (Req wrapped)\<lparr>Cas := ev_Cas ev, Opaque := 0, VBucket := ev_VBucket ev, Key := ev_Key ev,
                Body := ev_Value ev, Opcode := ev_Opcode ev, DataType := ev_DataType ev, Extras := x\<rparr>,
       wr_Seqno := ev_Seqno ev, Start_time := now\<rparr>) }"

end
