(* ===== verification/Go_Strings.thy ===== *)
theory Go_Strings
  imports Prelude "HOL-Library.Sublist"
begin

text \<open>
  The parts of Go's \<open>strings\<close>, \<open>strconv\<close>, \<open>fmt\<close> and \<open>errors\<close> packages the sources
  use: decimal printing and parsing, prefixes, suffixes, the last index of a
  delimiter, splitting at a delimiter, and error values.  An error made by
  \<open>errors.New\<close> in a package variable is compared by identity and is a
  \<open>Sentinel\<close> of its text; one made by \<open>fmt.Errorf\<close> at run time is equal to none
  of them and is \<open>Formatted\<close>.
\<close>

datatype goerror = Sentinel string | Formatted string

primrec Error :: "goerror \<Rightarrow> string" where
  "Error (Sentinel m) = m"
| "Error (Formatted m) = m"

definition strings_Contains :: "string \<Rightarrow> string \<Rightarrow> bool" where
  "strings_Contains s sub = sublist sub s"

definition strings_HasPrefix :: "string \<Rightarrow> string \<Rightarrow> bool" where
  "strings_HasPrefix s p = prefix p s"

definition strings_HasSuffix :: "string \<Rightarrow> string \<Rightarrow> bool" where
  "strings_HasSuffix s p = suffix p s"


section \<open>Decimal numbers\<close>

definition digit_char :: "nat \<Rightarrow> char" where
  "digit_char d = (char_of (48 + d) :: char)"

definition digit_val :: "char \<Rightarrow> nat option" where
  "digit_val c = (let n = (of_char c :: nat) in if 48 \<le> n \<and> n \<le> 57 then Some (n - 48) else None)"

fun itoa :: "nat \<Rightarrow> string" where
  "itoa n = (if n < 10 then [digit_char n] else itoa (n div 10) @ [digit_char (n mod 10)])"

declare itoa.simps [simp del]

fun parse_digits :: "nat \<Rightarrow> string \<Rightarrow> nat option" where
  "parse_digits acc [] = Some acc"
| "parse_digits acc (c # cs) =
     (case digit_val c of None \<Rightarrow> None | Some d \<Rightarrow> parse_digits (acc * 10 + d) cs)"

definition strconv_ParseUint :: "nat \<Rightarrow> string \<Rightarrow> nat option" where
  "strconv_ParseUint bits s =
     (if s = [] then None
      else case parse_digits 0 s of None \<Rightarrow> None | Some n \<Rightarrow> if n < 2 ^ bits then Some n else None)"

text \<open>\<open>Atoi\<close> accepts a sign; the result has to fit a 64-bit \<open>int\<close>.\<close>

definition strconv_Atoi :: "string \<Rightarrow> int option" where
  "strconv_Atoi s =
     (case s of [] \<Rightarrow> None
      | c # cs \<Rightarrow>
          let (neg, ds) = (if c = CHR ''-'' then (True, cs) else if c = CHR ''+'' then (False, cs) else (False, s))
          in if ds = [] then None
             else case parse_digits 0 ds of None \<Rightarrow> None
               | Some n \<Rightarrow>
                   if neg then (if n \<le> 2 ^ 63 then Some (- int n) else None)
                   else (if n < 2 ^ 63 then Some (int n) else None))"

lemma digit_val_char [simp]: "d < 10 \<Longrightarrow> digit_val (digit_char d) = Some d"
  by (simp add: digit_val_def digit_char_def Let_def)

lemma digit_char_range: "d < 10 \<Longrightarrow> of_char (digit_char d) \<in> {48..57::nat}"
  by (simp add: digit_char_def)

lemma itoa_digits: "c \<in> set (itoa n) \<Longrightarrow> digit_val c \<noteq> None"
proof (induction n rule: itoa.induct)
  case (1 n)
  then show ?case by (subst (asm) (2) itoa.simps) (auto split: if_splits)
qed

lemma itoa_not_Nil [simp]: "itoa n \<noteq> []"
  by (subst itoa.simps) simp

lemma parse_digits_append:
  "parse_digits acc (xs @ ys) = (case parse_digits acc xs of None \<Rightarrow> None | Some m \<Rightarrow> parse_digits m ys)"
  by (induction acc xs rule: parse_digits.induct) (auto split: option.splits)

lemma parse_digits_itoa: "parse_digits 0 (itoa n) = Some n"
proof (induction n rule: itoa.induct)
  case (1 n)
  then show ?case by (subst itoa.simps) (auto simp: parse_digits_append)
qed

lemma ParseUint_itoa: "n < 2 ^ bits \<Longrightarrow> strconv_ParseUint bits (itoa n) = Some n"
  by (simp add: strconv_ParseUint_def parse_digits_itoa)

lemma not_digit [simp]:
  "digit_val CHR '':'' = None" "digit_val CHR ''/'' = None" "digit_val CHR ''-'' = None"
  "digit_val CHR ''+'' = None" "digit_val CHR '']'' = None" "digit_val CHR ''['' = None"
  by (simp_all add: digit_val_def)

lemma itoa_no_delim:
  "CHR '':'' \<notin> set (itoa n)" "CHR ''/'' \<notin> set (itoa n)" "CHR ''-'' \<notin> set (itoa n)"
  "CHR ''+'' \<notin> set (itoa n)" "CHR '']'' \<notin> set (itoa n)"
  using itoa_digits[of _ n] by (metis not_digit)+

lemma Atoi_itoa: "n < 2 ^ 63 \<Longrightarrow> strconv_Atoi (itoa n) = Some (int n)"
  using itoa_no_delim(3,4)[of n] itoa_not_Nil[of n] parse_digits_itoa[of n]
  by (cases "itoa n") (auto simp: strconv_Atoi_def Let_def simp del: itoa_not_Nil)


section \<open>Delimiters\<close>

fun last_index :: "char \<Rightarrow> string \<Rightarrow> nat option" where
  "last_index c [] = None"
| "last_index c (x # xs) =
     (case last_index c xs of Some i \<Rightarrow> Some (Suc i) | None \<Rightarrow> if x = c then Some 0 else None)"

lemma last_index_None: "last_index c s = None \<longleftrightarrow> c \<notin> set s"
  by (induction s) (auto split: option.splits)

lemma last_index_append: "c \<notin> set t \<Longrightarrow> last_index c (s @ c # t) = Some (length s)"
proof (induction s)
  case Nil
  then show ?case using last_index_None[of c t] by simp
qed (auto split: option.splits)

lemma last_index_Some:
  "last_index c s = Some i \<Longrightarrow> i < length s \<and> s ! i = c \<and> c \<notin> set (drop (Suc i) s)"
proof (induction s arbitrary: i)
  case (Cons x xs)
  then show ?case
    using last_index_None[of c xs] by (auto split: option.splits if_splits)
qed simp

fun strings_Split :: "char \<Rightarrow> string \<Rightarrow> string list" where
  "strings_Split d [] = [[]]"
| "strings_Split d (x # xs) =
     (if x = d then [] # strings_Split d xs
      else (case strings_Split d xs of [] \<Rightarrow> [[x]] | p # ps \<Rightarrow> (x # p) # ps))"

lemma Split_not_Nil [simp]: "strings_Split d s \<noteq> []"
  by (cases s) (auto split: list.splits)

lemma Split_no_delim: "d \<notin> set s \<Longrightarrow> strings_Split d s = [s]"
  by (induction s) auto

lemma last_Split: "d \<notin> set t \<Longrightarrow> last (strings_Split d (s @ d # t)) = t"
proof (induction s)
  case (Cons x xs)
  then show ?case
  proof (cases "x = d")
    case False
    obtain p ps where sp: "strings_Split d (xs @ d # t) = p # ps"
      by (cases "strings_Split d (xs @ d # t)") auto
    have "ps \<noteq> []"
      using sp
    proof (induction xs arbitrary: p ps)
      case (Cons y ys)
      then show ?case by (auto split: if_splits list.splits)
    qed auto
    with sp False Cons show ?thesis by simp
  qed simp
qed (simp add: Split_no_delim)

end
