(* ===== verification/Conflict_Resolution.thy ===== *)
theory Conflict_Resolution
  imports Memcached Go_Strings "HOL-Library.AList"
begin

text \<open>
  Source-side conflict resolution, \<open>parts/xmem_nozzle.go\<close> and
  \<open>parts/outgoing_nozzle_common.go\<close>: the metadata of a document on either side,
  the comparison that decides which side wins, and the batched metadata lookup
  that applies it to the large documents of a batch.
\<close>


section \<open>Document metadata\<close>

record documentMetadata =
  dm_key :: bytes
  revSeq :: uint64
  cas :: uint64
  dm_flags :: uint32
  expiry :: uint32
  deletion :: bool
  dataType :: uint8

definition decodeSetMetaReq :: "WrappedMCRequest \<Rightarrow> documentMetadata option" where
  "decodeSetMetaReq wrapped_req = do {
     let req = Req wrapped_req;
     fl \<leftarrow> be_uint32 0 (Extras req);
     ex \<leftarrow> be_uint32 4 (Extras req);
     rv \<leftarrow> be_uint64 8 (Extras req);
     Some \<lparr>dm_key = Key req, revSeq = rv, cas = Cas req, dm_flags = fl, expiry = ex,
           deletion = (Opcode req = DELETE_WITH_META), dataType = DataType req\<rparr> }"

text \<open>
  The decoder of a \<open>getMeta\<close> response.  With xattr enabled the data type is byte
  20 of the extras; the guard of the code tests for fewer than 20 bytes, so a
  response of exactly 20 bytes reads past the end.
\<close>

definition decodeGetMetaResp :: "bool \<Rightarrow> bytes \<Rightarrow> MCResponse \<Rightarrow> (goerror + documentMetadata) option" where
  "decodeGetMetaResp xattrEnabled key resp = do {
     let extras = resp_Extras resp;
     del \<leftarrow> be_uint32 0 extras;
     fl \<leftarrow> be_uint32 4 extras;
     ex \<leftarrow> be_uint32 8 extras;
     rv \<leftarrow> be_uint64 12 extras;
     let ret = \<lparr>dm_key = key, revSeq = rv, cas = resp_Cas resp, dm_flags = fl, expiry = ex,
                deletion = (del \<noteq> 0), dataType = 0\<rparr>;
     if xattrEnabled then
       if length extras < 20 then Some (Inl (Formatted ''received unexpected getMeta response''))
       else if 20 < length extras then Some (Inr (ret\<lparr>dataType := extras ! 20\<rparr>)) else None
     else Some (Inr (ret\<lparr>dataType := resp_DataType resp\<rparr>)) }"

definition composeRequestForGetMeta :: "bool \<Rightarrow> bytes \<Rightarrow> vbno \<Rightarrow> uint32 \<Rightarrow> MCRequest" where
  "composeRequestForGetMeta xattrEnabled key vb opaque =
     \<lparr>Opcode = GET_WITH_META, Cas = 0, Opaque = opaque, VBucket = vb,
      Extras = (if xattrEnabled then [0x02] else []), Key = key, Body = [], DataType = 0\<rparr>"


section \<open>The comparison\<close>

definition resolveConflictByXattr :: "documentMetadata \<Rightarrow> documentMetadata \<Rightarrow> bool \<Rightarrow> bool" where
  "resolveConflictByXattr source target xattrEnabled =
     (if xattrEnabled then HasXattr (dataType source) \<and> \<not> HasXattr (dataType target) else False)"

definition resolveConflictByCAS :: "documentMetadata \<Rightarrow> documentMetadata \<Rightarrow> bool \<Rightarrow> bool" where
  "resolveConflictByCAS source target xattrEnabled =
     (if cas target > cas source then False
      else if cas target = cas source then
        if revSeq target > revSeq source then False
        else if revSeq target = revSeq source then
          if deletion source \<or> expiry target > expiry source then False
          else if expiry target = expiry source then
            if dm_flags target > dm_flags source then False
            else if dm_flags target = dm_flags source then resolveConflictByXattr source target xattrEnabled
            else True
          else True
        else True
      else True)"

definition resolveConflictByRevSeq :: "documentMetadata \<Rightarrow> documentMetadata \<Rightarrow> bool \<Rightarrow> bool" where
  "resolveConflictByRevSeq source target xattrEnabled =
     (if revSeq target > revSeq source then False
      else if revSeq target = revSeq source then
        if cas target > cas source then False
        else if cas target = cas source then
          if deletion source \<or> expiry target > expiry source then False
          else if expiry target = expiry source then
            if dm_flags target > dm_flags source then False
            else if dm_flags target = dm_flags source then resolveConflictByXattr source target xattrEnabled
            else True
          else True
        else True
      else True)"

definition resolveConflict ::
  "documentMetadata \<Rightarrow> documentMetadata \<Rightarrow> ConflictResolutionMode \<Rightarrow> bool \<Rightarrow> bool" where
  "resolveConflict source target source_cr_mode xattrEnabled =
     (if source_cr_mode = CRMode_LWW then resolveConflictByCAS source target xattrEnabled
      else resolveConflictByRevSeq source target xattrEnabled)"

text \<open>
  The reference: a lexicographic comparison of four numbers, the mode deciding
  which of the first two comes first, with two amendments when the first two are
  equal.
\<close>

definition rank :: "ConflictResolutionMode \<Rightarrow> documentMetadata \<Rightarrow> nat list" where
  "rank mode d =
     (if mode = CRMode_LWW then [unat (cas d), unat (revSeq d)] else [unat (revSeq d), unat (cas d)]) @
     [unat (expiry d), unat (dm_flags d)]"

fun lex_less :: "nat list \<Rightarrow> nat list \<Rightarrow> bool" where
  "lex_less (x # xs) (y # ys) = (x < y \<or> x = y \<and> lex_less xs ys)"
| "lex_less _ _ = False"

definition wins :: "ConflictResolutionMode \<Rightarrow> bool \<Rightarrow> documentMetadata \<Rightarrow> documentMetadata \<Rightarrow> bool" where
  "wins mode xattrEnabled s t \<longleftrightarrow>
     (if take 2 (rank mode s) = take 2 (rank mode t) then
        \<not> deletion s \<and>
        (lex_less (rank mode t) (rank mode s) \<or>
         rank mode s = rank mode t \<and> xattrEnabled \<and> HasXattr (dataType s) \<and> \<not> HasXattr (dataType t))
      else lex_less (rank mode t) (rank mode s))"

lemma resolveConflict_eq_wins: "resolveConflict s t mode x = wins mode x s t"
  by (cases mode)
     (auto simp: resolveConflict_def resolveConflictByCAS_def resolveConflictByRevSeq_def
        resolveConflictByXattr_def wins_def rank_def word_less_nat_alt word_unat_eq_iff)

lemma lex_less_irrefl [simp]: "\<not> lex_less xs xs"
  by (induction xs) auto

lemma lex_less_trans: "lex_less xs ys \<Longrightarrow> lex_less ys zs \<Longrightarrow> lex_less xs zs"
proof (induction xs ys arbitrary: zs rule: lex_less.induct)
  case (1 x xs y ys)
  then show ?case by (cases zs) auto
qed auto

lemma lex_less_total: "length xs = length ys \<Longrightarrow> lex_less xs ys \<or> xs = ys \<or> lex_less ys xs"
  by (induction xs ys rule: list_induct2) auto

lemma length_rank [simp]: "length (rank m d) = 4"
  by (simp add: rank_def)

text \<open>Strict order: what a client of conflict resolution relies on.\<close>

locale conflict_order =
  fixes win :: "'d \<Rightarrow> 'd \<Rightarrow> bool"
  assumes irrefl: "\<not> win a a"
    and trans: "win a b \<Longrightarrow> win b c \<Longrightarrow> win a c"
begin

lemma asym: "win a b \<Longrightarrow> \<not> win b a"
  using irrefl trans by blast

text \<open>
  Replicas that exchange a document: a replica replaces its version by the one
  offered when the offer wins.  A version that was replaced never comes back.
\<close>

fun settle :: "'d \<Rightarrow> 'd list \<Rightarrow> 'd" where
  "settle d [] = d"
| "settle d (x # xs) = settle (if win x d then x else d) xs"

lemma settle_improves: "settle d xs = d \<or> win (settle d xs) d"
proof (induction xs arbitrary: d)
  case (Cons x xs)
  then show ?case using trans by (cases "win x d") (auto, metis)
qed simp

lemma settle_not_beaten_twice: "settle d xs \<noteq> d \<Longrightarrow> \<not> win d (settle d xs)"
  using settle_improves asym by blast

end

lemma wins_trans:
  assumes "wins m x a b" "wins m x b c"
  shows "wins m x a c"
proof -
  let ?k = "\<lambda>d. take 2 (rank m d)"
  have k: "lex_less (rank m p) (rank m q) \<Longrightarrow> ?k p = ?k q \<or> lex_less (?k p) (?k q)" for p q
    by (cases m) (auto simp: rank_def)
  have k': "lex_less (?k p) (?k q) \<Longrightarrow> lex_less (rank m p) (rank m q)" for p q
    by (cases m) (auto simp: rank_def)
  have w: "?k q = ?k p \<or> lex_less (?k q) (?k p)" if "wins m x p q" for p q
  proof (cases "?k p = ?k q")
    case False
    then have "lex_less (rank m q) (rank m p)" using that by (simp add: wins_def)
    then show ?thesis by (rule k)
  qed simp
  note ab = w[OF assms(1)] and bc = w[OF assms(2)]
  show ?thesis
  proof (cases "?k a = ?k b \<and> ?k b = ?k c")
    case True
    then have e: "?k a = ?k b" "?k b = ?k c" "?k a = ?k c" by simp_all
    let ?tie = "\<lambda>p q. rank m p = rank m q \<and> x \<and> HasXattr (dataType p) \<and> \<not> HasXattr (dataType q)"
    have "\<not> deletion a" "lex_less (rank m b) (rank m a) \<or> ?tie a b" "lex_less (rank m c) (rank m b) \<or> ?tie b c"
      using assms e(1,2) by (simp_all add: wins_def)
    moreover have "lex_less (rank m c) (rank m a)"
      if "lex_less (rank m b) (rank m a) \<or> rank m b = rank m a"
        "lex_less (rank m c) (rank m b) \<or> rank m c = rank m b" "rank m c \<noteq> rank m a"
      using that lex_less_trans[of "rank m c" "rank m b" "rank m a"] by auto
    ultimately have "\<not> deletion a \<and> (lex_less (rank m c) (rank m a) \<or> ?tie a c)"
      using lex_less_trans[of "rank m c" "rank m b" "rank m a"] by auto
    then show ?thesis using e(3) by (simp add: wins_def)
  next
    case False
    then have "lex_less (?k c) (?k a)"
      using ab bc lex_less_trans[of "?k c" "?k b" "?k a"] by auto
    then show ?thesis using k'[of c a] by (auto simp: wins_def)
  qed
qed

interpretation cr: conflict_order "\<lambda>s t. resolveConflict s t mode xattrEnabled" for mode xattrEnabled
proof
  show "\<not> resolveConflict a a mode xattrEnabled" for a
    by (simp add: resolveConflict_eq_wins wins_def)
  show "resolveConflict a c mode xattrEnabled"
    if "resolveConflict a b mode xattrEnabled" "resolveConflict b c mode xattrEnabled" for a b c
    using that wins_trans unfolding resolveConflict_eq_wins by blast
qed


section \<open>Batches\<close>

text \<open>
  The metadata of a batch; the size of a request is computed by the memcached
  library and is the parameter \<open>reqSize\<close>.  \<open>bigDoc_map\<close> lists the large documents
  in the order a range over the map visits them.
\<close>

record dataBatch =
  bigDoc_map :: "(bytes \<times> WrappedMCRequest) list"
  bigDoc_noRep_map :: "(bytes \<times> bool) list"
  curCount :: uint32
  curSize :: uint32
  capacity_count :: uint32
  capacity_size :: uint32
  nonempty_set :: bool

definition newBatch :: "uint32 \<Rightarrow> uint32 \<Rightarrow> dataBatch" where
  "newBatch cap_count cap_size =
     \<lparr>bigDoc_map = [], bigDoc_noRep_map = [], curCount = 0, curSize = 0,
      capacity_count = cap_count, capacity_size = cap_size, nonempty_set = False\<rparr>"

definition incrementCount :: "uint32 \<Rightarrow> dataBatch \<Rightarrow> dataBatch" where
  "incrementCount delta b = b\<lparr>curCount := curCount b + delta\<rparr>"

definition incrementSize :: "uint32 \<Rightarrow> dataBatch \<Rightarrow> dataBatch" where
  "incrementSize delta b = b\<lparr>curSize := curSize b + delta\<rparr>"

text \<open>The new batch, the count, whether the request is the first and whether the batch is full.\<close>

definition accumuBatch ::
  "(MCRequest \<Rightarrow> nat) \<Rightarrow> (MCRequest \<Rightarrow> bool) \<Rightarrow> WrappedMCRequest option \<Rightarrow> dataBatch \<Rightarrow>
     dataBatch \<times> (goerror + (uint32 \<times> bool \<times> bool))" where
  "accumuBatch reqSize classifyFunc req b =
     (case req of
        None \<Rightarrow> (b, Inl (Formatted ''accumuBatch saw a nil req''))
      | Some r \<Rightarrow>
          let b1 = incrementCount 1 b;
              isFirst = (\<not> nonempty_set b1);
              b2 = b1\<lparr>nonempty_set := True\<rparr>;
              b3 = (if \<not> classifyFunc (Req r) then b2\<lparr>bigDoc_map := AList.update (UniqueKey r) r (bigDoc_map b2)\<rparr> else b2);
              b4 = incrementSize (word_of_nat (reqSize (Req r))) b3;
              isFull = (\<not> (curCount b1 < capacity_count b \<and> curSize b4 < capacity_size b * 1000))
          in (b4, Inr (curCount b1, isFirst, isFull)))"

datatype NeedSendStatus = Send | Not_Send_Failed_CR | Not_Send_Other

definition needSend :: "WrappedMCRequest \<Rightarrow> dataBatch \<Rightarrow> NeedSendStatus" where
  "needSend req batch =
     (case map_of (bigDoc_noRep_map batch) (UniqueKey req) of
        None \<Rightarrow> Send
      | Some failedCR \<Rightarrow> if failedCR then Not_Send_Failed_CR else Not_Send_Other)"

definition optimisticRep :: "(MCRequest \<Rightarrow> nat) \<Rightarrow> uint32 \<Rightarrow> MCRequest \<Rightarrow> bool" where
  "optimisticRep reqSize threshold req = (word_of_nat (reqSize req) < threshold)"


section \<open>The batched metadata lookup\<close>

definition isTopologyChangeMCError :: "Status \<Rightarrow> bool" where
  "isTopologyChangeMCError st = (st = NO_BUCKET \<or> st = NOT_MY_VBUCKET)"

definition isTemporaryMCError :: "Status \<Rightarrow> bool" where
  "isTemporaryMCError st = (st = TMPFAIL \<or> st = ENOMEM \<or> st = EBUSY \<or> st = NOT_INITIALIZED)"

definition isIgnorableMCError :: "Status \<Rightarrow> bool" where
  "isIgnorableMCError st = (st = KEY_EEXISTS)"

definition getOpaque :: "uint16 \<Rightarrow> uint16 \<Rightarrow> uint32" where
  "getOpaque index sequence = push_bit 16 (ucast sequence) + ucast index"

text \<open>
  The first loop: one lookup per distinct document key, numbered from the
  starting opaque.  The state is the requests of the current packet, the packets
  and the map from opaque to key, sequence number and vbucket; the set of keys
  already asked for is the third component.  \<open>None\<close> is the error for an empty key.
\<close>

record getmeta_prep =
  gp_packets :: "MCRequest list list"
  gp_current :: "MCRequest list"
  gp_omap :: "(uint32 \<times> bytes \<times> seqno \<times> vbno) list"
  gp_sent :: "bytes list"
  gp_opaque :: uint32

definition prep_one :: "nat \<Rightarrow> bool \<Rightarrow> WrappedMCRequest \<Rightarrow> getmeta_prep \<Rightarrow> getmeta_prep option" where
  "prep_one maxBatch xattrEnabled originalReq g =
     (let docKey = Key (Req originalReq) in
      if docKey = [] then None
      else if docKey \<in> set (gp_sent g) then Some g
      else
        let req = composeRequestForGetMeta xattrEnabled docKey (VBucket (Req originalReq)) (gp_opaque g);
            cur = gp_current g @ [req];
            g' = g\<lparr>gp_omap := AList.update (gp_opaque g) (docKey, wr_Seqno originalReq, VBucket (Req originalReq)) (gp_omap g),
                   gp_opaque := gp_opaque g + 1, gp_sent := gp_sent g @ [docKey]\<rparr>
        in if length cur > maxBatch
           then Some (g'\<lparr>gp_packets := gp_packets g @ [cur], gp_current := []\<rparr>)
           else Some (g'\<lparr>gp_current := cur\<rparr>))"

fun prep_all :: "nat \<Rightarrow> bool \<Rightarrow> WrappedMCRequest list \<Rightarrow> getmeta_prep \<Rightarrow> getmeta_prep option" where
  "prep_all maxBatch x [] g = Some g"
| "prep_all maxBatch x (r # rs) g = do { g' \<leftarrow> prep_one maxBatch x r g; prep_all maxBatch x rs g' }"

definition prep_init :: "uint16 \<Rightarrow> getmeta_prep" where
  "prep_init sequence = \<lparr>gp_packets = [], gp_current = [], gp_omap = [], gp_sent = [], gp_opaque = getOpaque 0 sequence\<rparr>"

definition prep_packets :: "getmeta_prep \<Rightarrow> MCRequest list list" where
  "prep_packets g = (if gp_current g \<noteq> [] then gp_packets g @ [gp_current g] else gp_packets g)"

text \<open>
  The receiver.  Its reads are a list: a response, or a read error after which it
  returns.  It stops when a response asks for a repaired connection or when there
  are as many answers as lookups; \<open>Waiting\<close> is a receiver whose next read has not
  returned.
\<close>

datatype getmeta_read = ReadResponse MCResponse | ReadError

datatype getmeta_event = GetMetaReceived bytes seqno | VBErrorEncountered vbno | RepairConn

datatype receiver = Waiting | Returned "(bytes \<times> MCResponse) list" "getmeta_event list"

fun batchGetMetaHandler ::
  "nat \<Rightarrow> (uint32 \<times> bytes \<times> seqno \<times> vbno) list \<Rightarrow> getmeta_read list \<Rightarrow>
     (bytes \<times> MCResponse) list \<Rightarrow> getmeta_event list \<Rightarrow> receiver" where
  "batchGetMetaHandler cnt omap [] respMap evs = Waiting"
| "batchGetMetaHandler cnt omap (ReadError # rs) respMap evs = Returned respMap evs"
| "batchGetMetaHandler cnt omap (ReadResponse resp # rs) respMap evs =
     (case map_of omap (resp_Opaque resp) of
        None \<Rightarrow> if length respMap \<ge> cnt then Returned respMap evs else batchGetMetaHandler cnt omap rs respMap evs
      | Some (key, sq, vb) \<Rightarrow>
          let respMap' = AList.update key resp respMap;
              evs' = evs @ [GetMetaReceived key sq];
              st = resp_Status resp
          in if st \<noteq> SUCCESS \<and> \<not> isIgnorableMCError st \<and> \<not> isTemporaryMCError st \<and> st \<noteq> KEY_ENOENT then
               if isTopologyChangeMCError st then
                 let evs2 = evs' @ [VBErrorEncountered vb] in
                 if length respMap' \<ge> cnt then Returned respMap' evs2
                 else batchGetMetaHandler cnt omap rs respMap' evs2
               else Returned respMap' (evs' @ [RepairConn])
             else if length respMap' \<ge> cnt then Returned respMap' evs'
             else batchGetMetaHandler cnt omap rs respMap' evs')"

text \<open>The last loop: which documents need not be replicated.\<close>

fun noRep_loop ::
  "(documentMetadata \<Rightarrow> documentMetadata \<Rightarrow> bool) \<Rightarrow> bool \<Rightarrow> (bytes \<times> MCResponse) list \<Rightarrow>
     WrappedMCRequest list \<Rightarrow> (bytes \<times> bool) list \<Rightarrow> (bytes \<times> bool) list option" where
  "noRep_loop resolver x respMap [] m = Some m"
| "noRep_loop resolver x respMap (r # rs) m =
     (case map_of respMap (Key (Req r)) of
        None \<Rightarrow> noRep_loop resolver x respMap rs m
      | Some resp \<Rightarrow>
          if resp_Status resp = SUCCESS then do {
            tgt \<leftarrow> decodeGetMetaResp x (Key (Req r)) resp;
            case tgt of
              Inl _ \<Rightarrow> noRep_loop resolver x respMap rs m
            | Inr t \<Rightarrow> do {
                src \<leftarrow> decodeSetMetaReq r;
                if \<not> resolver src t then noRep_loop resolver x respMap rs (AList.update (UniqueKey r) True m)
                else noRep_loop resolver x respMap rs m } }
          else if isTopologyChangeMCError (resp_Status resp)
               then noRep_loop resolver x respMap rs (AList.update (UniqueKey r) False m)
          else noRep_loop resolver x respMap rs m)"

datatype getmeta_result = GetMetaWaits | GetMetaPanics | GetMetaErr | NoRep "(bytes \<times> bool) list"

text \<open>
  The whole call; \<open>writeOk\<close> says whether every packet was written, \<open>reads\<close> is what
  the receiver reads.
\<close>

definition batchGetMeta ::
  "nat \<Rightarrow> bool \<Rightarrow> (documentMetadata \<Rightarrow> documentMetadata \<Rightarrow> bool) \<Rightarrow> uint16 \<Rightarrow> (MCRequest list list \<Rightarrow> bool) \<Rightarrow>
     getmeta_read list \<Rightarrow> WrappedMCRequest list \<Rightarrow> getmeta_result" where
  "batchGetMeta maxBatch x resolver sequence writeOk reads docs =
     (if docs = [] then NoRep []
      else case prep_all maxBatch x docs (prep_init sequence) of
        None \<Rightarrow> GetMetaErr
      | Some g \<Rightarrow>
          if \<not> writeOk (prep_packets g) then GetMetaErr
          else (case batchGetMetaHandler (length (gp_omap g)) (gp_omap g) reads [] [] of
                  Waiting \<Rightarrow> GetMetaWaits
                | Returned respMap _ \<Rightarrow>
                    (case noRep_loop resolver x respMap docs [] of
                       None \<Rightarrow> GetMetaPanics
                     | Some m \<Rightarrow> NoRep m)))"


section \<open>Library\<close>

text \<open>The lookups are numbered consecutively and there is one per document key.\<close>

definition prep_inv :: "uint32 \<Rightarrow> getmeta_prep \<Rightarrow> bool" where
  "prep_inv o0 g \<longleftrightarrow>
     map fst (gp_omap g) = map (\<lambda>i. o0 + word_of_nat i) [0..<length (gp_omap g)] \<and>
     gp_opaque g = o0 + word_of_nat (length (gp_omap g)) \<and>
     map (\<lambda>e. fst (snd e)) (gp_omap g) = gp_sent g \<and> distinct (gp_sent g)"

lemma prep_inv_distinct:
  assumes "prep_inv o0 g" "length (gp_omap g) \<le> 2 ^ 32"
  shows "distinct (map fst (gp_omap g))"
proof -
  have "inj_on (\<lambda>i. o0 + word_of_nat i) {0..<length (gp_omap g)}"
    using assms(2) by (intro inj_onI) (auto simp: word_of_nat_inj)
  then show ?thesis using assms(1) by (simp add: prep_inv_def distinct_map)
qed

lemma update_fresh: "k \<notin> fst ` set al \<Longrightarrow> AList.update k v al = al @ [(k, v)]"
  by (induction al) auto

lemma prep_one_inv:
  assumes "prep_inv o0 g" "length (gp_omap g) < 2 ^ 32" "prep_one mb x r g = Some g'"
  shows "prep_inv o0 g' \<and> set (gp_sent g') = insert (Key (Req r)) (set (gp_sent g)) \<and>
         length (gp_omap g') \<le> Suc (length (gp_omap g))"
proof (cases "Key (Req r) \<in> set (gp_sent g)")
  case True
  then show ?thesis using assms by (auto simp: prep_one_def Let_def split: if_splits)
next
  case False
  have "gp_opaque g \<notin> fst ` set (gp_omap g)"
  proof
    assume "gp_opaque g \<in> fst ` set (gp_omap g)"
    then obtain i where i: "i < length (gp_omap g)" "gp_opaque g = o0 + word_of_nat i"
      using assms(1) by (metis (no_types, lifting) atLeastLessThan_iff imageE list.set_map prep_inv_def set_upt)
    then have "(word_of_nat (length (gp_omap g)) :: uint32) = word_of_nat i"
      using assms(1) by (simp add: prep_inv_def)
    then show False using i(1) assms(2) by (simp add: word_of_nat_inj)
  qed
  then have "gp_omap g' = gp_omap g @ [(gp_opaque g, Key (Req r), wr_Seqno r, VBucket (Req r))]"
    "gp_opaque g' = gp_opaque g + 1" "gp_sent g' = gp_sent g @ [Key (Req r)]"
    using assms(3) False by (auto simp: prep_one_def Let_def update_fresh split: if_splits)
  then show ?thesis using assms(1) False by (auto simp: prep_inv_def)
qed

lemma prep_all_inv:
  assumes "prep_inv o0 g" "length (gp_omap g) + length rs < 2 ^ 32" "prep_all mb x rs g = Some g'"
  shows "prep_inv o0 g' \<and> set (gp_sent g') = (\<lambda>r. Key (Req r)) ` set rs \<union> set (gp_sent g) \<and>
         length (gp_omap g') \<le> length (gp_omap g) + length rs"
  using assms
proof (induction rs arbitrary: g)
  case (Cons r rs)
  obtain g1 where g1: "prep_one mb x r g = Some g1" "prep_all mb x rs g1 = Some g'"
    using Cons.prems(3) by (auto split: Option.bind_splits)
  have "prep_inv o0 g1 \<and> set (gp_sent g1) = insert (Key (Req r)) (set (gp_sent g)) \<and>
      length (gp_omap g1) \<le> Suc (length (gp_omap g))"
    using prep_one_inv[OF Cons.prems(1) _ g1(1)] Cons.prems(2) by simp
  with Cons.IH[of g1] g1(2) Cons.prems(2) show ?case by auto
qed simp

text \<open>A response after which the receiver goes on.\<close>

definition benign :: "MCResponse \<Rightarrow> bool" where
  "benign resp \<longleftrightarrow>
     (let st = resp_Status resp in
      st = SUCCESS \<or> isIgnorableMCError st \<or> isTemporaryMCError st \<or> st = KEY_ENOENT \<or> isTopologyChangeMCError st)"

text \<open>The key a response answers for.\<close>

definition key_of :: "(uint32 \<times> bytes \<times> seqno \<times> vbno) list \<Rightarrow> MCResponse \<Rightarrow> bytes" where
  "key_of omap resp = fst (the (map_of omap (resp_Opaque resp)))"

lemma handler_benign:
  assumes "map_of omap (resp_Opaque r) = Some (key, sq, vb)" "key \<notin> fst ` set respMap" "benign r"
  shows "\<exists>e. batchGetMetaHandler cnt omap (ReadResponse r # rs) respMap evs =
           (if length respMap + 1 \<ge> cnt then Returned (respMap @ [(key, r)]) e
            else batchGetMetaHandler cnt omap rs (respMap @ [(key, r)]) e)"
  using assms(1,3) update_fresh[OF assms(2), of r] by (auto simp: Let_def benign_def)

lemma handler_collects:
  assumes "distinct (map (key_of omap) resps)" "\<forall>r\<in>set resps. resp_Opaque r \<in> fst ` set omap \<and> benign r"
    "\<forall>r\<in>set resps. key_of omap r \<notin> fst ` set respMap"
    "length respMap + length resps = cnt" "resps \<noteq> []"
  shows "\<exists>evs'. batchGetMetaHandler cnt omap (map ReadResponse resps) respMap evs =
           Returned (respMap @ map (\<lambda>r. (key_of omap r, r)) resps) evs'"
  using assms
proof (induction resps arbitrary: respMap evs)
  case (Cons r resps)
  have "map_of omap (resp_Opaque r) \<noteq> None" using Cons.prems(2) by (simp add: map_of_eq_None_iff)
  then obtain key sq vb where m: "map_of omap (resp_Opaque r) = Some (key, sq, vb)" by auto
  then have key: "key_of omap r = key" by (simp add: key_of_def)
  have "key \<notin> fst ` set respMap" "benign r" using Cons.prems(2,3) key by simp_all
  from handler_benign[OF m this] obtain e where
    step: "batchGetMetaHandler cnt omap (ReadResponse r # map ReadResponse resps) respMap evs =
           (if length respMap + 1 \<ge> cnt then Returned (respMap @ [(key, r)]) e
            else batchGetMetaHandler cnt omap (map ReadResponse resps) (respMap @ [(key, r)]) e)" by blast
  show ?case
  proof (cases "resps = []")
    case True
    with step key Cons.prems(4) show ?thesis by auto
  next
    case False
    have more: "\<not> length respMap + 1 \<ge> cnt" using Cons.prems(4) False by (cases resps) simp_all
    have fresh: "\<forall>ra\<in>set resps. key_of omap ra \<notin> fst ` set (respMap @ [(key, r)])"
      using Cons.prems(1,3) key by (auto simp: image_iff)
    obtain e' where "batchGetMetaHandler cnt omap (map ReadResponse resps) (respMap @ [(key, r)]) e =
           Returned ((respMap @ [(key, r)]) @ map (\<lambda>r. (key_of omap r, r)) resps) e'"
      using Cons.IH[of "respMap @ [(key, r)]" e] Cons.prems fresh False by auto
    with step more key show ?thesis by (simp del: batchGetMetaHandler.simps)
  qed
qed simp

text \<open>What the last loop enters for one document; the outer \<open>None\<close> is a panic.\<close>

definition decide ::
  "(documentMetadata \<Rightarrow> documentMetadata \<Rightarrow> bool) \<Rightarrow> bool \<Rightarrow> (bytes \<times> MCResponse) list \<Rightarrow> WrappedMCRequest \<Rightarrow> bool option option" where
  "decide resolver x respMap r =
     (case map_of respMap (Key (Req r)) of
        None \<Rightarrow> Some None
      | Some resp \<Rightarrow>
          if resp_Status resp = SUCCESS then do {
            tgt \<leftarrow> decodeGetMetaResp x (Key (Req r)) resp;
            case tgt of
              Inl _ \<Rightarrow> Some None
            | Inr t \<Rightarrow> do {
                src \<leftarrow> decodeSetMetaReq r;
                Some (if resolver src t then None else Some True) } }
          else Some (if isTopologyChangeMCError (resp_Status resp) then Some False else None))"

lemma noRep_loop_Cons:
  "noRep_loop resolver x respMap (r # rs) m = do {
     d \<leftarrow> decide resolver x respMap r;
     noRep_loop resolver x respMap rs (case d of None \<Rightarrow> m | Some b \<Rightarrow> AList.update (UniqueKey r) b m) }"
  by (auto simp: decide_def split: option.splits sum.splits Option.bind_splits)

lemma noRep_loop_spec:
  assumes "\<forall>r\<in>set rs. decide resolver x respMap r \<noteq> None" "distinct (map UniqueKey rs)"
    "\<forall>r\<in>set rs. map_of m (UniqueKey r) = None"
  shows "\<exists>m'. noRep_loop resolver x respMap rs m = Some m' \<and>
     (\<forall>r\<in>set rs. map_of m' (UniqueKey r) = the (decide resolver x respMap r)) \<and>
     (\<forall>k. k \<notin> UniqueKey ` set rs \<longrightarrow> map_of m' k = map_of m k)"
  using assms
proof (induction rs arbitrary: m)
  case (Cons r rs)
  obtain d where d: "decide resolver x respMap r = Some d" using Cons.prems(1) by auto
  let ?m = "case d of None \<Rightarrow> m | Some b \<Rightarrow> AList.update (UniqueKey r) b m"
  have mo: "map_of ?m k = (if k = UniqueKey r then d else map_of m k)" for k
    using Cons.prems(3) by (cases d) (auto simp: update_conv')
  have nin: "UniqueKey r \<notin> UniqueKey ` set rs" using Cons.prems(2) by simp
  then have "\<forall>q\<in>set rs. map_of ?m (UniqueKey q) = None"
    using Cons.prems(3) unfolding mo by (auto simp: image_iff)
  then obtain m' where m': "noRep_loop resolver x respMap rs ?m = Some m'"
    "\<forall>q\<in>set rs. map_of m' (UniqueKey q) = the (decide resolver x respMap q)"
    "\<forall>k. k \<notin> UniqueKey ` set rs \<longrightarrow> map_of m' k = map_of ?m k"
    using Cons.IH[of ?m] Cons.prems by auto
  show ?case
    by (intro exI[of _ m']) (use m' d nin mo in \<open>auto simp: noRep_loop_Cons simp del: noRep_loop.simps\<close>)
qed simp

lemma be_uint_Some: "a + 4 \<le> length xs \<Longrightarrow> be_uint32 a xs \<noteq> None" "a + 8 \<le> length xs \<Longrightarrow> be_uint64 a xs \<noteq> None"
  by (simp_all add: be_uint32_def be_uint64_def slice_def)

lemma decodeSetMetaReq_Some: "16 \<le> length (Extras (Req r)) \<Longrightarrow> decodeSetMetaReq r \<noteq> None"
  using be_uint_Some(1)[of 0 "Extras (Req r)"] be_uint_Some(1)[of 4 "Extras (Req r)"] be_uint_Some(2)[of 8 "Extras (Req r)"]
  by (auto simp: decodeSetMetaReq_def Let_def)

lemma decodeGetMetaResp_Some:
  assumes "20 < length (resp_Extras resp)"
  shows "\<exists>t. decodeGetMetaResp x key resp = Some (Inr t)"
proof -
  have "be_uint32 0 (resp_Extras resp) \<noteq> None" "be_uint32 4 (resp_Extras resp) \<noteq> None"
    "be_uint32 8 (resp_Extras resp) \<noteq> None" "be_uint64 12 (resp_Extras resp) \<noteq> None"
    using assms by (simp_all add: be_uint_Some)
  then show ?thesis using assms by (auto simp: decodeGetMetaResp_def Let_def)
qed

lemma key_of_inj:
  assumes "distinct (map (\<lambda>e. fst (snd e)) omap)" "resp_Opaque r \<in> fst ` set omap" "resp_Opaque r' \<in> fst ` set omap"
    "key_of omap r = key_of omap r'"
  shows "resp_Opaque r = resp_Opaque r'"
proof -
  obtain e e' where e: "map_of omap (resp_Opaque r) = Some e" "map_of omap (resp_Opaque r') = Some e'"
    using assms(2,3) by (metis map_of_eq_None_iff not_None_eq)
  then have mem: "(resp_Opaque r, e) \<in> set omap" "(resp_Opaque r', e') \<in> set omap" by (auto dest: map_of_SomeD)
  have "fst e = fst e'" using assms(4) e by (simp add: key_of_def)
  then show ?thesis using mem inj_onD[of "\<lambda>e. fst (snd e)" "set omap", OF _ _ mem] assms(1)
    by (auto simp: distinct_map)
qed


text \<open>When every lookup is answered once, the receiver returns with each answer under its own key.\<close>

lemma lookups_answered:
  assumes "docs \<noteq> []" "length docs < 2 ^ 32"
    and prep: "prep_all mb x docs (prep_init sq) = Some g"
    and perm: "mset (map resp_Opaque resps) = mset (map fst (gp_omap g))"
    and ok: "\<forall>p\<in>set resps. benign p"
  shows "(\<exists>evs. batchGetMetaHandler (length (gp_omap g)) (gp_omap g) (map ReadResponse resps) [] [] =
            Returned (map (\<lambda>p. (key_of (gp_omap g) p, p)) resps) evs) \<and>
         (\<forall>p\<in>set resps. map_of (map (\<lambda>p. (key_of (gp_omap g) p, p)) resps) (key_of (gp_omap g) p) = Some p) \<and>
         (\<forall>q\<in>set docs. \<exists>p\<in>set resps. key_of (gp_omap g) p = Key (Req q))"
proof -
  let ?om = "gp_omap g"
  let ?rm = "map (\<lambda>p. (key_of ?om p, p)) resps"
  have "prep_inv (getOpaque 0 sq) (prep_init sq)" by (simp add: prep_inv_def prep_init_def)
  from prep_all_inv[OF this _ prep] assms(2)
  have inv: "prep_inv (getOpaque 0 sq) g" "set (gp_sent g) = (\<lambda>r. Key (Req r)) ` set docs" "length ?om \<le> length docs"
    by (simp_all add: prep_init_def)
  have dom: "distinct (map fst ?om)" using prep_inv_distinct[OF inv(1)] inv(3) assms(2) by simp
  have dkeys: "distinct (map (\<lambda>e. fst (snd e)) ?om)" using inv(1) by (simp add: prep_inv_def)
  have ops: "set (map resp_Opaque resps) = fst ` set ?om" "distinct (map resp_Opaque resps)"
    "length resps = length ?om"
    using perm dom mset_eq_setD[OF perm] mset_eq_imp_distinct_iff[OF perm] mset_eq_length[OF perm] by simp_all
  have kinj: "inj_on (key_of ?om) (set resps)"
  proof (rule inj_onI)
    fix p q assume pq: "p \<in> set resps" "q \<in> set resps" "key_of ?om p = key_of ?om q"
    have "resp_Opaque p = resp_Opaque q"
      by (rule key_of_inj[OF dkeys _ _ pq(3)]) (use pq ops(1) in auto)
    then show "p = q" using ops(2) pq(1,2) by (auto simp: distinct_map inj_on_def)
  qed
  have dk: "distinct (map (key_of ?om) resps)"
    using kinj ops(2) by (auto simp: distinct_map)
  have ne: "resps \<noteq> []"
  proof -
    have "gp_sent g \<noteq> []" using inv(2) assms(1) by auto
    then show ?thesis using ops(3) inv(1) by (auto simp: prep_inv_def)
  qed
  obtain evs where h: "batchGetMetaHandler (length ?om) ?om (map ReadResponse resps) [] [] =
      Returned (map (\<lambda>p. (key_of ?om p, p)) resps) evs"
    using handler_collects[of ?om resps "[]" "length ?om" "[]", OF dk _ _ _ ne] ops ok by auto
  have rm: "map_of ?rm (key_of ?om p) = Some p" if "p \<in> set resps" for p
    using that dk by (intro map_of_is_SomeI) (auto simp: comp_def)
  have has: "\<exists>p\<in>set resps. key_of ?om p = Key (Req q)" if "q \<in> set docs" for q
  proof -
    have "Key (Req q) \<in> set (map (\<lambda>e. fst (snd e)) ?om)" using that inv by (simp add: prep_inv_def)
    then obtain e where e: "e \<in> set ?om" "fst (snd e) = Key (Req q)" by auto
    then obtain p where p: "p \<in> set resps" "resp_Opaque p = fst e" using ops(1) by (metis image_eqI imageE list.set_map)
    have "map_of ?om (fst e) = Some (snd e)" using dom e(1) by (intro map_of_is_SomeI) simp_all
    then show ?thesis using p e(2) by (intro bexI[of _ p]) (simp_all add: key_of_def)
  qed
  show ?thesis using h rm has by blast
qed


section \<open>Properties\<close>


text \<open>C22. Of two versions at most one wins over the other, none wins over itself, and winning is
  transitive, so no sequence of exchanges between clusters brings back a version that lost.\<close>

theorem conflict_resolution_strict_order:
  "\<not> resolveConflict a a mode x \<and>
   (resolveConflict a b mode x \<longrightarrow> \<not> resolveConflict b a mode x) \<and>
   (resolveConflict a b mode x \<and> resolveConflict b c mode x \<longrightarrow> resolveConflict a c mode x)"
  using cr.irrefl cr.asym cr.trans by blast

definition example_meta :: "uint64 \<Rightarrow> documentMetadata" where
  "example_meta c = \<lparr>dm_key = [1], revSeq = 3, cas = c, dm_flags = 0, expiry = 0, deletion = False, dataType = 0\<rparr>"

theorem conflict_resolution_strict_order_witness:
  "\<not> resolveConflict (example_meta 5) (example_meta 9) CRMode_LWW True \<and>
   resolveConflict (example_meta 9) (example_meta 2) CRMode_LWW True"
proof -
  have "resolveConflict (example_meta 9) (example_meta 5) CRMode_LWW True"
    "resolveConflict (example_meta 5) (example_meta 2) CRMode_LWW True"
    by (simp_all add: resolveConflict_def resolveConflictByCAS_def example_meta_def)
  then show ?thesis
    using conflict_resolution_strict_order[of "example_meta 9" CRMode_LWW True "example_meta 5" "example_meta 2"] by blast
qed


definition example_doc :: WrappedMCRequest where
  "example_doc = \<lparr>wr_Seqno = 7,
     Req = \<lparr>Opcode = UPR_MUTATION, Cas = 5, Opaque = 0, VBucket = 1, Extras = replicate 24 0, Key = [1], Body = [], DataType = 0\<rparr>,
     Start_time = 0, UniqueKey = [1, 0, 0, 0, 0, 0, 0, 0, 0]\<rparr>"

definition example_resp :: MCResponse where
  "example_resp = \<lparr>resp_Status = SUCCESS, resp_Opaque = 0x30000, resp_Cas = 9, resp_Extras = replicate 21 0, resp_DataType = 0\<rparr>"


end
