(* ===== verification/Router.thy ===== *)
theory Router
  imports Conflict_Resolution
begin

text \<open>
  The router of a source nozzle, \<open>parts/router.go\<close>, with the generic router it
  extends, \<open>connector/router.go\<close>, and the deletion/expiration flags of
  \<open>base/types.go\<close>: an event is throttled, looked up in the routing map, possibly
  dropped or stripped, filtered, composed into a request and handed to the
  downstream part of its vbucket.

  The document filter and the throttling service are other components; here they
  are parameters.  Raised events are collected in order.
\<close>


section \<open>Deletion and expiration flags\<close>

type_synonym FilterExpDelType = "64 word"

definition FilterExpDelNone :: FilterExpDelType where "FilterExpDelNone = 0"
definition FilterExpDelStripExpiration :: FilterExpDelType where "FilterExpDelStripExpiration = push_bit 0 1"
definition FilterExpDelSkipDeletes :: FilterExpDelType where "FilterExpDelSkipDeletes = push_bit 1 1"
definition FilterExpDelSkipExpiration :: FilterExpDelType where "FilterExpDelSkipExpiration = push_bit 2 1"

definition IsStripExpirationSet :: "FilterExpDelType \<Rightarrow> bool" where
  "IsStripExpirationSet a = (a AND FilterExpDelStripExpiration > 0)"

definition IsSkipDeletesSet :: "FilterExpDelType \<Rightarrow> bool" where
  "IsSkipDeletesSet a = (a AND FilterExpDelSkipDeletes > 0)"

definition IsSkipExpirationSet :: "FilterExpDelType \<Rightarrow> bool" where
  "IsSkipExpirationSet a = (a AND FilterExpDelSkipExpiration > 0)"

definition SetStripExpiration :: "bool \<Rightarrow> FilterExpDelType \<Rightarrow> FilterExpDelType" where
  "SetStripExpiration setVal a = (if (a AND FilterExpDelStripExpiration > 0) \<noteq> setVal then a XOR push_bit 0 1 else a)"

definition SetSkipDeletes :: "bool \<Rightarrow> FilterExpDelType \<Rightarrow> FilterExpDelType" where
  "SetSkipDeletes setVal a = (if (a AND FilterExpDelSkipDeletes > 0) \<noteq> setVal then a XOR push_bit 1 1 else a)"

definition SetSkipExpiration :: "bool \<Rightarrow> FilterExpDelType \<Rightarrow> FilterExpDelType" where
  "SetSkipExpiration setVal a = (if (a AND FilterExpDelSkipExpiration > 0) \<noteq> setVal then a XOR push_bit 2 1 else a)"

lemmas flag_defs = IsStripExpirationSet_def IsSkipDeletesSet_def IsSkipExpirationSet_def
  SetStripExpiration_def SetSkipDeletes_def SetSkipExpiration_def
  FilterExpDelStripExpiration_def FilterExpDelSkipDeletes_def FilterExpDelSkipExpiration_def

text \<open>A flag test reads one bit and a setter writes one bit.\<close>

lemma and_bit_pos: "(a AND push_bit n 1 > 0) = bit (a :: 'a::len word) n"
  by (simp add: word_neq_0_conv[symmetric] push_bit_of_1 and_exp_eq_0_iff_not_bit)

lemma bit_toggle:
  fixes a :: "'a::len word"
  assumes "n < LENGTH('a)"
  shows "bit (if bit a n \<noteq> b then a XOR push_bit n 1 else a) m = (if m = n then b else bit a m)"
  using assms by (cases "m = n") (auto simp: bit_simps)

text \<open>Each pair of accessors is a flag of the mode, independent of the others.\<close>

locale bit_flags =
  fixes get :: "nat \<Rightarrow> 'a \<Rightarrow> bool" and put :: "nat \<Rightarrow> bool \<Rightarrow> 'a \<Rightarrow> 'a" and flags :: "nat set"
  assumes get_put: "i \<in> flags \<Longrightarrow> j \<in> flags \<Longrightarrow> get i (put j b a) = (if i = j then b else get i a)"
begin

lemma put_put_same: "i \<in> flags \<Longrightarrow> j \<in> flags \<Longrightarrow> get i (put j b' (put j b a)) = get i (put j b' a)"
  by (simp add: get_put)

lemma put_commute:
  "i \<in> flags \<Longrightarrow> j \<in> flags \<Longrightarrow> k \<in> flags \<Longrightarrow> j \<noteq> k \<Longrightarrow>
   get i (put j b (put k c a)) = get i (put k c (put j b a))"
  by (simp add: get_put)

end

definition mode_get :: "nat \<Rightarrow> FilterExpDelType \<Rightarrow> bool" where
  "mode_get i a = (if i = 0 then IsStripExpirationSet a else if i = 1 then IsSkipDeletesSet a else IsSkipExpirationSet a)"

definition mode_put :: "nat \<Rightarrow> bool \<Rightarrow> FilterExpDelType \<Rightarrow> FilterExpDelType" where
  "mode_put i b a = (if i = 0 then SetStripExpiration b a else if i = 1 then SetSkipDeletes b a else SetSkipExpiration b a)"

lemma flag_bits:
  "IsStripExpirationSet a = bit a 0" "IsSkipDeletesSet a = bit a 1" "IsSkipExpirationSet a = bit a 2"
  unfolding flag_defs and_bit_pos by (rule refl)+

lemma bit_set_flags:
  "bit (SetStripExpiration b a) m = (if m = 0 then b else bit a m)"
  "bit (SetSkipDeletes b a) m = (if m = 1 then b else bit a m)"
  "bit (SetSkipExpiration b a) m = (if m = 2 then b else bit a m)"
  unfolding flag_defs and_bit_pos by (rule bit_toggle, simp)+

interpretation expdel: bit_flags mode_get mode_put "{0, 1, 2}"
proof
  fix i j :: nat and b a
  assume "i \<in> {0, 1, 2}" "j \<in> {0, 1, 2}"
  then have "i = 0 \<or> i = 1 \<or> i = 2" "j = 0 \<or> j = 1 \<or> j = 2" by simp_all
  then show "mode_get i (mode_put j b a) = (if i = j then b else mode_get i a)"
    by (elim disjE) (simp_all add: mode_get_def mode_put_def flag_bits bit_set_flags)
qed


section \<open>The router\<close>

record Router =
  routingMap :: "(vbno \<rightharpoonup> string) option"
  sourceCRMode :: ConflictResolutionMode
  expDelMode :: FilterExpDelType
  isHighReplication :: bool

datatype router_event =
    DataFiltered UprEvent
  | DataUnableToFilter UprEvent goerror
  | DataPoolGetFail int
  | ExpiryFieldStripped UprEvent
  | DataThroughputThrottled

definition ErrorInvalidDataForRouter :: goerror where
  "ErrorInvalidDataForRouter = Sentinel ''Input data to Router is invalid.''"

definition ErrorNoRoutingMapForRouter :: goerror where
  "ErrorNoRoutingMapForRouter = Sentinel ''No routingMap has been defined for Router.''"

definition ErrorInvalidRoutingMapForRouter :: goerror where
  "ErrorInvalidRoutingMapForRouter = Sentinel ''routingMap in Router is invalid.''"

text \<open>Whether to go on, the event as changed, and the events raised.\<close>

definition ProcessExpDelTTL :: "Router \<Rightarrow> UprEvent \<Rightarrow> bool \<times> UprEvent \<times> router_event list" where
  "ProcessExpDelTTL router uprEvent =
     (let mode = expDelMode router in
      if mode = FilterExpDelNone then (True, uprEvent, [])
      else if mode AND FilterExpDelSkipDeletes > 0 \<and> ev_Opcode uprEvent = UPR_DELETION then (False, uprEvent, [])
      else if mode AND FilterExpDelSkipExpiration > 0 \<and> ev_Opcode uprEvent = UPR_EXPIRATION then (False, uprEvent, [])
      else if mode AND FilterExpDelStripExpiration > 0 then
        let e = uprEvent\<lparr>ev_Expiry := 0\<rparr> in (True, e, [ExpiryFieldStripped e])
      else (True, uprEvent, []))"

text \<open>
  The throttling service: whether a mutation may be sent now, and the wait.  The
  loop of \<open>throttle\<close> need not end; \<open>None\<close> is a loop that does not.
\<close>

record 's throttler_svc =
  svc_CanSend :: "bool \<Rightarrow> 's \<Rightarrow> bool \<times> 's"
  svc_Wait :: "'s \<Rightarrow> 's"

partial_function (option) throttle_loop :: "'s throttler_svc \<Rightarrow> bool \<Rightarrow> 's \<Rightarrow> 's option" where
  "throttle_loop svc high s =
     (case svc_CanSend svc high s of (ok, s') \<Rightarrow>
        if ok then Some s' else throttle_loop svc high (svc_Wait svc s'))"

definition throttle :: "'s throttler_svc \<Rightarrow> Router \<Rightarrow> 's \<Rightarrow> ('s \<times> router_event list) option" where
  "throttle svc router s =
     (case svc_CanSend svc (isHighReplication router) s of
        (True, s') \<Rightarrow> Some (s', [])
      | (False, s') \<Rightarrow> map_option (\<lambda>t. (t, [DataThroughputThrottled])) (throttle_loop svc (isHighReplication router) s'))"

text \<open>
  The filter of a replication: whether the event matches, an error, and the bytes
  the data pool could not provide.  \<open>mk\<close> is the request creator: an error or an
  object to fill.
\<close>

type_synonym event_filter = "UprEvent \<Rightarrow> bool \<times> goerror option \<times> int"

definition route_event ::
  "Router \<Rightarrow> event_filter option \<Rightarrow> (goerror + WrappedMCRequest) \<Rightarrow> int \<Rightarrow> UprEvent \<Rightarrow>
     ((goerror + (string \<times> WrappedMCRequest) list) \<times> router_event list) option" where
  "route_event router filt mk now uprEvent =
     (case routingMap router of
        None \<Rightarrow> Some (Inl ErrorNoRoutingMapForRouter, [])
      | Some rm \<Rightarrow>
          (case rm (ev_VBucket uprEvent) of
             None \<Rightarrow> Some (Inl ErrorInvalidRoutingMapForRouter, [])
           | Some partId \<Rightarrow>
               (case ProcessExpDelTTL router uprEvent of
                  (False, e, evs) \<Rightarrow> Some (Inr [], evs @ [DataFiltered e])
                | (True, e, evs) \<Rightarrow>
                    let (matched, err, failedDpCnt) = (case filt of None \<Rightarrow> (True, None, 0) | Some f \<Rightarrow> f e);
                        evs1 = evs @ (if failedDpCnt > 0 then [DataPoolGetFail failedDpCnt] else [])
                    in if \<not> matched \<or> err \<noteq> None then
                         Some (Inr [], evs1 @ [case err of Some x \<Rightarrow> DataUnableToFilter e x | None \<Rightarrow> DataFiltered e])
                       else (case mk of
                               Inl er \<Rightarrow> Some (Inl (Formatted (''Error creating new memcached request.'' @ [CHR 0x0A] @ '' err = '' @ Error er)), evs1)
                             | Inr w \<Rightarrow>
                                 (case ComposeMCRequest (sourceCRMode router) now w e of
                                    None \<Rightarrow> None
                                  | Some req \<Rightarrow> Some (Inr [(partId, req)], evs1))))))"

text \<open>Grouping the routing map, given as the list a range over it visits, by part.\<close>

fun group_by_part :: "(vbno \<times> string) list \<Rightarrow> (string \<times> vbno list) list \<Rightarrow> (string \<times> vbno list) list" where
  "group_by_part [] ret = ret"
| "group_by_part ((vb, partId) # rest) ret =
     group_by_part rest
       (AList.update partId ((case map_of ret partId of None \<Rightarrow> [] | Some l \<Rightarrow> l) @ [vb]) ret)"

definition RoutingMapByDownstreams :: "(vbno \<times> string) list \<Rightarrow> (string \<times> vbno list) list" where
  "RoutingMapByDownstreams rm = group_by_part rm []"

text \<open>
  The whole routing function; data of another type than a DCP event is \<open>None\<close>.
  The outer option is a panic or a throttling loop that does not end.
\<close>

definition route ::
  "'s throttler_svc \<Rightarrow> Router \<Rightarrow> event_filter option \<Rightarrow> (goerror + WrappedMCRequest) \<Rightarrow> int \<Rightarrow> UprEvent option \<Rightarrow> 's \<Rightarrow>
     ((goerror + (string \<times> WrappedMCRequest) list) \<times> router_event list \<times> 's) option" where
  "route svc router filt mk now data s = do {
     (s', tev) \<leftarrow> throttle svc router s;
     (case data of
        None \<Rightarrow> Some (Inl ErrorInvalidDataForRouter, tev, s')
      | Some uprEvent \<Rightarrow>
          map_option (\<lambda>(res, evs). (res, tev @ evs, s')) (route_event router filt mk now uprEvent)) }"

text \<open>Updates of the settings at run time; a value of the wrong type is an error.\<close>

datatype router_setting = SettingBool bool | SettingExpDel FilterExpDelType | SettingOther

definition updateHighRepl :: "router_setting \<Rightarrow> Router \<Rightarrow> Router + unit" where
  "updateHighRepl v router = (case v of SettingBool b \<Rightarrow> Inl (router\<lparr>isHighReplication := b\<rparr>) | _ \<Rightarrow> Inr ())"

definition updateExpDelMode :: "router_setting \<Rightarrow> Router \<Rightarrow> Router + unit" where
  "updateExpDelMode v router = (case v of SettingExpDel m \<Rightarrow> Inl (router\<lparr>expDelMode := m\<rparr>) | _ \<Rightarrow> Inr ())"

text \<open>The new router and the keys under which errors were recorded.\<close>

definition Router_UpdateSettings :: "(string \<rightharpoonup> router_setting) \<Rightarrow> Router \<Rightarrow> Router \<times> string list" where
  "Router_UpdateSettings settings router =
     (let (r1, e1) = (case settings ''IsHighReplication'' of None \<Rightarrow> (router, [])
            | Some v \<Rightarrow> (case updateHighRepl v router of Inl r \<Rightarrow> (r, []) | Inr _ \<Rightarrow> (router, [''UpdatingIsHighReplication''])));
          (r2, e2) = (case settings ''filter_exp_del'' of None \<Rightarrow> (r1, [])
            | Some v \<Rightarrow> (case updateExpDelMode v r1 of Inl r \<Rightarrow> (r, []) | Inr _ \<Rightarrow> (r1, [''UpdatingFilterExpDel''])))
      in (r2, e1 @ e2))"


section \<open>Forwarding\<close>

text \<open>
  The generic router hands the routed data to the downstream parts; \<open>receive\<close> is
  the \<open>Receive\<close> method of the part with that id.
\<close>

definition ErrorInvalidRouterConfig :: goerror where
  "ErrorInvalidRouterConfig =
     Sentinel ''Invalid Router configuration. Downstream parts and/or routing call back function are not defined.''"

definition ErrorInvalidRoutingResult :: goerror where
  "ErrorInvalidRoutingResult = Sentinel ''Invalid results from routing algorithm.''"

fun forward_loop ::
  "string set \<Rightarrow> (string \<Rightarrow> 'd \<Rightarrow> 'p \<Rightarrow> goerror option \<times> 'p) \<Rightarrow> (string \<times> 'd) list \<Rightarrow> 'p \<Rightarrow> goerror option \<times> 'p" where
  "forward_loop parts receive [] p = (None, p)"
| "forward_loop parts receive ((partId, d) # rest) p =
     (if partId \<in> parts then
        (case receive partId d p of
           (Some e, p') \<Rightarrow> (Some e, p')
         | (None, p') \<Rightarrow> forward_loop parts receive rest p')
      else (Some ErrorInvalidRoutingResult, p))"

definition Forward ::
  "string set \<Rightarrow> (string \<Rightarrow> 'd \<Rightarrow> 'p \<Rightarrow> goerror option \<times> 'p) \<Rightarrow> ('a \<Rightarrow> (goerror + (string \<times> 'd) list)) option \<Rightarrow> 'a \<Rightarrow> 'p \<Rightarrow>
     goerror option \<times> 'p" where
  "Forward parts receive callback d p =
     (case callback of
        None \<Rightarrow> (Some ErrorInvalidRouterConfig, p)
      | Some cb \<Rightarrow>
          if parts = {} then (Some ErrorInvalidRouterConfig, p)
          else (case cb d of Inl e \<Rightarrow> (Some e, p) | Inr routed \<Rightarrow> forward_loop parts receive routed p))"


section \<open>Library\<close>

lemma put_at_append:
  assumes "length p = a" "a + length bs \<le> length z"
  shows "put_at a bs (p @ drop a z) = Some ((p @ bs) @ drop (a + length bs) z)"
  using assms by (simp add: put_at_def drop_drop add.commute)

lemma length_resize_extras [simp]: "length (resize_extras n xs) = n"
  by (simp add: resize_extras_def)

definition data_event :: "UprEvent \<Rightarrow> bool" where
  "data_event ev \<longleftrightarrow> ev_Opcode ev = UPR_MUTATION \<or> ev_Opcode ev = UPR_DELETION \<or> ev_Opcode ev = UPR_EXPIRATION"

text \<open>The extras of a composed request: flags, expiry, revision, CAS and, if any, options.\<close>

lemma compose_extras_layout:
  assumes "data_event ev"
  shows "\<exists>tail. compose_extras mode ev old =
     Some (put_uint32 (ev_Flags ev) @ put_uint32 (ev_Expiry ev) @ put_uint64 (ev_RevSeqno ev) @ put_uint64 (ev_Cas ev) @ tail)"
proof -
  define n where "n = (if mode = CRMode_LWW \<or> ev_Opcode ev = UPR_EXPIRATION then 28 else 24 :: nat)"
  define opts where "opts = (if mode = CRMode_LWW then FORCE_ACCEPT_WITH_META_OPS else 0) OR
                      (if ev_Opcode ev = UPR_EXPIRATION then IS_EXPIRATION else 0)"
  define z where "z = resize_extras n old"
  have z: "length z = n" "24 \<le> n" by (simp_all add: z_def n_def)
  have opt: "opts > 0 \<Longrightarrow> n = 28"
    by (auto simp: opts_def n_def split: if_splits)
  let ?x = "put_uint32 (ev_Flags ev) @ put_uint32 (ev_Expiry ev) @ put_uint64 (ev_RevSeqno ev) @ put_uint64 (ev_Cas ev)"
  have "compose_extras mode ev old =
      (if opts > 0 then put_at 24 (put_uint32 opts) (?x @ drop 24 z) else Some (?x @ drop 24 z))"
    using assms z put_at_append[of "[]" 0 "put_uint32 (ev_Flags ev)" z]
      put_at_append[of "put_uint32 (ev_Flags ev)" 4 "put_uint32 (ev_Expiry ev)" z]
      put_at_append[of "put_uint32 (ev_Flags ev) @ put_uint32 (ev_Expiry ev)" 8 "put_uint64 (ev_RevSeqno ev)" z]
      put_at_append[of "put_uint32 (ev_Flags ev) @ put_uint32 (ev_Expiry ev) @ put_uint64 (ev_RevSeqno ev)" 16 "put_uint64 (ev_Cas ev)" z]
    by (simp add: compose_extras_def data_event_def Let_def flip: n_def opts_def z_def)
  moreover have "opts > 0 \<Longrightarrow> put_at 24 (put_uint32 opts) (?x @ drop 24 z) = Some (?x @ put_uint32 opts)"
    using put_at_append[of ?x 24 "put_uint32 opts" z] z opt by simp
  ultimately show ?thesis by (cases "opts > 0") auto
qed

lemma be_uint32_at:
  assumes "length p = a"
  shows "be_uint32 a (p @ put_uint32 w @ q) = Some w"
  using assms by (simp add: be_uint32_def slice_def)

lemma be_uint64_at:
  assumes "length p = a"
  shows "be_uint64 a (p @ put_uint64 w @ q) = Some w"
  using assms by (simp add: be_uint64_def slice_def)

lemma compose_then_decode:
  assumes "data_event ev"
  shows "\<exists>r. ComposeMCRequest mode now w ev = Some r \<and> wr_Seqno r = ev_Seqno ev \<and> VBucket (Req r) = ev_VBucket ev \<and>
     UniqueKey r = ev_Key ev @ put_uint64 (ev_RevSeqno ev) \<and>
     decodeSetMetaReq r = Some \<lparr>dm_key = ev_Key ev, revSeq = ev_RevSeqno ev, cas = ev_Cas ev, dm_flags = ev_Flags ev,
        expiry = ev_Expiry ev, deletion = False, dataType = ev_DataType ev\<rparr>"
proof -
  let ?f = "put_uint32 (ev_Flags ev)" and ?e = "put_uint32 (ev_Expiry ev)"
  let ?r = "put_uint64 (ev_RevSeqno ev)" and ?c = "put_uint64 (ev_Cas ev)"
  obtain tail where x: "compose_extras mode ev (Extras (Req w)) = Some (?f @ ?e @ ?r @ ?c @ tail)"
    using compose_extras_layout[OF assms] by blast
  have sl: "slice 8 16 (?f @ ?e @ ?r @ ?c @ tail) = Some ?r" by (simp add: slice_def)
  have d: "be_uint32 0 (?f @ ?e @ ?r @ ?c @ tail) = Some (ev_Flags ev)"
    "be_uint32 4 (?f @ ?e @ ?r @ ?c @ tail) = Some (ev_Expiry ev)"
    "be_uint64 8 (?f @ ?e @ ?r @ ?c @ tail) = Some (ev_RevSeqno ev)"
    using be_uint32_at[of "[]" 0 "ev_Flags ev" "?e @ ?r @ ?c @ tail"] be_uint32_at[of ?f 4 "ev_Expiry ev" "?r @ ?c @ tail"]
      be_uint64_at[of "?f @ ?e" 8 "ev_RevSeqno ev" "?c @ tail"] by simp_all
  have "ev_Opcode ev \<noteq> DELETE_WITH_META" using assms by (auto simp: data_event_def)
  then show ?thesis
    using x sl d by (simp add: ComposeMCRequest_def ConstructUniqueKey_def decodeSetMetaReq_def)
qed

lemma map_of_group_by_part:
  "map_of (group_by_part rm ret) p =
     (case map_of ret p of
        None \<Rightarrow> if p \<in> snd ` set rm then Some (map fst (filter (\<lambda>e. snd e = p) rm)) else None
      | Some l \<Rightarrow> Some (l @ map fst (filter (\<lambda>e. snd e = p) rm)))"
proof (induction rm ret rule: group_by_part.induct)
  case (2 vb partId rest ret)
  then show ?case by (auto simp: update_conv' split: option.splits)
qed (simp split: option.splits)

definition dropped_event :: "router_event \<Rightarrow> UprEvent option" where
  "dropped_event e = (case e of DataFiltered u \<Rightarrow> Some u | DataUnableToFilter u _ \<Rightarrow> Some u | _ \<Rightarrow> None)"

lemma ProcessExpDelTTL_cases:
  assumes "ProcessExpDelTTL router ev = (go, e, evs)"
  shows "ev_Seqno e = ev_Seqno ev \<and> ev_VBucket e = ev_VBucket ev \<and> ev_Opcode e = ev_Opcode ev \<and>
         List.map_filter dropped_event evs = []"
  using assms
  by (auto simp: ProcessExpDelTTL_def Let_def map_filter_def dropped_event_def split: if_splits)


section \<open>Properties of the router\<close>

text \<open>C23. Composing a request from a mutation, deletion or expiration never panics, whatever a reused
  request object still holds, and the metadata read back from it for conflict resolution is the
  event's.  The deletion mark is never set, also not for a deletion: the opcode is translated
  only later.\<close>

theorem compose_decode_roundtrip:
  assumes "data_event ev"
  shows "\<exists>r. ComposeMCRequest mode now w ev = Some r \<and> wr_Seqno r = ev_Seqno ev \<and> VBucket (Req r) = ev_VBucket ev \<and>
     UniqueKey r = ev_Key ev @ put_uint64 (ev_RevSeqno ev) \<and>
     decodeSetMetaReq r = Some \<lparr>dm_key = ev_Key ev, revSeq = ev_RevSeqno ev, cas = ev_Cas ev, dm_flags = ev_Flags ev,
        expiry = ev_Expiry ev, deletion = False, dataType = ev_DataType ev\<rparr>"
  by (rule compose_then_decode[OF assms])

definition example_event :: "CommandCode \<Rightarrow> UprEvent" where
  "example_event opc = \<lparr>ev_Opcode = opc, ev_VBucket = 2, ev_Key = [1], ev_Value = [], ev_Cas = 9, ev_Flags = 1, ev_Expiry = 5,
     ev_RevSeqno = 4, ev_Seqno = 7, ev_SnapstartSeq = 0, ev_SnapendSeq = 0, ev_SnapshotType = 0, ev_DataType = 1\<rparr>"

theorem compose_decode_roundtrip_witness:
  "\<exists>r. ComposeMCRequest CRMode_LWW 0 addOne (example_event UPR_DELETION) = Some r \<and>
     decodeSetMetaReq r = Some \<lparr>dm_key = [1], revSeq = 4, cas = 9, dm_flags = 1, expiry = 5, deletion = False, dataType = 1\<rparr>"
proof -
  have "data_event (example_event UPR_DELETION)" by (simp add: data_event_def example_event_def)
  from compose_decode_roundtrip[OF this, of CRMode_LWW 0 addOne] show ?thesis by (auto simp: example_event_def)
qed

text \<open>C24. No event is lost in the router: when routing succeeds, either exactly one request with the
  event's sequence number goes to the part of its vbucket and nothing is reported as dropped, or
  no request is made and exactly one raised event reports it as filtered or not filterable.\<close>

theorem route_accounts_for_event:
  assumes "route_event router filt mk now ev = Some (Inr routed, evs)" "data_event ev"
  shows "(\<exists>rm part r. routingMap router = Some rm \<and> rm (ev_VBucket ev) = Some part \<and> routed = [(part, r)] \<and>
            wr_Seqno r = ev_Seqno ev \<and> VBucket (Req r) = ev_VBucket ev \<and> List.map_filter dropped_event evs = []) \<or>
         (routed = [] \<and> (\<exists>u. List.map_filter dropped_event evs = [u] \<and> ev_Seqno u = ev_Seqno ev \<and> ev_VBucket u = ev_VBucket ev))"
proof -
  obtain rm part where rm: "routingMap router = Some rm" "rm (ev_VBucket ev) = Some part"
    using assms(1) by (auto simp: route_event_def split: option.splits)
  obtain go e evs0 where pe: "ProcessExpDelTTL router ev = (go, e, evs0)" by (metis prod.exhaust)
  note e = ProcessExpDelTTL_cases[OF pe]
  obtain matched err cnt where f: "(case filt of None \<Rightarrow> (True, None, 0) | Some f \<Rightarrow> f e) = (matched, err, cnt)"
    by (metis prod.exhaust)
  show ?thesis
  proof (cases "go \<and> matched \<and> err = None")
    case True
    then obtain w where w: "mk = Inr w" using assms(1) rm pe f by (cases mk) (auto simp: route_event_def Let_def)
    have "data_event e" using assms(2) e by (simp add: data_event_def)
    then obtain r where r: "ComposeMCRequest (sourceCRMode router) now w e = Some r"
      "wr_Seqno r = ev_Seqno e" "VBucket (Req r) = ev_VBucket e"
      using compose_then_decode by blast
    show ?thesis
      using assms(1) rm pe f True w r e
      by (auto simp: route_event_def Let_def map_filter_def dropped_event_def split: if_splits)
  next
    case False
    then show ?thesis
      using assms(1) rm pe f e
      by (cases go; cases err) (auto simp: route_event_def Let_def map_filter_def dropped_event_def split: if_splits)
  qed
qed

definition example_router :: Router where
  "example_router = \<lparr>routingMap = Some [2 \<mapsto> ''xmem_1''], sourceCRMode = CRMode_RevId, expDelMode = 2, isHighReplication = True\<rparr>"

theorem route_accounts_for_event_witness:
  "\<exists>evs. route_event example_router None (Inr addOne) 0 (example_event UPR_DELETION) = Some (Inr [], evs) \<and>
     (\<exists>u. List.map_filter dropped_event evs = [u] \<and> ev_Seqno u = 7)"
proof -
  let ?ev = "example_event UPR_DELETION"
  have "(2 :: FilterExpDelType) AND FilterExpDelSkipDeletes > 0"
    using flag_bits(2)[of 2] by (simp add: IsSkipDeletesSet_def)
  then have run: "route_event example_router None (Inr addOne) 0 ?ev = Some (Inr [], [DataFiltered ?ev])"
    by (simp add: route_event_def example_router_def ProcessExpDelTTL_def example_event_def FilterExpDelNone_def Let_def)
  have "data_event ?ev" by (simp add: data_event_def example_event_def)
  from route_accounts_for_event[OF run this] run show ?thesis by (auto simp: example_event_def)
qed

text \<open>Inverting the routing map lists for every part exactly the vbuckets routed to it, in the
  order visited, and no part without vbuckets.\<close>

theorem routing_map_by_downstreams:
  "map_of (RoutingMapByDownstreams rm) part =
     (if part \<in> snd ` set rm then Some (map fst (filter (\<lambda>e. snd e = part) rm)) else None)"
  by (simp add: RoutingMapByDownstreams_def map_of_group_by_part)

text \<open>C25. The three flags of the deletion and expiration mode are independent: setting one makes its
  test return the value set and leaves the other two tests as they were.\<close>

theorem expdel_flags_independent:
  "IsStripExpirationSet (SetStripExpiration b a) = b \<and> IsSkipDeletesSet (SetStripExpiration b a) = IsSkipDeletesSet a \<and>
   IsSkipExpirationSet (SetStripExpiration b a) = IsSkipExpirationSet a \<and>
   IsStripExpirationSet (SetSkipDeletes b a) = IsStripExpirationSet a \<and> IsSkipDeletesSet (SetSkipDeletes b a) = b \<and>
   IsSkipExpirationSet (SetSkipDeletes b a) = IsSkipExpirationSet a \<and>
   IsStripExpirationSet (SetSkipExpiration b a) = IsStripExpirationSet a \<and>
   IsSkipDeletesSet (SetSkipExpiration b a) = IsSkipDeletesSet a \<and> IsSkipExpirationSet (SetSkipExpiration b a) = b"
  using expdel.get_put[of 0 0 b a] expdel.get_put[of 1 0 b a] expdel.get_put[of 2 0 b a]
    expdel.get_put[of 0 1 b a] expdel.get_put[of 1 1 b a] expdel.get_put[of 2 1 b a]
    expdel.get_put[of 0 2 b a] expdel.get_put[of 1 2 b a] expdel.get_put[of 2 2 b a]
  by (simp add: mode_get_def mode_put_def)

end
