(* ===== verification/Throttlers.thy ===== *)
theory Throttlers
  imports Go_Strings
begin

text \<open>
  The two throttling services: bandwidth of one pipeline,
  \<open>pipeline_svc/bandwidth_throttler.go\<close>, and throughput of low priority
  replications, \<open>service_impl/throughput_throttler_service.go\<close>.

  Their state is a handful of atomic integers.  A loop around a compare-and-swap
  is the atomic update it performs when the swap succeeds; a value loaded before
  such a loop is an argument, so that it may be out of date.  The number of time
  slots per second is a configurable constant, the parameter \<open>slots\<close>.
\<close>


section \<open>Bandwidth\<close>

record BandwidthThrottler =
  number_of_source_nodes :: nat
  overall_bandwidth_limit :: int
  bandwidth_limit :: int
  bandwidth_usage_quota :: int

definition errorZeroSrcNode :: goerror where
  "errorZeroSrcNode = Sentinel ''Error: Bandwidth Throttler's number of source nodes cannot be 0''"

definition initBandwidthUsageQuota :: "int \<Rightarrow> int \<Rightarrow> BandwidthThrottler \<Rightarrow> BandwidthThrottler" where
  "initBandwidthUsageQuota slots limit t = t\<lparr>bandwidth_usage_quota := limit div slots\<rparr>"

definition setBandwidthLimit :: "BandwidthThrottler \<Rightarrow> (goerror + int) \<times> BandwidthThrottler" where
  "setBandwidthLimit t =
     (if number_of_source_nodes t = 0 then (Inl errorZeroSrcNode, t)
      else let limit = overall_bandwidth_limit t * 1024 * 1024 div int (number_of_source_nodes t)
           in (Inr limit, t\<lparr>bandwidth_limit := limit\<rparr>))"

definition bw_Attach :: "int \<Rightarrow> (goerror + nat) \<Rightarrow> int \<Rightarrow> BandwidthThrottler \<Rightarrow> goerror option \<times> BandwidthThrottler" where
  "bw_Attach slots nodes settingsLimit t =
     (case nodes of
        Inl e \<Rightarrow> (Some e, t)
      | Inr n \<Rightarrow>
          if n = 0 then (Some errorZeroSrcNode, t)
          else (case setBandwidthLimit (t\<lparr>number_of_source_nodes := n, overall_bandwidth_limit := settingsLimit\<rparr>) of
                  (Inl e, t1) \<Rightarrow> (Some e, t1)
                | (Inr limit, t1) \<Rightarrow> (None, initBandwidthUsageQuota slots limit t1)))"

text \<open>One time slot; the flag tells whether waiting goroutines are woken.\<close>

definition bw_updateOnce :: "int \<Rightarrow> BandwidthThrottler \<Rightarrow> BandwidthThrottler \<times> bool" where
  "bw_updateOnce slots t =
     (let q = bandwidth_usage_quota t + bandwidth_limit t div slots;
          q' = (if q > bandwidth_limit t then bandwidth_limit t else q)
      in (t\<lparr>bandwidth_usage_quota := q'\<rparr>, q' > 0))"

text \<open>\<open>Throttle\<close> with the limit it loaded first.\<close>

definition Throttle_with ::
  "int \<Rightarrow> int \<Rightarrow> int \<Rightarrow> int \<Rightarrow> int \<Rightarrow> BandwidthThrottler \<Rightarrow> (int \<times> int) \<times> BandwidthThrottler" where
  "Throttle_with slots limit numberOfBytes minNumberOfBytes numberOfBytesOfFirstItem t =
     (if limit = 0 then ((numberOfBytes, 0), t)
      else let quota = bandwidth_usage_quota t in
        if quota \<le> 0 then ((0, 0), t)
        else if quota \<ge> numberOfBytes then ((numberOfBytes, 0), t\<lparr>bandwidth_usage_quota := quota - numberOfBytes\<rparr>)
        else if quota \<ge> minNumberOfBytes then
          ((minNumberOfBytes, quota - minNumberOfBytes), t\<lparr>bandwidth_usage_quota := quota - minNumberOfBytes\<rparr>)
        else if limit div slots < numberOfBytesOfFirstItem then
          let q' = quota - numberOfBytesOfFirstItem in
          ((numberOfBytesOfFirstItem, if q' > 0 then q' else 0), t\<lparr>bandwidth_usage_quota := q'\<rparr>)
        else ((0, quota), t))"

definition Throttle :: "int \<Rightarrow> int \<Rightarrow> int \<Rightarrow> int \<Rightarrow> BandwidthThrottler \<Rightarrow> (int \<times> int) \<times> BandwidthThrottler" where
  "Throttle slots n m f t = Throttle_with slots (bandwidth_limit t) n m f t"

definition adjustBandwidthUsageQuota :: "int \<Rightarrow> BandwidthThrottler \<Rightarrow> BandwidthThrottler" where
  "adjustBandwidthUsageQuota limit t =
     (if bandwidth_usage_quota t \<le> limit then t else t\<lparr>bandwidth_usage_quota := limit\<rparr>)"

text \<open>New settings; an absent setting is \<open>None\<close>.  The node count is cut to 32 bits.\<close>

definition bw_UpdateSettings :: "int option \<Rightarrow> int option \<Rightarrow> BandwidthThrottler \<Rightarrow> goerror option \<times> BandwidthThrottler" where
  "bw_UpdateSettings overall nodes t =
     (let t1 = (case overall of None \<Rightarrow> t | Some x \<Rightarrow> t\<lparr>overall_bandwidth_limit := x\<rparr>) in
      case nodes of
        Some n \<Rightarrow>
          if nat (n mod 2 ^ 32) > 0 then
            (case setBandwidthLimit (t1\<lparr>number_of_source_nodes := nat (n mod 2 ^ 32)\<rparr>) of
               (Inl e, t2) \<Rightarrow> (Some e, t2)
             | (Inr limit, t2) \<Rightarrow> (None, adjustBandwidthUsageQuota limit t2))
          else (Some errorZeroSrcNode, t1)
      | None \<Rightarrow>
          if overall \<noteq> None then
            (case setBandwidthLimit t1 of
               (Inl e, t2) \<Rightarrow> (Some e, t2)
             | (Inr limit, t2) \<Rightarrow> (None, adjustBandwidthUsageQuota limit t2))
          else (None, t1))"


section \<open>Throughput\<close>

record ThroughputThrottler =
  throughput_limit :: int
  throughput_quota :: int
  high_tokens :: int
  unused_high_tokens :: int
  reassigned_high_tokens :: int
  max_reassignable_tokens_per_slot :: int
  needToCalibrate :: bool
  updateCount :: nat
  once_done :: bool

definition NewThroughputThrottlerSvc :: ThroughputThrottler where
  "NewThroughputThrottlerSvc = \<lparr>throughput_limit = 0, throughput_quota = 0, high_tokens = 0, unused_high_tokens = 0,
     reassigned_high_tokens = 0, max_reassignable_tokens_per_slot = 0, needToCalibrate = True, updateCount = 0, once_done = False\<rparr>"

definition tp_updateOnce :: "int \<Rightarrow> nat \<Rightarrow> ThroughputThrottler \<Rightarrow> ThroughputThrottler" where
  "tp_updateOnce slots calibInterval t =
     (let t1 = (if throughput_limit t = 0 then t
                else let q = throughput_quota t + throughput_limit t div slots
                     in t\<lparr>throughput_quota := if q > throughput_limit t then throughput_limit t else q\<rparr>);
          new_high = high_tokens t1 div slots;
          t2 = (if \<not> needToCalibrate t1 \<or> updateCount t1 mod calibInterval \<noteq> 0
                then let r = unused_high_tokens t1;
                         r' = (if r > max_reassignable_tokens_per_slot t1 then max_reassignable_tokens_per_slot t1 else r)
                     in t1\<lparr>reassigned_high_tokens := reassigned_high_tokens t1 + r'\<rparr>
                else t1)
      in t2\<lparr>unused_high_tokens := new_high, updateCount := updateCount t2 + 1\<rparr>)"

definition clearReassignedTokens :: "ThroughputThrottler \<Rightarrow> ThroughputThrottler" where
  "clearReassignedTokens t = t\<lparr>reassigned_high_tokens := 0\<rparr>"

definition CanSend :: "bool \<Rightarrow> ThroughputThrottler \<Rightarrow> bool \<times> ThroughputThrottler" where
  "CanSend isHighPriorityReplication t =
     (if isHighPriorityReplication then (True, t\<lparr>unused_high_tokens := unused_high_tokens t - 1\<rparr>)
      else if throughput_limit t = 0 then (True, t)
      else if throughput_quota t > 0 then (True, t\<lparr>throughput_quota := throughput_quota t - 1\<rparr>)
      else if reassigned_high_tokens t > 0 then (True, t\<lparr>reassigned_high_tokens := reassigned_high_tokens t - 1\<rparr>)
      else (False, t))"

definition setHighTokens :: "int \<Rightarrow> int \<Rightarrow> ThroughputThrottler \<Rightarrow> goerror option \<times> ThroughputThrottler" where
  "setHighTokens slots tks t =
     (if tks < 0 then (Some (Formatted ''High tokens cannot be negative.''), t)
      else let t1 = t\<lparr>high_tokens := tks\<rparr>
           in (None, if once_done t1 then t1 else t1\<lparr>unused_high_tokens := tks div slots, once_done := True\<rparr>))"

definition setMaxReassignableHighTokens :: "int \<Rightarrow> int \<Rightarrow> ThroughputThrottler \<Rightarrow> goerror option \<times> ThroughputThrottler" where
  "setMaxReassignableHighTokens slots tks t =
     (if tks < 0 then (Some (Formatted ''Max reassignable tokens cannot be negative.''), t)
      else (None, t\<lparr>max_reassignable_tokens_per_slot := tks div slots\<rparr>))"

definition setLowTokens :: "int \<Rightarrow> int \<Rightarrow> ThroughputThrottler \<Rightarrow> goerror option \<times> ThroughputThrottler" where
  "setLowTokens slots tks t =
     (if tks < 0 then (Some (Formatted ''Throughput limit cannot be negative.''), t)
      else let t1 = t\<lparr>throughput_limit := tks\<rparr> in
        if tks = 0 then (None, t1)
        else (None, if throughput_quota t1 \<le> tks div slots then t1 else t1\<lparr>throughput_quota := tks div slots\<rparr>))"

text \<open>The settings that are present are applied in turn; the result holds the error of each rejected key.\<close>

definition tp_UpdateSettings ::
  "int \<Rightarrow> int option \<Rightarrow> int option \<Rightarrow> int option \<Rightarrow> bool option \<Rightarrow> ThroughputThrottler \<Rightarrow> (string \<rightharpoonup> goerror) \<times> ThroughputThrottler" where
  "tp_UpdateSettings slots highT maxReassign lowT calibrate t =
     (let (e1, t1) = (case highT of None \<Rightarrow> (None, t) | Some x \<Rightarrow> setHighTokens slots x t);
          (e2, t2) = (case maxReassign of None \<Rightarrow> (None, t1) | Some x \<Rightarrow> setMaxReassignableHighTokens slots x t1);
          (e3, t3) = (case lowT of None \<Rightarrow> (None, t2) | Some x \<Rightarrow> setLowTokens slots x t2);
          t4 = (case calibrate of None \<Rightarrow> t3 | Some b \<Rightarrow> t3\<lparr>needToCalibrate := b\<rparr>)
      in (Map.empty(''HighTokens'' := e1, ''MaxReassignableHighTokens'' := e2, ''LowTokens'' := e3), t4))"


section \<open>The rate of the bandwidth throttler\<close>

text \<open>What happens to a throttler while its settings stay as they are: time slots pass, and callers
  ask for bytes.  A run is judged by the bytes it granted.\<close>

datatype bw_action = Tick | Ask int int int

definition bw_step :: "int \<Rightarrow> bw_action \<Rightarrow> BandwidthThrottler \<Rightarrow> int \<times> BandwidthThrottler" where
  "bw_step slots a t = (case a of Tick \<Rightarrow> (0, fst (bw_updateOnce slots t))
                                | Ask n m f \<Rightarrow> (case Throttle slots n m f t of ((c, _), t') \<Rightarrow> (c, t')))"

fun bw_run :: "int \<Rightarrow> bw_action list \<Rightarrow> BandwidthThrottler \<Rightarrow> int \<times> BandwidthThrottler" where
  "bw_run slots [] t = (0, t)"
| "bw_run slots (a # as) t = (case bw_step slots a t of (c, t1) \<Rightarrow> case bw_run slots as t1 of (cs, t2) \<Rightarrow> (c + cs, t2))"

text \<open>A caller's request is sensible when the first item is part of the minimum and that of the whole;
  \<open>F\<close> bounds the size of a single item.\<close>

definition sensible :: "int \<Rightarrow> bw_action \<Rightarrow> bool" where
  "sensible F a = (case a of Tick \<Rightarrow> True | Ask n m f \<Rightarrow> 0 \<le> f \<and> f \<le> m \<and> m \<le> n \<and> f \<le> F)"

definition ticks :: "bw_action list \<Rightarrow> nat" where
  "ticks as = length (filter (\<lambda>a. a = Tick) as)"

lemma Throttle_cases:
  assumes "Throttle slots n m f t = ((c, a), t')" "0 < bandwidth_limit t"
  obtains (refused) "bandwidth_usage_quota t \<le> 0" "c = 0" "a = 0" "t' = t"
    | (all) "0 < bandwidth_usage_quota t" "n \<le> bandwidth_usage_quota t" "c = n" "a = 0" "t' = t\<lparr>bandwidth_usage_quota := bandwidth_usage_quota t - n\<rparr>"
    | (some) "0 < bandwidth_usage_quota t" "bandwidth_usage_quota t < n" "m \<le> bandwidth_usage_quota t" "c = m"
        "a = bandwidth_usage_quota t - m" "t' = t\<lparr>bandwidth_usage_quota := bandwidth_usage_quota t - m\<rparr>"
    | (first) "0 < bandwidth_usage_quota t" "bandwidth_usage_quota t < m" "bandwidth_limit t div slots < f" "c = f"
        "a = max 0 (bandwidth_usage_quota t - f)" "t' = t\<lparr>bandwidth_usage_quota := bandwidth_usage_quota t - f\<rparr>"
    | (later) "0 < bandwidth_usage_quota t" "bandwidth_usage_quota t < n" "bandwidth_usage_quota t < m" "f \<le> bandwidth_limit t div slots"
        "c = 0" "a = bandwidth_usage_quota t" "t' = t"
proof -
  have lim: "bandwidth_limit t \<noteq> 0" using assms(2) by simp
  note th = assms(1)[unfolded Throttle_def Throttle_with_def Let_def if_not_P[OF lim]]
  consider "bandwidth_usage_quota t \<le> 0" | "0 < bandwidth_usage_quota t" "n \<le> bandwidth_usage_quota t"
    | "0 < bandwidth_usage_quota t" "bandwidth_usage_quota t < n" "m \<le> bandwidth_usage_quota t"
    | "0 < bandwidth_usage_quota t" "bandwidth_usage_quota t < n" "bandwidth_usage_quota t < m" "bandwidth_limit t div slots < f"
    | "0 < bandwidth_usage_quota t" "bandwidth_usage_quota t < n" "bandwidth_usage_quota t < m" "f \<le> bandwidth_limit t div slots"
    by linarith
  then show thesis
  proof cases
    case 1
    with th show thesis by (intro refused) auto
  next
    case 2
    with th show thesis by (intro all) auto
  next
    case 3
    with th show thesis by (intro some) auto
  next
    case 4
    with th show thesis by (intro first) (auto simp: max_def split: if_splits)
  next
    case 5
    with th show thesis by (intro later) auto
  qed
qed

lemma bw_step_frame [simp]:
  assumes "bw_step slots a t = (c, t')"
  shows "bandwidth_limit t' = bandwidth_limit t"
  using assms by (auto simp: bw_step_def bw_updateOnce_def Throttle_def Throttle_with_def Let_def split: bw_action.splits if_splits)

text \<open>One step: the quota stays within the limit and above minus the largest item, and what is granted
  is paid from the quota.\<close>

lemma bw_step_account:
  assumes "bw_step slots a t = (c, t')" "sensible F a" "0 < bandwidth_limit t" "0 < slots"
    "bandwidth_usage_quota t \<le> bandwidth_limit t" "- F < bandwidth_usage_quota t" "0 < F"
  shows "bandwidth_usage_quota t' \<le> bandwidth_limit t'" "- F < bandwidth_usage_quota t'" "0 \<le> c"
    "c + bandwidth_usage_quota t' \<le> bandwidth_usage_quota t + int (ticks [a]) * (bandwidth_limit t div slots)"
proof -
  have p: "0 \<le> bandwidth_limit t div slots" using assms(3,4) by (simp add: pos_imp_zdiv_nonneg_iff)
  have "bandwidth_usage_quota t' \<le> bandwidth_limit t' \<and> - F < bandwidth_usage_quota t' \<and> 0 \<le> c \<and>
    c + bandwidth_usage_quota t' \<le> bandwidth_usage_quota t + int (ticks [a]) * (bandwidth_limit t div slots)"
  proof (cases a)
    case Tick
    then show ?thesis using assms p by (auto simp: bw_step_def bw_updateOnce_def Let_def ticks_def)
  next
    case (Ask n m f)
    obtain al where th: "Throttle slots n m f t = ((c, al), t')"
      using assms(1) by (auto simp: bw_step_def Ask split: prod.splits)
    from assms(2) have s: "0 \<le> f" "f \<le> m" "m \<le> n" "f \<le> F" by (auto simp: sensible_def Ask)
    from th assms(3) show ?thesis
      by (cases rule: Throttle_cases) (use assms(5-7) s in \<open>auto simp: ticks_def Ask\<close>)
  qed
  then show "bandwidth_usage_quota t' \<le> bandwidth_limit t'" "- F < bandwidth_usage_quota t'" "0 \<le> c"
    "c + bandwidth_usage_quota t' \<le> bandwidth_usage_quota t + int (ticks [a]) * (bandwidth_limit t div slots)" by auto
qed

lemma ticks_Cons: "ticks (a # as) = ticks [a] + ticks as"
  by (simp add: ticks_def)

lemma bw_run_account:
  assumes "bw_run slots as t = (c, t')" "\<forall>a\<in>set as. sensible F a" "0 < bandwidth_limit t" "0 < slots"
    "bandwidth_usage_quota t \<le> bandwidth_limit t" "- F < bandwidth_usage_quota t" "0 < F"
  shows "bandwidth_limit t' = bandwidth_limit t \<and> bandwidth_usage_quota t' \<le> bandwidth_limit t' \<and> - F < bandwidth_usage_quota t' \<and>
    c + bandwidth_usage_quota t' \<le> bandwidth_usage_quota t + int (ticks as) * (bandwidth_limit t div slots)"
  using assms
proof (induction as arbitrary: t c)
  case Nil
  then show ?case by (simp add: ticks_def)
next
  case (Cons a as)
  obtain c1 t1 where s: "bw_step slots a t = (c1, t1)" by fastforce
  obtain cs where r: "bw_run slots as t1 = (cs, t')" "c = c1 + cs" using Cons.prems(1) s by (auto split: prod.splits)
  have sa: "sensible F a" "\<forall>a\<in>set as. sensible F a" using Cons.prems(2) by auto
  note st = bw_step_account[OF s sa(1) Cons.prems(3-7)]
  have fr: "bandwidth_limit t1 = bandwidth_limit t" using s by simp
  have "bandwidth_limit t' = bandwidth_limit t1 \<and> bandwidth_usage_quota t' \<le> bandwidth_limit t' \<and> - F < bandwidth_usage_quota t' \<and>
    cs + bandwidth_usage_quota t' \<le> bandwidth_usage_quota t1 + int (ticks as) * (bandwidth_limit t1 div slots)"
    using Cons.IH[OF r(1) sa(2)] Cons.prems(3,4,7) fr st(1,2) by simp
  then show ?case using st fr r(2) ticks_Cons[of a as] by (auto simp: distrib_right)
qed


section \<open>The rate of low priority replications\<close>

datatype tp_action = Slot | ClearTokens | SendHigh | SendLow

text \<open>A run of the throughput throttler; the first component counts the low priority mutations let through.\<close>

definition tp_step :: "int \<Rightarrow> nat \<Rightarrow> tp_action \<Rightarrow> ThroughputThrottler \<Rightarrow> int \<times> ThroughputThrottler" where
  "tp_step slots calib a t = (case a of
     Slot \<Rightarrow> (0, tp_updateOnce slots calib t)
   | ClearTokens \<Rightarrow> (0, clearReassignedTokens t)
   | SendHigh \<Rightarrow> (0, snd (CanSend True t))
   | SendLow \<Rightarrow> (case CanSend False t of (ok, t') \<Rightarrow> (if ok then 1 else 0, t')))"

fun tp_run :: "int \<Rightarrow> nat \<Rightarrow> tp_action list \<Rightarrow> ThroughputThrottler \<Rightarrow> int \<times> ThroughputThrottler" where
  "tp_run slots calib [] t = (0, t)"
| "tp_run slots calib (a # as) t =
     (case tp_step slots calib a t of (c, t1) \<Rightarrow> case tp_run slots calib as t1 of (cs, t2) \<Rightarrow> (c + cs, t2))"

definition slots_passed :: "tp_action list \<Rightarrow> nat" where
  "slots_passed as = length (filter (\<lambda>a. a = Slot) as)"

text \<open>The tokens one time slot may add: the share of the limit, and at most the configured
  maximum of the tokens the high priority replications left over.\<close>

definition slot_share :: "int \<Rightarrow> ThroughputThrottler \<Rightarrow> int" where
  "slot_share slots t = throughput_limit t div slots + min (high_tokens t div slots) (max_reassignable_tokens_per_slot t)"

text \<open>What every operation keeps: the settings, and the quotas in their ranges.\<close>

definition tp_inv :: "int \<Rightarrow> ThroughputThrottler \<Rightarrow> bool" where
  "tp_inv slots t \<longleftrightarrow> 0 < slots \<and> 0 \<le> throughput_limit t \<and> 0 \<le> throughput_quota t \<and> 0 \<le> high_tokens t \<and>
     0 \<le> max_reassignable_tokens_per_slot t"

lemma tp_step_frame:
  assumes "tp_step slots calib a t = (c, t')"
  shows "throughput_limit t' = throughput_limit t" "high_tokens t' = high_tokens t"
    "max_reassignable_tokens_per_slot t' = max_reassignable_tokens_per_slot t"
  using assms by (auto simp: tp_step_def tp_updateOnce_def clearReassignedTokens_def CanSend_def Let_def split: tp_action.splits if_splits)

lemma tp_updateOnce_simps:
  "throughput_limit (tp_updateOnce slots calib t) = throughput_limit t"
  "throughput_quota (tp_updateOnce slots calib t) =
     (if throughput_limit t = 0 then throughput_quota t
      else min (throughput_limit t) (throughput_quota t + throughput_limit t div slots))"
  "unused_high_tokens (tp_updateOnce slots calib t) = high_tokens t div slots"
  "reassigned_high_tokens (tp_updateOnce slots calib t) =
     (if \<not> needToCalibrate t \<or> updateCount t mod calib \<noteq> 0
      then reassigned_high_tokens t + min (unused_high_tokens t) (max_reassignable_tokens_per_slot t)
      else reassigned_high_tokens t)"
  by (auto simp: tp_updateOnce_def Let_def min_def)

lemma tp_step_account:
  assumes "tp_step slots calib a t = (c, t')" "tp_inv slots t" "0 < throughput_limit t"
    "unused_high_tokens t \<le> high_tokens t div slots"
  shows "tp_inv slots t' \<and> unused_high_tokens t' \<le> high_tokens t' div slots \<and>
    c + throughput_quota t' + max 0 (reassigned_high_tokens t') \<le>
      throughput_quota t + max 0 (reassigned_high_tokens t) + int (slots_passed [a]) * slot_share slots t"
proof -
  have d: "0 \<le> throughput_limit t div slots" "0 \<le> high_tokens t div slots"
    using assms(2) by (auto simp: tp_inv_def pos_imp_zdiv_nonneg_iff)
  show ?thesis
  proof (cases a)
    case Slot
    then have t': "t' = tp_updateOnce slots calib t" "c = 0" using assms(1) by (auto simp: tp_step_def)
    have h: "high_tokens t' = high_tokens t" "max_reassignable_tokens_per_slot t' = max_reassignable_tokens_per_slot t"
      using tp_step_frame[OF assms(1)] by simp_all
    have "min (unused_high_tokens t) (max_reassignable_tokens_per_slot t) \<le> min (high_tokens t div slots) (max_reassignable_tokens_per_slot t)"
      using assms(4) by simp
    moreover have "0 \<le> min (high_tokens t div slots) (max_reassignable_tokens_per_slot t)"
      using assms(2) d by (simp add: tp_inv_def)
    ultimately show ?thesis using assms(2,3) d h unfolding t' tp_inv_def slot_share_def slots_passed_def Slot
      by (auto simp: tp_updateOnce_simps)
  next
    case ClearTokens
    then show ?thesis using assms by (auto simp: tp_step_def clearReassignedTokens_def tp_inv_def slots_passed_def)
  next
    case SendHigh
    then show ?thesis using assms by (auto simp: tp_step_def CanSend_def tp_inv_def slots_passed_def)
  next
    case SendLow
    then show ?thesis using assms by (auto simp: tp_step_def CanSend_def tp_inv_def slots_passed_def split: if_splits)
  qed
qed

lemma tp_run_account:
  assumes "tp_run slots calib as t = (c, t')" "tp_inv slots t" "0 < throughput_limit t"
    "unused_high_tokens t \<le> high_tokens t div slots"
  shows "tp_inv slots t' \<and>
    c + throughput_quota t' + max 0 (reassigned_high_tokens t') \<le>
      throughput_quota t + max 0 (reassigned_high_tokens t) + int (slots_passed as) * slot_share slots t"
  using assms
proof (induction as arbitrary: t c)
  case Nil
  then show ?case by (simp add: slots_passed_def)
next
  case (Cons a as)
  obtain c1 t1 where s: "tp_step slots calib a t = (c1, t1)" by fastforce
  obtain cs where r: "tp_run slots calib as t1 = (cs, t')" "c = c1 + cs" using Cons.prems(1) s by (auto split: prod.splits)
  note st = tp_step_account[OF s Cons.prems(2-4)] and fr = tp_step_frame[OF s]
  have sh: "slot_share slots t1 = slot_share slots t" using fr by (simp add: slot_share_def)
  have "slots_passed (a # as) = slots_passed [a] + slots_passed as" by (simp add: slots_passed_def)
  moreover have "tp_inv slots t' \<and> cs + throughput_quota t' + max 0 (reassigned_high_tokens t') \<le>
      throughput_quota t1 + max 0 (reassigned_high_tokens t1) + int (slots_passed as) * slot_share slots t"
    using Cons.IH[OF r(1)] st Cons.prems(3) fr sh by simp
  ultimately show ?case using st r(2) by (simp add: distrib_right)
qed

text \<open>Every settings call keeps the invariant, whatever its arguments.\<close>

lemma setters_inv:
  assumes "tp_inv slots t"
  shows "tp_inv slots (snd (setHighTokens slots x t))" "tp_inv slots (snd (setMaxReassignableHighTokens slots x t))"
    "tp_inv slots (snd (setLowTokens slots x t))"
  using assms by (simp_all add: tp_inv_def setHighTokens_def setMaxReassignableHighTokens_def setLowTokens_def Let_def
      pos_imp_zdiv_nonneg_iff)

lemma tp_UpdateSettings_inv:
  assumes "tp_inv slots t"
  shows "tp_inv slots (snd (tp_UpdateSettings slots h m l b t))"
proof -
  let ?s1 = "case h of None \<Rightarrow> (None, t) | Some x \<Rightarrow> setHighTokens slots x t"
  let ?s2 = "case m of None \<Rightarrow> (None, snd ?s1) | Some x \<Rightarrow> setMaxReassignableHighTokens slots x (snd ?s1)"
  let ?s3 = "case l of None \<Rightarrow> (None, snd ?s2) | Some x \<Rightarrow> setLowTokens slots x (snd ?s2)"
  have 1: "tp_inv slots (snd ?s1)" using assms setters_inv by (cases h) simp_all
  have 2: "tp_inv slots (snd ?s2)" using setters_inv(2)[OF 1] 1 by (cases m) simp_all
  have 3: "tp_inv slots (snd ?s3)" using setters_inv(3)[OF 2] 2 by (cases l) simp_all
  have "snd (tp_UpdateSettings slots h m l b t) = (case b of None \<Rightarrow> snd ?s3 | Some v \<Rightarrow> (snd ?s3)\<lparr>needToCalibrate := v\<rparr>)"
    by (simp only: tp_UpdateSettings_def Let_def case_prod_unfold fst_conv snd_conv)
  then show ?thesis using 3 by (cases b) (simp_all add: tp_inv_def)
qed


section \<open>Properties of the throttlers\<close>

text \<open>C33. The bytes a pipeline is allowed to send keep to the limit: whatever callers ask, the bytes
  granted since the throttler was attached stay below the share of the time slots that passed,
  the first one included, plus the size of one item, and the quota never exceeds the limit.\<close>

theorem bandwidth_rate_bound:
  assumes "bw_Attach slots (Inr n) lim t0 = (None, t)" "0 < bandwidth_limit t" "0 < slots"
    and "bw_run slots as t = (granted, t')" "\<forall>a\<in>set as. sensible F a" "0 < F"
  shows "bandwidth_limit t = lim * 1024 * 1024 div int n \<and> bandwidth_usage_quota t' \<le> bandwidth_limit t \<and>
    granted < (int (ticks as) + 1) * (bandwidth_limit t div slots) + F"
proof -
  have at: "bandwidth_limit t = lim * 1024 * 1024 div int n" "bandwidth_usage_quota t = bandwidth_limit t div slots"
    using assms(1) by (auto simp: bw_Attach_def setBandwidthLimit_def initBandwidthUsageQuota_def Let_def split: if_splits)
  have "0 \<le> bandwidth_limit t div slots" using assms(2,3) by (simp add: pos_imp_zdiv_nonneg_iff)
  moreover have "bandwidth_limit t div slots \<le> bandwidth_limit t"
  proof (cases "slots = 1")
    case False
    with assms(3) have "1 < slots" by linarith
    with assms(2) have "bandwidth_limit t div slots < bandwidth_limit t" by (rule int_div_less_self)
    then show ?thesis by (rule less_imp_le)
  qed simp
  ultimately have "bandwidth_limit t' = bandwidth_limit t \<and> bandwidth_usage_quota t' \<le> bandwidth_limit t' \<and> - F < bandwidth_usage_quota t' \<and>
      granted + bandwidth_usage_quota t' \<le> bandwidth_usage_quota t + int (ticks as) * (bandwidth_limit t div slots)"
    using assms(6) at(2) by (intro bw_run_account[OF assms(4,5,2,3)]) linarith+
  moreover have "(int (ticks as) + 1) * (bandwidth_limit t div slots) = int (ticks as) * (bandwidth_limit t div slots) + bandwidth_limit t div slots"
    by (simp only: distrib_right mult_1_left)
  ultimately show ?thesis using at by linarith
qed

theorem bandwidth_rate_bound_witness:
  "\<exists>t t'. bw_Attach 10 (Inr 2) 1 \<lparr>number_of_source_nodes = 0, overall_bandwidth_limit = 0, bandwidth_limit = 0, bandwidth_usage_quota = 0\<rparr> = (None, t) \<and>
     bw_run 10 [Ask 60000 20000 1000, Tick, Ask 60000 20000 1000] t = (80000, t') \<and>
     80000 < (int (ticks [Ask 60000 20000 1000, Tick, Ask 60000 20000 1000]) + 1) * (bandwidth_limit t div 10) + 1000"
proof -
  let ?t = "\<lparr>number_of_source_nodes = 2, overall_bandwidth_limit = 1, bandwidth_limit = 524288, bandwidth_usage_quota = 52428\<rparr>"
  let ?as = "[Ask 60000 20000 1000, Tick, Ask 60000 20000 1000]"
  have at: "bw_Attach 10 (Inr 2) 1 \<lparr>number_of_source_nodes = 0, overall_bandwidth_limit = 0, bandwidth_limit = 0, bandwidth_usage_quota = 0\<rparr> = (None, ?t)"
    by (simp add: bw_Attach_def setBandwidthLimit_def initBandwidthUsageQuota_def Let_def)
  have r: "bw_run 10 ?as ?t = (80000, ?t\<lparr>bandwidth_usage_quota := 24856\<rparr>)"
    by (simp add: bw_step_def bw_updateOnce_def Throttle_def Throttle_with_def Let_def)
  have "80000 < (int (ticks ?as) + 1) * (bandwidth_limit ?t div 10) + 1000"
    using bandwidth_rate_bound[OF at _ _ r, of 1000] by (simp add: sensible_def)
  with at r show ?thesis by blast
qed

text \<open>C34. Low priority replications keep to their share: between two points in time with the settings
  unchanged, the mutations they are allowed to send are at most the tokens in hand at the start
  plus, for each time slot that passed, a slot's share of the limit and of the reassignable
  high priority tokens; high priority mutations and clearing tokens do not change this.\<close>

theorem low_priority_rate_bound:
  assumes "tp_inv slots t" "0 < throughput_limit t" "unused_high_tokens t \<le> high_tokens t div slots"
    and "tp_run slots calib as t = (sent, t')"
  shows "sent \<le> throughput_quota t + max 0 (reassigned_high_tokens t) + int (slots_passed as) * slot_share slots t"
  using tp_run_account[OF assms(4,1,2,3)] by (auto simp: tp_inv_def)

theorem low_priority_rate_bound_witness:
  "\<exists>t t'. snd (tp_UpdateSettings 10 (Some 50) (Some 20) (Some 10) None NewThroughputThrottlerSvc) = t \<and>
     tp_run 10 4 [SendLow, Slot, Slot, SendLow, SendLow, SendLow] t = (3, t') \<and>
     3 \<le> throughput_quota t + max 0 (reassigned_high_tokens t) + int (slots_passed [SendLow, Slot, Slot, SendLow, SendLow, SendLow]) * slot_share 10 t"
proof -
  let ?as = "[SendLow, Slot, Slot, SendLow, SendLow, SendLow]"
  let ?t = "\<lparr>throughput_limit = 10, throughput_quota = 0, high_tokens = 50, unused_high_tokens = 5, reassigned_high_tokens = 0,
     max_reassignable_tokens_per_slot = 2, needToCalibrate = True, updateCount = 0, once_done = True\<rparr>"
  have t: "snd (tp_UpdateSettings 10 (Some 50) (Some 20) (Some 10) None NewThroughputThrottlerSvc) = ?t"
    by (simp add: tp_UpdateSettings_def setHighTokens_def setMaxReassignableHighTokens_def setLowTokens_def
        NewThroughputThrottlerSvc_def Let_def)
  have "fst (tp_run 10 4 ?as ?t) = 3"
    by (simp add: tp_step_def CanSend_def tp_updateOnce_def Let_def)
  then obtain t' where r: "tp_run 10 4 ?as ?t = (3, t')" by (metis prod.collapse)
  have "3 \<le> throughput_quota ?t + max 0 (reassigned_high_tokens ?t) + int (slots_passed ?as) * slot_share 10 ?t"
    by (rule low_priority_rate_bound[OF _ _ _ r]) (simp_all add: tp_inv_def)
  with t r show ?thesis by blast
qed

end
