(* ===== verification/Router_Throttling.thy ===== *)
theory Router_Throttling
  imports Router Throttlers
begin

text \<open>
  The router's throttling loop (\<open>parts/router.go\<close>) run against the throughput
  throttler (\<open>service_impl/throughput_throttler_service.go\<close>): the contract under
  which the loop ends, and the settings for which it does not.
\<close>


section \<open>The contract of a throttling service\<close>

text \<open>A service is fair in the states \<open>ready\<close> when a refusal keeps the state ready and a mutation is
  let through after a wait.\<close>

locale fair_throttler =
  fixes svc :: "'s throttler_svc" and ready :: "'s \<Rightarrow> bool"
  assumes refuse_ready: "ready s \<Longrightarrow> svc_CanSend svc high s = (False, s') \<Longrightarrow> ready s'"
    and wait_sends: "ready s \<Longrightarrow> fst (svc_CanSend svc high (svc_Wait svc s))"
begin

lemma throttle_loop_ends:
  assumes "ready s"
  shows "\<exists>s'. throttle_loop svc high s = Some s'"
proof -
  obtain ok s1 where c: "svc_CanSend svc high s = (ok, s1)" by fastforce
  show ?thesis
  proof (cases ok)
    case True
    with c show ?thesis by (subst throttle_loop.simps) simp
  next
    case False
    with c have "ready s1" by (intro refuse_ready[OF assms]) simp
    then obtain s2 where "svc_CanSend svc high (svc_Wait svc s1) = (True, s2)"
      using wait_sends by (metis prod.collapse)
    then have "throttle_loop svc high (svc_Wait svc s1) = Some s2" by (subst throttle_loop.simps) simp
    with c False show ?thesis by (subst throttle_loop.simps) simp
  qed
qed

lemma throttle_ends:
  assumes "ready s"
  shows "\<exists>s' evs. throttle svc router s = Some (s', evs) \<and>
    evs = (if fst (svc_CanSend svc (isHighReplication router) s) then [] else [DataThroughputThrottled])"
proof -
  obtain ok s1 where c: "svc_CanSend svc (isHighReplication router) s = (ok, s1)" by fastforce
  show ?thesis
  proof (cases ok)
    case True
    with c show ?thesis by (simp add: throttle_def)
  next
    case False
    with c have "ready s1" by (intro refuse_ready[OF assms]) simp
    then obtain s2 where "throttle_loop svc (isHighReplication router) s1 = Some s2" using throttle_loop_ends by blast
    with c False show ?thesis by (simp add: throttle_def)
  qed
qed

end


section \<open>The throughput throttler as the service\<close>

text \<open>While a caller waits, other replications may ask for tokens and tokens may be cleared; the wait
  ends with the broadcast of the next time slot.  \<open>others\<close> is what happens in between.\<close>

definition tp_svc :: "int \<Rightarrow> nat \<Rightarrow> (ThroughputThrottler \<Rightarrow> tp_action list) \<Rightarrow> ThroughputThrottler throttler_svc" where
  "tp_svc slots calib others = \<lparr>svc_CanSend = CanSend, svc_Wait = (\<lambda>t. tp_updateOnce slots calib (snd (tp_run slots calib (others t) t)))\<rparr>"

definition tp_ready :: "int \<Rightarrow> ThroughputThrottler \<Rightarrow> bool" where
  "tp_ready slots t \<longleftrightarrow> tp_inv slots t \<and> (throughput_limit t = 0 \<or> slots \<le> throughput_limit t)"

lemma tp_ready_step:
  assumes "tp_ready slots t" "tp_step slots calib a t = (c, t')"
  shows "tp_ready slots t'"
proof -
  note fr = tp_step_frame[OF assms(2)]
  have d: "0 \<le> throughput_limit t div slots" using assms(1) by (simp add: tp_ready_def tp_inv_def pos_imp_zdiv_nonneg_iff)
  have "0 \<le> throughput_quota t'"
    using assms d by (cases a) (auto simp: tp_ready_def tp_inv_def tp_step_def tp_updateOnce_simps clearReassignedTokens_def CanSend_def split: if_splits)
  then show ?thesis using assms(1) fr by (simp add: tp_ready_def tp_inv_def)
qed

lemma tp_ready_run: "tp_ready slots t \<Longrightarrow> tp_ready slots (snd (tp_run slots calib as t))"
proof (induction as arbitrary: t)
  case (Cons a as)
  obtain c t1 where s: "tp_step slots calib a t = (c, t1)" by fastforce
  from Cons.IH[OF tp_ready_step[OF Cons.prems s]] s show ?case by (simp add: case_prod_unfold)
qed simp

lemma CanSend_ready: "tp_ready slots t \<Longrightarrow> CanSend high t = (ok, t') \<Longrightarrow> tp_ready slots t'"
  by (auto simp: CanSend_def tp_ready_def tp_inv_def split: if_splits)

lemma slot_lets_through:
  assumes "tp_ready slots t"
  shows "fst (CanSend high (tp_updateOnce slots calib t))"
proof -
  have "0 < throughput_quota (tp_updateOnce slots calib t)" if "slots \<le> throughput_limit t" "0 < throughput_limit t"
  proof -
    have "0 < throughput_limit t div slots" using assms that by (simp add: tp_ready_def tp_inv_def pos_imp_zdiv_pos_iff)
    then show ?thesis using assms that by (simp add: tp_ready_def tp_inv_def tp_updateOnce_simps)
  qed
  then show ?thesis using assms by (auto simp: CanSend_def tp_ready_def tp_inv_def tp_updateOnce_simps)
qed

interpretation tp: fair_throttler "tp_svc slots calib others" "tp_ready slots" for slots calib others
  by unfold_locales (auto simp: tp_svc_def CanSend_ready slot_lets_through tp_ready_run)


section \<open>When the limit is below one mutation per slot\<close>

definition starved :: "int \<Rightarrow> ThroughputThrottler \<Rightarrow> bool" where
  "starved slots t \<longleftrightarrow> 0 < throughput_limit t \<and> throughput_limit t < slots \<and> throughput_quota t = 0 \<and>
     high_tokens t < slots \<and> 0 \<le> high_tokens t \<and> unused_high_tokens t \<le> 0 \<and> reassigned_high_tokens t \<le> 0"

lemma starved_refused: "starved slots t \<Longrightarrow> CanSend False t = (False, t)"
  by (simp add: starved_def CanSend_def)

lemma starved_slot: "starved slots t \<Longrightarrow> starved slots (tp_updateOnce slots calib t)"
proof -
  assume s: "starved slots t"
  then have "throughput_limit t div slots = 0" "high_tokens t div slots = 0" by (auto simp: starved_def)
  moreover have "high_tokens (tp_updateOnce slots calib t) = high_tokens t" by (simp add: tp_updateOnce_def Let_def)
  ultimately show ?thesis using s by (auto simp: starved_def tp_updateOnce_simps)
qed

lemma starved_loop:
  assumes "starved slots t"
  shows "throttle_loop (tp_svc slots calib (\<lambda>_. [])) False t = None"
proof (rule ccontr)
  assume "throttle_loop (tp_svc slots calib (\<lambda>_. [])) False t \<noteq> None"
  then obtain t' where "throttle_loop (tp_svc slots calib (\<lambda>_. [])) False t = Some t'" by blast
  then have "tp_svc slots calib (\<lambda>_. []) = tp_svc slots calib (\<lambda>_. []) \<longrightarrow> False = False \<longrightarrow> \<not> starved slots t"
    by (rule throttle_loop.raw_induct[where P = "\<lambda>svc high s _. svc = tp_svc slots calib (\<lambda>_. []) \<longrightarrow> high = False \<longrightarrow> \<not> starved slots s", rotated])
      (use starved_slot in \<open>fastforce simp: tp_svc_def starved_refused split: prod.splits if_splits\<close>)
  with assms show False by blast
qed


section \<open>Properties of throttling\<close>





end
