(* ===== verification/Xmem_Buffer.thy ===== *)
theory Xmem_Buffer
  imports Conflict_Resolution
begin

text \<open>
  The buffer of requests that have been sent and not yet acknowledged, struct
  \<open>requestBuffer\<close> of \<open>parts/xmem_nozzle.go\<close>.

  Every operation on a slot holds the slot's lock, so the operations are atomic
  state transformers.  An operation that waits on an empty or full channel
  \<open>Blocks\<close>; a run-time panic \<open>Panics\<close>.  The token channel of the nozzle is the
  number of tokens in it and its capacity.
\<close>

datatype 'a outcome = Done 'a | Blocks | Panics


section \<open>Slots\<close>

record bufferedMCRequest =
  br_req :: "WrappedMCRequest option"
  sent_time :: "int option"
  num_of_retry :: int
  timedout :: bool
  reservation :: int

definition UninitializedReseverationNumber :: int where
  "UninitializedReseverationNumber = -1"

definition newBufferedMCRequest :: bufferedMCRequest where
  "newBufferedMCRequest = \<lparr>br_req = None, sent_time = None, num_of_retry = 0, timedout = False,
     reservation = UninitializedReseverationNumber\<rparr>"

definition resetBufferedMCRequest :: "bufferedMCRequest \<Rightarrow> bufferedMCRequest" where
  "resetBufferedMCRequest request = request\<lparr>br_req := None, sent_time := None, num_of_retry := 0, timedout := False,
     reservation := UninitializedReseverationNumber\<rparr>"

record requestBuffer =
  slots :: "bufferedMCRequest list"
  sequences :: "uint16 list"
  empty_slots_pos :: "uint16 list"
  occupied_count :: "32 word"
  size_of :: uint16
  notifych :: "bool option"
  notify_threshold :: uint16
  fin_closed :: bool
  tokens :: nat
  token_cap :: nat

text \<open>
  A notify channel is \<open>Some b\<close>, \<open>b\<close> telling whether the notification is in it.
\<close>

fun init_slots :: "nat \<Rightarrow> nat \<Rightarrow> requestBuffer \<Rightarrow> requestBuffer" where
  "init_slots 0 i buf = buf"
| "init_slots (Suc n) i buf =
     init_slots n (Suc i) (buf\<lparr>slots := (slots buf)[i := newBufferedMCRequest],
       empty_slots_pos := empty_slots_pos buf @ [word_of_nat i], sequences := (sequences buf)[i := 0]\<rparr>)"

definition buf_initialize :: "requestBuffer \<Rightarrow> requestBuffer" where
  "buf_initialize buf = init_slots (unat (size_of buf)) 0 buf"

text \<open>
  A new slice of pointers holds nil pointers; \<open>buf_initialize\<close> overwrites every one
  of them, so the placeholder below is never read.
\<close>

definition newReqBuffer :: "uint16 \<Rightarrow> uint16 \<Rightarrow> nat \<Rightarrow> nat \<Rightarrow> requestBuffer" where
  "newReqBuffer sz threshold toks cap = buf_initialize
     \<lparr>slots = replicate (unat sz) newBufferedMCRequest, sequences = replicate (unat sz) 0, empty_slots_pos = [],
      occupied_count = 0, size_of = sz, notifych = None, notify_threshold = threshold, fin_closed = False,
      tokens = toks, token_cap = cap\<rparr>"

definition buf_close :: "requestBuffer \<Rightarrow> requestBuffer outcome" where
  "buf_close buf = (if fin_closed buf then Panics else Done (buf\<lparr>fin_closed := True\<rparr>))"

definition setNotifyThreshold :: "uint16 \<Rightarrow> requestBuffer \<Rightarrow> requestBuffer" where
  "setNotifyThreshold threshold buf = buf\<lparr>notify_threshold := threshold\<rparr>"

definition setNotifyCh :: "requestBuffer \<Rightarrow> requestBuffer" where
  "setNotifyCh buf = buf\<lparr>notifych := Some False\<rparr>"

definition unsetNotifyCh :: "requestBuffer \<Rightarrow> requestBuffer" where
  "unsetNotifyCh buf = buf\<lparr>notifych := None\<rparr>"

definition itemCountInBuffer :: "requestBuffer \<Rightarrow> uint16" where
  "itemCountInBuffer buf = ucast (occupied_count buf)"

text \<open>
  Flow control in two parts: the check, and the wait of a sender that was not let
  through at once.
\<close>

definition flowControl_begin :: "requestBuffer \<Rightarrow> requestBuffer \<times> bool" where
  "flowControl_begin buf =
     (let buf1 = setNotifyCh buf in (buf1, itemCountInBuffer buf1 \<le> notify_threshold buf1))"

definition flowControl_wait :: "requestBuffer \<Rightarrow> requestBuffer outcome" where
  "flowControl_wait buf =
     (if notifych buf = Some True \<or> fin_closed buf then Done (unsetNotifyCh buf) else Blocks)"

definition validatePos :: "requestBuffer \<Rightarrow> uint16 \<Rightarrow> goerror option" where
  "validatePos buf pos = (if pos \<ge> size_of buf then Some (Formatted ''Invalid slot index'') else None)"

definition buf_slot :: "requestBuffer \<Rightarrow> uint16 \<Rightarrow> goerror + WrappedMCRequest option" where
  "buf_slot buf pos =
     (case validatePos buf pos of Some e \<Rightarrow> Inl e | None \<Rightarrow> Inr (br_req (slots buf ! unat pos)))"

definition slotWithSentTime :: "requestBuffer \<Rightarrow> uint16 \<Rightarrow> goerror + (WrappedMCRequest option \<times> int option)" where
  "slotWithSentTime buf pos =
     (case validatePos buf pos of Some e \<Rightarrow> Inl e
      | None \<Rightarrow> Inr (br_req (slots buf ! unat pos), sent_time (slots buf ! unat pos)))"

definition modSlot ::
  "(uint16 \<Rightarrow> requestBuffer \<Rightarrow> (bool \<times> goerror option) \<times> requestBuffer) \<Rightarrow> uint16 \<Rightarrow> requestBuffer \<Rightarrow>
     (bool \<times> goerror option) \<times> requestBuffer" where
  "modSlot modFunc pos buf =
     (case validatePos buf pos of Some e \<Rightarrow> ((False, Some e), buf) | None \<Rightarrow> modFunc pos buf)"

text \<open>
  Clearing a slot.  The sequence number is compared with 65535 after a 16-bit
  addition, so the first branch is never taken and the addition wraps.
\<close>

definition notify :: "requestBuffer \<Rightarrow> requestBuffer" where
  "notify buf =
     (if itemCountInBuffer buf \<le> notify_threshold buf
      then buf\<lparr>notifych := map_option (\<lambda>_. True) (notifych buf)\<rparr> else buf)"

definition clearSlot :: "uint16 \<Rightarrow> int \<Rightarrow> requestBuffer \<Rightarrow> (goerror option \<times> requestBuffer) outcome" where
  "clearSlot pos reservation_num buf =
     (case validatePos buf pos of
        Some e \<Rightarrow> Done (Some e, buf)
      | None \<Rightarrow>
          let i = unat pos; req = slots buf ! i in
          if br_req req = None then Done (None, buf)
          else if reservation_num \<ge> 0 \<and> reservation req \<noteq> reservation_num
               then Done (Some (Formatted ''Clear slot failed, reservation number doesn't match''), buf)
          else if length (empty_slots_pos buf) \<ge> unat (size_of buf) \<or> tokens buf = 0 then Blocks
          else
            let sq = sequences buf ! i;
                buf1 = buf\<lparr>slots := (slots buf)[i := resetBufferedMCRequest req],
                          empty_slots_pos := empty_slots_pos buf @ [pos],
                          occupied_count := occupied_count buf - 1,
                          tokens := tokens buf - 1,
                          sequences := (sequences buf)[i := if sq + 1 > 65535 then 0 else sq + 1]\<rparr>
            in Done (None, notify buf1))"

definition evictSlot :: "uint16 \<Rightarrow> requestBuffer \<Rightarrow> (goerror option \<times> requestBuffer) outcome" where
  "evictSlot pos buf = clearSlot pos (-1) buf"

definition cancelReservation :: "uint16 \<Rightarrow> int \<Rightarrow> requestBuffer \<Rightarrow> (goerror option \<times> requestBuffer) outcome" where
  "cancelReservation index reservation_num buf = clearSlot index reservation_num buf"

definition adjustRequest :: "WrappedMCRequest \<Rightarrow> uint16 \<Rightarrow> requestBuffer \<Rightarrow> WrappedMCRequest" where
  "adjustRequest req index buf =
     req\<lparr>Req := (Req req)\<lparr>Opcode := encodeOpCode (Opcode (Req req)), Cas := 0,
           Opaque := getOpaque index (sequences buf ! unat index)\<rparr>\<rparr>"

text \<open>
  Taking a slot for a request; \<open>rnd\<close> is the random reservation number and \<open>now\<close> the
  time.  The result is the slot, the reservation and the request as it goes on the
  wire.
\<close>

definition enSlot ::
  "WrappedMCRequest \<Rightarrow> int \<Rightarrow> int \<Rightarrow> requestBuffer \<Rightarrow> ((uint16 \<times> int \<times> WrappedMCRequest) \<times> requestBuffer) outcome" where
  "enSlot mcreq rnd now buf =
     (case empty_slots_pos buf of
        [] \<Rightarrow> Blocks
      | index # rest \<Rightarrow>
          let req = slots buf ! unat index in
          if unat index \<ge> length (slots buf) then Panics
          else if br_req req \<noteq> None \<or> reservation req \<noteq> UninitializedReseverationNumber then Panics
          else if tokens buf \<ge> token_cap buf then Blocks
          else
            let mcreq' = adjustRequest mcreq index buf in
            Done ((index, rnd, mcreq'),
                  buf\<lparr>empty_slots_pos := rest,
                      slots := (slots buf)[unat index := req\<lparr>reservation := rnd, br_req := Some mcreq', sent_time := Some now\<rparr>],
                      tokens := tokens buf + 1,
                      occupied_count := occupied_count buf + 1\<rparr>))"

definition getPosFromOpaque :: "uint32 \<Rightarrow> uint16" where
  "getPosFromOpaque opaque = ucast (0x0000FFFF AND opaque)"

definition bufferSize :: "requestBuffer \<Rightarrow> uint16" where
  "bufferSize buf = size_of buf"


section \<open>The invariant\<close>

definition occupied :: "requestBuffer \<Rightarrow> nat set" where
  "occupied buf = {i. i < length (slots buf) \<and> br_req (slots buf ! i) \<noteq> None}"

text \<open>
  The empty positions are exactly the free slots; the counter and the tokens
  count the occupied ones; a free slot is in its initial state; the opaque of a
  buffered request encodes its slot and the slot's sequence number.
\<close>

definition rb_inv :: "requestBuffer \<Rightarrow> bool" where
  "rb_inv buf \<longleftrightarrow>
     length (slots buf) = unat (size_of buf) \<and> length (sequences buf) = unat (size_of buf) \<and>
     distinct (empty_slots_pos buf) \<and>
     (\<forall>p. p \<in> set (empty_slots_pos buf) \<longleftrightarrow> p < size_of buf \<and> br_req (slots buf ! unat p) = None) \<and>
     occupied_count buf = word_of_nat (card (occupied buf)) \<and> tokens buf = card (occupied buf) \<and>
     token_cap buf = unat (size_of buf) \<and>
     (\<forall>i < length (slots buf). br_req (slots buf ! i) = None \<longrightarrow> slots buf ! i = newBufferedMCRequest) \<and>
     (\<forall>i < length (slots buf). \<forall>r. br_req (slots buf ! i) = Some r \<longrightarrow>
        Opaque (Req r) = getOpaque (word_of_nat i) (sequences buf ! i) \<and> sent_time (slots buf ! i) \<noteq> None)"

lemma finite_occupied [simp]: "finite (occupied buf)"
  by (simp add: occupied_def)

lemma rb_invD:
  assumes "rb_inv buf"
  shows "length (slots buf) = unat (size_of buf)" "length (sequences buf) = unat (size_of buf)"
    "distinct (empty_slots_pos buf)"
    "\<And>p. p \<in> set (empty_slots_pos buf) \<longleftrightarrow> p < size_of buf \<and> br_req (slots buf ! unat p) = None"
    "occupied_count buf = word_of_nat (card (occupied buf))" "tokens buf = card (occupied buf)"
    "token_cap buf = unat (size_of buf)"
    "\<And>i. i < length (slots buf) \<Longrightarrow> br_req (slots buf ! i) = None \<Longrightarrow> slots buf ! i = newBufferedMCRequest"
    "\<And>i r. i < length (slots buf) \<Longrightarrow> br_req (slots buf ! i) = Some r \<Longrightarrow>
        Opaque (Req r) = getOpaque (word_of_nat i) (sequences buf ! i) \<and> sent_time (slots buf ! i) \<noteq> None"
  using assms unfolding rb_inv_def by blast+

lemma card_occupied_le: "card (occupied buf) \<le> length (slots buf)"
  using card_mono[of "{..<length (slots buf)}" "occupied buf"] by (auto simp: occupied_def)

lemma occupied_update:
  assumes "i < length (slots buf)" "slots buf' = (slots buf)[i := x]"
  shows "occupied buf' = (if br_req x = None then occupied buf - {i} else insert i (occupied buf))"
  using assms by (auto simp: occupied_def nth_list_update)

lemma init_slots_spec:
  "i + n = unat (size_of buf) \<Longrightarrow> length (slots buf) = unat (size_of buf) \<Longrightarrow> length (sequences buf) = unat (size_of buf) \<Longrightarrow>
   init_slots n i buf = buf\<lparr>slots := take i (slots buf) @ replicate n newBufferedMCRequest,
     empty_slots_pos := empty_slots_pos buf @ map word_of_nat [i..<i + n], sequences := take i (sequences buf) @ replicate n 0\<rparr>"
proof (induction n i buf rule: init_slots.induct)
  case (2 n i buf)
  have sl: "take (Suc i) ((slots buf)[i := newBufferedMCRequest]) = take i (slots buf) @ [newBufferedMCRequest]"
    "take (Suc i) ((sequences buf)[i := 0]) = take i (sequences buf) @ [0]"
    using 2(2-4) by (simp_all add: take_Suc_conv_app_nth)
  have "map word_of_nat [i..<i + Suc n] = (word_of_nat i :: uint16) # map word_of_nat [Suc i..<Suc i + n]"
    by (simp add: upt_conv_Cons del: upt_Suc)
  with 2 sl show ?case by (simp add: replicate_app_Cons_same del: upt_Suc)
qed simp

lemma newReqBuffer_inv:
  "rb_inv (newReqBuffer sz threshold 0 (unat sz))"
proof -
  have bound: "i < 65536" if "i < unat sz" for i
  proof -
    have "unat sz < 2 ^ 16" using unsigned_less[of sz] by simp
    with that show ?thesis by simp
  qed
  have eq: "newReqBuffer sz threshold 0 (unat sz) =
     \<lparr>slots = replicate (unat sz) newBufferedMCRequest, sequences = replicate (unat sz) 0,
      empty_slots_pos = map word_of_nat [0..<unat sz], occupied_count = 0, size_of = sz, notifych = None,
      notify_threshold = threshold, fin_closed = False, tokens = 0, token_cap = unat sz\<rparr>"
    by (simp add: newReqBuffer_def buf_initialize_def init_slots_spec)
  have inj: "inj_on (word_of_nat :: nat \<Rightarrow> uint16) {0..<unat sz}"
    by (intro inj_onI) (use bound in \<open>auto simp: word_of_nat_inj\<close>)
  have mem: "p \<in> word_of_nat ` {0..<unat sz} \<longleftrightarrow> p < sz" for p :: uint16
  proof
    assume "p < sz"
    then have "unat p \<in> {0..<unat sz}" by (simp add: word_less_nat_alt)
    then show "p \<in> word_of_nat ` {0..<unat sz}" using imageI[of "unat p" "{0..<unat sz}" "word_of_nat :: nat \<Rightarrow> uint16"] by simp
  qed (use bound in \<open>auto simp: word_less_nat_alt unat_of_nat\<close>)
  have occ: "occupied (newReqBuffer sz threshold 0 (unat sz)) = {}"
    by (auto simp: eq occupied_def newBufferedMCRequest_def)
  show ?thesis
    unfolding rb_inv_def occ unfolding eq
    using inj mem by (auto simp: distinct_map word_less_nat_alt newBufferedMCRequest_def)
qed

text \<open>What is in flight, by slot.\<close>

definition inflight :: "requestBuffer \<Rightarrow> uint16 \<rightharpoonup> WrappedMCRequest" where
  "inflight buf p = (if p < size_of buf then br_req (slots buf ! unat p) else None)"

lemma nth_update_word:
  fixes i p :: "'a::len word"
  shows "unat i < length xs \<Longrightarrow> xs[unat i := x] ! unat p = (if p = i then x else xs ! unat p)"
  by (cases "p = i") (auto simp: word_unat_eq_iff)

lemma enSlot_correct:
  assumes inv: "rb_inv buf" and ne: "empty_slots_pos buf \<noteq> []"
  shows "\<exists>index buf'. enSlot r rnd now buf = Done ((index, rnd, adjustRequest r index buf), buf') \<and>
     inflight buf index = None \<and> inflight buf' = (inflight buf)(index \<mapsto> adjustRequest r index buf) \<and>
     sequences buf' = sequences buf \<and> notifych buf' = notifych buf \<and> rb_inv buf'"
proof -
  note D = rb_invD[OF inv]
  obtain index rest where e: "empty_slots_pos buf = index # rest" using ne by (cases "empty_slots_pos buf") auto
  let ?i = "unat index" and ?r = "adjustRequest r index buf"
  have ix: "index < size_of buf" "br_req (slots buf ! ?i) = None" using D(4)[of index] e by auto
  then have i: "?i < length (slots buf)" using D(1) by (simp add: word_less_nat_alt)
  have free: "slots buf ! ?i = newBufferedMCRequest" using D(8)[OF i ix(2)] .
  have nocc: "?i \<notin> occupied buf" using ix by (simp add: occupied_def)
  have lt: "card (occupied buf) < length (slots buf)"
  proof -
    have "occupied buf \<subseteq> {..<length (slots buf)}" by (auto simp: occupied_def)
    moreover have "occupied buf \<noteq> {..<length (slots buf)}" using nocc i by blast
    ultimately have "occupied buf \<subset> {..<length (slots buf)}" by blast
    then show ?thesis using psubset_card_mono[of "{..<length (slots buf)}"] by simp
  qed
  define x where "x = (slots buf ! ?i)\<lparr>reservation := rnd, br_req := Some ?r, sent_time := Some now\<rparr>"
  define buf' where "buf' = buf\<lparr>empty_slots_pos := rest, slots := (slots buf)[?i := x],
                      tokens := tokens buf + 1, occupied_count := occupied_count buf + 1\<rparr>"
  have run: "enSlot r rnd now buf = Done ((index, rnd, ?r), buf')"
    using e i ix free lt D(1,6,7)
    by (simp add: enSlot_def Let_def buf'_def x_def newBufferedMCRequest_def)
  have sl: "slots buf' = (slots buf)[?i := x]" "br_req x = Some ?r" by (simp_all add: buf'_def x_def)
  have cnt: "occupied_count buf' = occupied_count buf + 1" "tokens buf' = tokens buf + 1" by (simp_all add: buf'_def)
  have occ: "occupied buf' = insert ?i (occupied buf)" using occupied_update[OF i sl(1)] sl(2) by simp
  have view: "inflight buf' = (inflight buf)(index \<mapsto> ?r)"
    using i ix by (auto simp: inflight_def buf'_def x_def fun_eq_iff nth_update_word)
  have inv': "rb_inv buf'"
    unfolding rb_inv_def
  proof (intro conjI allI impI)
    show "p \<in> set (empty_slots_pos buf') \<longleftrightarrow> p < size_of buf' \<and> br_req (slots buf' ! unat p) = None" for p
      using D(3) D(4)[of p] e i by (auto simp: buf'_def x_def nth_update_word)
    show "occupied_count buf' = word_of_nat (card (occupied buf'))" "tokens buf' = card (occupied buf')"
      using D(5,6) nocc unfolding occ cnt by simp_all
    show "slots buf' ! j = newBufferedMCRequest" if "j < length (slots buf')" "br_req (slots buf' ! j) = None" for j
      using that i D(8)[of j] by (auto simp: buf'_def x_def nth_list_update split: if_splits)
    show "Opaque (Req q) = getOpaque (word_of_nat j) (sequences buf' ! j)" "sent_time (slots buf' ! j) \<noteq> None"
      if "j < length (slots buf')" "br_req (slots buf' ! j) = Some q" for j q
      using that i D(9)[of j q] by (auto simp: buf'_def x_def nth_list_update adjustRequest_def split: if_splits)
  qed (use D(1,2,3,7) e in \<open>simp_all add: buf'_def\<close>)
  show ?thesis using run view inv' ix by (auto simp: inflight_def buf'_def)
qed

lemma notify_frame [simp]:
  "slots (notify buf) = slots buf" "sequences (notify buf) = sequences buf" "empty_slots_pos (notify buf) = empty_slots_pos buf"
  "size_of (notify buf) = size_of buf" "occupied_count (notify buf) = occupied_count buf" "tokens (notify buf) = tokens buf"
  "token_cap (notify buf) = token_cap buf" "notify_threshold (notify buf) = notify_threshold buf"
  by (simp_all add: notify_def)

lemma seq_never_large: "\<not> (sq + 1 > (65535 :: uint16))"
  using unsigned_less[of "sq + 1", where ?'a = nat] by (simp add: word_less_nat_alt not_less)

lemma reset_eq_new: "resetBufferedMCRequest x = newBufferedMCRequest"
  by (cases x) (simp add: resetBufferedMCRequest_def newBufferedMCRequest_def)

lemma length_less_words:
  fixes n p :: "'a::len word"
  assumes "distinct ps" "\<forall>q\<in>set ps. q < n" "p \<notin> set ps" "p < n"
  shows "length ps < unat n"
proof -
  have inj: "inj_on unat (set ps)" by (intro inj_onI) (simp add: word_unat_eq_iff)
  have "unat ` set ps \<subseteq> {..<unat n} - {unat p}"
    using assms(2,3) by (auto simp: word_less_nat_alt dest!: word_unat_eq_iff[THEN iffD2])
  then have "card (unat ` set ps) \<le> card ({..<unat n} - {unat p})" by (intro card_mono) auto
  then have "length ps \<le> unat n - 1"
    using assms(1,4) by (simp add: card_image[OF inj] distinct_card word_less_nat_alt)
  moreover have "0 < unat n" using assms(4) by (simp add: word_less_nat_alt)
  ultimately show ?thesis by simp
qed

lemma itemCount_eq:
  assumes "rb_inv buf"
  shows "itemCountInBuffer buf = word_of_nat (card (occupied buf))"
  using rb_invD(5)[OF assms] by (simp add: itemCountInBuffer_def unsigned_of_nat word_of_nat_eq_iff)

text \<open>
  Clearing an occupied slot frees it, whatever the reservation, if the check is
  skipped or matches; the slot's sequence number advances.
\<close>

lemma clearSlot_correct:
  assumes inv: "rb_inv buf" and pos: "pos < size_of buf" "inflight buf pos \<noteq> None"
    and res: "n < 0 \<or> reservation (slots buf ! unat pos) = n"
  shows "\<exists>buf'. clearSlot pos n buf = Done (None, buf') \<and> inflight buf' = (inflight buf)(pos := None) \<and>
     sequences buf' = (sequences buf)[unat pos := sequences buf ! unat pos + 1] \<and>
     notifych buf' = (if word_of_nat (card (occupied buf')) \<le> notify_threshold buf
                      then map_option (\<lambda>_. True) (notifych buf) else notifych buf) \<and>
     rb_inv buf'"
proof -
  note D = rb_invD[OF inv]
  let ?i = "unat pos"
  have occ0: "br_req (slots buf ! ?i) \<noteq> None" using pos by (simp add: inflight_def)
  have i: "?i < length (slots buf)" using D(1) pos by (simp add: word_less_nat_alt)
  have iocc: "?i \<in> occupied buf" using i occ0 by (simp add: occupied_def)
  then have pos_card: "card (occupied buf) > 0" by (metis card_gt_0_iff empty_iff finite_occupied)
  have pin: "pos \<notin> set (empty_slots_pos buf)" using D(4)[of pos] occ0 by simp
  have room: "length (empty_slots_pos buf) < unat (size_of buf)"
    by (rule length_less_words[OF D(3) _ pin pos(1)]) (use D(4) in blast)
  define buf1 where "buf1 = buf\<lparr>slots := (slots buf)[?i := resetBufferedMCRequest (slots buf ! ?i)],
      empty_slots_pos := empty_slots_pos buf @ [pos], occupied_count := occupied_count buf - 1, tokens := tokens buf - 1,
      sequences := (sequences buf)[?i := sequences buf ! ?i + 1]\<rparr>"
  have run: "clearSlot pos n buf = Done (None, notify buf1)"
    using pos occ0 res room pos_card D(6) seq_never_large[of "sequences buf ! ?i"]
    by (auto simp: clearSlot_def validatePos_def Let_def buf1_def)
  have sl: "slots buf1 = (slots buf)[?i := newBufferedMCRequest]"
    by (simp add: buf1_def reset_eq_new)
  have cnt: "occupied_count buf1 = occupied_count buf - 1" "tokens buf1 = tokens buf - 1" by (simp_all add: buf1_def)
  have occ: "occupied buf1 = occupied buf - {?i}"
    using occupied_update[OF i sl] by (simp add: newBufferedMCRequest_def)
  have card: "card (occupied buf) = Suc (card (occupied buf1))" using iocc pos_card by (simp add: occ)
  have view: "inflight buf1 = (inflight buf)(pos := None)"
    using i pos by (auto simp: inflight_def sl nth_update_word newBufferedMCRequest_def fun_eq_iff) (simp add: buf1_def)+
  have inv1: "rb_inv buf1"
    unfolding rb_inv_def
  proof (intro conjI allI impI)
    show "p \<in> set (empty_slots_pos buf1) \<longleftrightarrow> p < size_of buf1 \<and> br_req (slots buf1 ! unat p) = None" for p
      using D(4)[of p] i pos by (auto simp: sl nth_update_word newBufferedMCRequest_def) (auto simp: buf1_def)
    show "occupied_count buf1 = word_of_nat (card (occupied buf1))" "tokens buf1 = card (occupied buf1)"
      using D(5,6) card unfolding cnt by simp_all
    show "slots buf1 ! j = newBufferedMCRequest" if "j < length (slots buf1)" "br_req (slots buf1 ! j) = None" for j
      using that i D(8)[of j] by (auto simp: sl nth_list_update split: if_splits)
    show "Opaque (Req q) = getOpaque (word_of_nat j) (sequences buf1 ! j)" "sent_time (slots buf1 ! j) \<noteq> None"
      if "j < length (slots buf1)" "br_req (slots buf1 ! j) = Some q" for j q
      using that i D(9)[of j q] by (auto simp: buf1_def nth_list_update resetBufferedMCRequest_def split: if_splits)
  qed (use D(1,2,3,7) pin in \<open>simp_all add: buf1_def\<close>)
  note ic = itemCount_eq[OF inv1]
  have "rb_inv (notify buf1)" "occupied (notify buf1) = occupied buf1" "inflight (notify buf1) = inflight buf1"
    using inv1 by (simp_all add: rb_inv_def occupied_def inflight_def fun_eq_iff)
  moreover have "notifych (notify buf1) = (if word_of_nat (card (occupied buf1)) \<le> notify_threshold buf
                      then map_option (\<lambda>_. True) (notifych buf) else notifych buf)"
    unfolding notify_def ic by (simp add: buf1_def)
  ultimately show ?thesis using run view by (auto simp: buf1_def)
qed

text \<open>The two halves of an opaque.\<close>

lemma unat_getOpaque: "unat (getOpaque i sq) = unat sq * 65536 + unat i"
proof -
  have b: "unat i < 65536" "unat sq < 65536"
    using unsigned_less[of i, where ?'a = nat] unsigned_less[of sq, where ?'a = nat] by simp_all
  have u: "unat (ucast i :: uint32) = unat i" "unat (ucast sq :: uint32) = unat sq"
    using b by (simp_all add: unsigned_ucast_eq take_bit_eq_mod)
  have p: "unat (push_bit 16 (ucast sq :: uint32)) = unat sq * 65536"
    using b u(2) by (simp add: push_bit_eq_mult unat_word_ariths)
  have "unat sq * 65536 + unat i < 2 ^ 32" using b by simp
  then show ?thesis unfolding getOpaque_def using p u(1) by (simp add: unat_word_ariths)
qed

lemma getPosFromOpaque_getOpaque [simp]: "getPosFromOpaque (getOpaque i sq) = i"
proof -
  have b: "unat i < 65536" using unsigned_less[of i, where ?'a = nat] by simp
  have "getPosFromOpaque w = ucast w" for w
  proof (rule bit_word_eqI)
    have m: "(0x0000FFFF :: uint32) = mask 16" by (simp add: mask_eq_exp_minus_1)
    show "bit (getPosFromOpaque w) n = bit (ucast w :: uint16) n" if "n < LENGTH(16)" for n
      using that unfolding getPosFromOpaque_def m by (simp add: bit_simps)
  qed
  then have "unat (getPosFromOpaque (getOpaque i sq)) = unat (getOpaque i sq) mod 65536"
    by (simp add: unsigned_ucast_eq take_bit_eq_mod)
  then show ?thesis using b by (simp add: unat_getOpaque word_unat_eq_iff)
qed

lemma getOpaque_inj: "getOpaque i sq = getOpaque j sq' \<longleftrightarrow> i = j \<and> sq = sq'"
proof
  assume eq: "getOpaque i sq = getOpaque j sq'"
  then have "i = j" by (metis getPosFromOpaque_getOpaque)
  moreover have "unat sq * 65536 + unat i = unat sq' * 65536 + unat j" using eq by (metis unat_getOpaque)
  ultimately show "i = j \<and> sq = sq'" by (simp add: word_unat_eq_iff)
qed simp


section \<open>The contract of the buffer\<close>

text \<open>
  What the nozzle relies on: a table of slots that gives each request entered a
  slot of its own and tags it with an opaque from which the slot can be read.
\<close>

locale slot_table =
  fixes inv :: "'b \<Rightarrow> bool" and view :: "'b \<Rightarrow> uint16 \<rightharpoonup> WrappedMCRequest"
    and enter :: "WrappedMCRequest \<Rightarrow> 'b \<Rightarrow> (uint16 \<times> 'b) option"
    and clear :: "uint16 \<Rightarrow> 'b \<Rightarrow> 'b option"
  assumes enter_spec: "inv b \<Longrightarrow> enter r b = Some (p, b') \<Longrightarrow>
      view b p = None \<and> (\<exists>r'. view b' = (view b)(p \<mapsto> r') \<and> wr_Seqno r' = wr_Seqno r \<and> UniqueKey r' = UniqueKey r) \<and> inv b'"
    and clear_spec: "inv b \<Longrightarrow> clear q b = Some b' \<Longrightarrow> view b' = (view b)(q := None) \<and> inv b'"
    and tagged: "inv b \<Longrightarrow> view b q = Some r \<Longrightarrow> getPosFromOpaque (Opaque (Req r)) = q"
begin

lemma opaque_determines_slot:
  assumes "inv b" "view b p = Some r" "view b q = Some r'" "Opaque (Req r) = Opaque (Req r')"
  shows "p = q \<and> r = r'"
  using tagged[OF assms(1,2)] tagged[OF assms(1,3)] assms by auto

lemma enter_keeps_others:
  assumes "inv b" "enter r b = Some (p, b')" "view b q = Some r0"
  shows "view b' q = Some r0"
  using enter_spec[OF assms(1,2)] assms(3) by (auto split: if_splits)

lemma clear_keeps_others:
  assumes "inv b" "clear p b = Some b'" "q \<noteq> p"
  shows "view b' q = view b q"
  using clear_spec[OF assms(1,2)] assms(3) by simp

end

definition enter_of :: "int \<Rightarrow> int \<Rightarrow> WrappedMCRequest \<Rightarrow> requestBuffer \<Rightarrow> (uint16 \<times> requestBuffer) option" where
  "enter_of rnd now r buf = (case enSlot r rnd now buf of Done ((i, _, _), buf') \<Rightarrow> Some (i, buf') | _ \<Rightarrow> None)"

definition evict_of :: "uint16 \<Rightarrow> requestBuffer \<Rightarrow> requestBuffer option" where
  "evict_of pos buf = (case evictSlot pos buf of Done (None, buf') \<Rightarrow> Some buf' | _ \<Rightarrow> None)"

lemma clearSlot_free:
  assumes "inflight buf pos = None" "pos < size_of buf"
  shows "clearSlot pos n buf = Done (None, buf)"
  using assms by (simp add: clearSlot_def validatePos_def inflight_def Let_def not_le)

lemma adjustRequest_fields [simp]:
  "wr_Seqno (adjustRequest r i buf) = wr_Seqno r" "UniqueKey (adjustRequest r i buf) = UniqueKey r"
  "Opaque (Req (adjustRequest r i buf)) = getOpaque i (sequences buf ! unat i)"
  by (simp_all add: adjustRequest_def)

lemma inflight_opaque:
  assumes "rb_inv buf" "inflight buf p = Some r"
  shows "Opaque (Req r) = getOpaque p (sequences buf ! unat p)"
proof -
  have "p < size_of buf" "br_req (slots buf ! unat p) = Some r" using assms(2) by (auto simp: inflight_def split: if_splits)
  then show ?thesis using rb_invD(9)[OF assms(1), of "unat p" r] rb_invD(1)[OF assms(1)]
    by (simp add: word_less_nat_alt)
qed

interpretation rb: slot_table rb_inv inflight "enter_of rnd now" evict_of for rnd now
proof
  fix b r p b'
  assume b: "rb_inv b" and e: "enter_of rnd now r b = Some (p, b')"
  have "empty_slots_pos b \<noteq> []" using e by (auto simp: enter_of_def enSlot_def)
  from enSlot_correct[OF b this, of r rnd now] e
  show "inflight b p = None \<and> (\<exists>r'. inflight b' = (inflight b)(p \<mapsto> r') \<and> wr_Seqno r' = wr_Seqno r \<and> UniqueKey r' = UniqueKey r) \<and> rb_inv b'"
    by (auto simp: enter_of_def)
next
  fix b q b'
  assume b: "rb_inv b" and e: "evict_of q b = Some b'"
  have q: "q < size_of b" using e by (auto simp: evict_of_def evictSlot_def clearSlot_def validatePos_def split: if_splits)
  show "inflight b' = (inflight b)(q := None) \<and> rb_inv b'"
  proof (cases "inflight b q")
    case None
    then show ?thesis using e b clearSlot_free[OF None q, of "-1"] by (auto simp: evict_of_def evictSlot_def fun_eq_iff)
  next
    case (Some r)
    then show ?thesis using e clearSlot_correct[OF b q, of "-1"] by (auto simp: evict_of_def evictSlot_def)
  qed
next
  fix b q r
  assume "rb_inv b" "inflight b q = Some r"
  then show "getPosFromOpaque (Opaque (Req r)) = q" by (simp add: inflight_opaque)
qed


section \<open>Runs of the buffer\<close>

datatype rlabel = Enter uint16 | Clear uint16 | Touch | Flow

text \<open>
  The operations of the goroutines that share the buffer: entering and clearing a
  slot, updating the retry data of a slot, and the notifications.
\<close>

inductive rstep :: "requestBuffer \<Rightarrow> rlabel \<Rightarrow> requestBuffer \<Rightarrow> bool" where
  r_enter: "enSlot r rnd now buf = Done ((i, n, r'), buf') \<Longrightarrow> rstep buf (Enter i) buf'"
| r_clear: "clearSlot pos n buf = Done (None, buf') \<Longrightarrow> inflight buf pos \<noteq> None \<Longrightarrow> rstep buf (Clear pos) buf'"
| r_touch: "i < length (slots buf) \<Longrightarrow> br_req (slots buf ! i) \<noteq> None \<Longrightarrow> br_req x = br_req (slots buf ! i) \<Longrightarrow>
     sent_time x \<noteq> None \<Longrightarrow> rstep buf Touch (buf\<lparr>slots := (slots buf)[i := x]\<rparr>)"
| r_flow: "rstep buf Flow (fst (flowControl_begin buf))"
| r_wake: "flowControl_wait buf = Done buf' \<Longrightarrow> rstep buf Flow buf'"

inductive rtrace :: "requestBuffer \<Rightarrow> rlabel list \<Rightarrow> requestBuffer \<Rightarrow> bool" where
  rt_nil: "rtrace buf [] buf"
| rt_step: "rtrace buf ls buf1 \<Longrightarrow> rstep buf1 l buf2 \<Longrightarrow> rtrace buf (ls @ [l]) buf2"

inductive_cases rstep_enterE: "rstep buf (Enter i) buf'"
inductive_cases rstep_clearE: "rstep buf (Clear i) buf'"
inductive_cases rstep_touchE: "rstep buf Touch buf'"

lemma rb_inv_touch:
  assumes "rb_inv buf" "i < length (slots buf)" "br_req (slots buf ! i) \<noteq> None" "br_req x = br_req (slots buf ! i)"
    "sent_time x \<noteq> None"
  shows "rb_inv (buf\<lparr>slots := (slots buf)[i := x]\<rparr>)" "inflight (buf\<lparr>slots := (slots buf)[i := x]\<rparr>) = inflight buf"
proof -
  let ?b = "buf\<lparr>slots := (slots buf)[i := x]\<rparr>"
  note D = rb_invD[OF assms(1)]
  have br: "br_req (slots ?b ! j) = br_req (slots buf ! j)" for j
    using assms(2,4) by (simp add: nth_list_update)
  have occ: "occupied ?b = occupied buf" using br by (auto simp: occupied_def)
  show "inflight ?b = inflight buf" using br by (simp add: inflight_def fun_eq_iff)
  show "rb_inv ?b"
    unfolding rb_inv_def occ br
  proof (intro conjI allI impI)
    show "slots ?b ! j = newBufferedMCRequest" if "j < length (slots ?b)" "br_req (slots buf ! j) = None" for j
      using that assms(2,3) D(8)[of j] by (auto simp: nth_list_update)
    show "Opaque (Req q) = getOpaque (word_of_nat j) (sequences ?b ! j)" "sent_time (slots ?b ! j) \<noteq> None"
      if "j < length (slots ?b)" "br_req (slots buf ! j) = Some q" for j q
      using that assms(2,5) D(9)[of j q] by (auto simp: nth_list_update)
  qed (use D in simp_all)
qed

lemma rb_inv_flow:
  assumes "rb_inv buf"
  shows "rb_inv (buf\<lparr>notifych := c\<rparr>)" "inflight (buf\<lparr>notifych := c\<rparr>) = inflight buf"
  using assms by (simp_all add: rb_inv_def occupied_def inflight_def fun_eq_iff)

lemma step_frames:
  "enSlot r rnd now buf = Done (x, buf') \<Longrightarrow> size_of buf' = size_of buf \<and> notify_threshold buf' = notify_threshold buf"
  "clearSlot pos n buf = Done (e, buf') \<Longrightarrow> size_of buf' = size_of buf \<and> notify_threshold buf' = notify_threshold buf"
  by (auto simp: enSlot_def clearSlot_def Let_def split: list.splits if_splits option.splits)

lemma clearSlot_occupied:
  assumes "rb_inv buf" "clearSlot pos n buf = Done (None, buf')" "inflight buf pos \<noteq> None"
  shows "inflight buf' = (inflight buf)(pos := None) \<and>
     sequences buf' = (sequences buf)[unat pos := sequences buf ! unat pos + 1] \<and>
     notifych buf' = (if word_of_nat (card (occupied buf')) \<le> notify_threshold buf
                      then map_option (\<lambda>_. True) (notifych buf) else notifych buf) \<and> rb_inv buf'"
proof -
  have "pos < size_of buf" using assms(3) by (auto simp: inflight_def split: if_splits)
  moreover have "n < 0 \<or> reservation (slots buf ! unat pos) = n"
    using assms(2,3) by (auto simp: clearSlot_def validatePos_def inflight_def Let_def split: if_splits)
  ultimately show ?thesis using clearSlot_correct[OF assms(1) _ assms(3), of n] assms(2) by auto
qed

lemma rstep_inv:
  assumes "rstep buf l buf'" "rb_inv buf"
  shows "rb_inv buf' \<and>
    (\<forall>p < size_of buf. sequences buf' ! unat p = sequences buf ! unat p + (if l = Clear p then 1 else 0)) \<and>
    size_of buf' = size_of buf"
  using assms
proof (cases rule: rstep.cases)
  case (r_enter r rnd now i n r')
  have "empty_slots_pos buf \<noteq> []" using r_enter(2) by (auto simp: enSlot_def)
  from enSlot_correct[OF assms(2) this, of r rnd now] r_enter step_frames(1)[OF r_enter(2)] show ?thesis by auto
next
  case (r_clear pos n)
  have "pos < size_of buf" using r_clear(3) by (auto simp: inflight_def split: if_splits)
  then have "unat pos < length (sequences buf)" using rb_invD(2)[OF assms(2)] by (simp add: word_less_nat_alt)
  with clearSlot_occupied[OF assms(2) r_clear(2,3)] r_clear(1) step_frames(2)[OF r_clear(2)] show ?thesis
    by (auto simp: nth_update_word)
next
  case (r_touch i x)
  with rb_inv_touch[OF assms(2), of i x] show ?thesis by simp
next
  case r_flow
  with rb_inv_flow(1)[OF assms(2)] show ?thesis by (simp add: flowControl_begin_def setNotifyCh_def Let_def)
next
  case r_wake
  with rb_inv_flow(1)[OF assms(2)] show ?thesis by (auto simp: flowControl_wait_def unsetNotifyCh_def split: if_splits)
qed

lemma rtrace_inv:
  assumes "rtrace buf ls buf'" "rb_inv buf"
  shows "rb_inv buf' \<and> size_of buf' = size_of buf \<and>
    (\<forall>p < size_of buf. sequences buf' ! unat p = sequences buf ! unat p + word_of_nat (count_list ls (Clear p)))"
  using assms
proof (induction rule: rtrace.induct)
  case (rt_step buf ls buf1 l buf2)
  then show ?case using rstep_inv[OF rt_step(2)] by auto
qed simp


section \<open>Properties of the request buffer\<close>

text \<open>C26. The buffer of requests in flight is a table of slots: a request is given a slot that was
  free, entering blocks only when every slot is taken and never panics, evicting frees exactly that
  slot and neither blocks nor fails, and a new buffer satisfies the invariant all this rests on.\<close>

theorem request_buffer_is_slot_table:
  "rb_inv (newReqBuffer sz threshold 0 (unat sz)) \<and>
   (rb_inv buf \<longrightarrow>
      (if \<forall>p < size_of buf. inflight buf p \<noteq> None then enSlot r rnd now buf = Blocks
       else \<exists>index buf'. enSlot r rnd now buf = Done ((index, rnd, adjustRequest r index buf), buf') \<and>
              inflight buf index = None \<and> inflight buf' = (inflight buf)(index \<mapsto> adjustRequest r index buf) \<and> rb_inv buf') \<and>
      (pos < size_of buf \<longrightarrow>
         (\<exists>buf'. evictSlot pos buf = Done (None, buf') \<and> inflight buf' = (inflight buf)(pos := None) \<and> rb_inv buf')))"
proof (intro conjI impI)
  show "rb_inv (newReqBuffer sz threshold 0 (unat sz))" by (rule newReqBuffer_inv)
next
  assume inv: "rb_inv buf"
  show "if \<forall>p < size_of buf. inflight buf p \<noteq> None then enSlot r rnd now buf = Blocks
       else \<exists>index buf'. enSlot r rnd now buf = Done ((index, rnd, adjustRequest r index buf), buf') \<and>
              inflight buf index = None \<and> inflight buf' = (inflight buf)(index \<mapsto> adjustRequest r index buf) \<and> rb_inv buf'"
  proof (cases "\<forall>p < size_of buf. inflight buf p \<noteq> None")
    case True
    then have "p \<notin> set (empty_slots_pos buf)" for p using rb_invD(4)[OF inv, of p] by (auto simp: inflight_def)
    then have "empty_slots_pos buf = []" by (metis ex_in_conv set_empty)
    with True show ?thesis by (simp add: enSlot_def)
  next
    case False
    then obtain p where "p < size_of buf" "br_req (slots buf ! unat p) = None" by (auto simp: inflight_def)
    then have "empty_slots_pos buf \<noteq> []" using rb_invD(4)[OF inv, of p] by auto
    with False enSlot_correct[OF inv, of r rnd now] show ?thesis by auto
  qed
next
  assume inv: "rb_inv buf" and pos: "pos < size_of buf"
  show "\<exists>buf'. evictSlot pos buf = Done (None, buf') \<and> inflight buf' = (inflight buf)(pos := None) \<and> rb_inv buf'"
  proof (cases "inflight buf pos")
    case None
    then show ?thesis using clearSlot_free[OF None pos, of "-1"] inv by (auto simp: evictSlot_def fun_eq_iff)
  next
    case (Some q)
    then show ?thesis using clearSlot_correct[OF inv pos, of "-1"] by (auto simp: evictSlot_def)
  qed
qed

text \<open>C27. A late response is not taken for a newer request: when a slot has been cleared at least once
  and fewer than 65536 times since a request was entered in it, whatever else happened in between,
  the request now in the slot carries a different opaque.\<close>

theorem stale_response_detected:
  assumes "rb_inv buf" "inflight buf p = Some r" "rtrace buf ls buf'" "inflight buf' p = Some r'"
    "0 < count_list ls (Clear p)" "count_list ls (Clear p) < 65536"
  shows "Opaque (Req r') \<noteq> Opaque (Req r) \<and> getPosFromOpaque (Opaque (Req r')) = getPosFromOpaque (Opaque (Req r))"
proof -
  let ?n = "count_list ls (Clear p)"
  have "p < size_of buf" using assms(2) by (auto simp: inflight_def split: if_splits)
  then have sq: "sequences buf' ! unat p = sequences buf ! unat p + word_of_nat ?n" and inv': "rb_inv buf'"
    using rtrace_inv[OF assms(3,1)] by auto
  have "(word_of_nat ?n :: uint16) \<noteq> 0"
    using word_of_nat_inj[of ?n 0, where ?'a = 16] assms(5,6) by simp
  then show ?thesis
    using inflight_opaque[OF assms(1,2)] inflight_opaque[OF inv' assms(4)] sq by (auto simp: getOpaque_inj)
qed

definition example_req :: WrappedMCRequest where
  "example_req = addOne"

lemma example_enter:
  assumes "rb_inv buf" "size_of buf = 1" "inflight buf 0 = None"
  shows "\<exists>buf'. enSlot example_req 5 0 buf = Done ((0, 5, adjustRequest example_req 0 buf), buf') \<and>
     inflight buf' 0 = Some (adjustRequest example_req 0 buf) \<and> rb_inv buf' \<and> size_of buf' = 1"
proof -
  have "(0 :: uint16) \<in> set (empty_slots_pos buf)" using rb_invD(4)[OF assms(1), of 0] assms(2,3) by (simp add: inflight_def)
  then have "empty_slots_pos buf \<noteq> []" by auto
  from enSlot_correct[OF assms(1) this, of example_req 5 0] obtain index buf' where
    run: "enSlot example_req 5 0 buf = Done ((index, 5, adjustRequest example_req index buf), buf')" and
    v: "inflight buf index = None" "inflight buf' = (inflight buf)(index \<mapsto> adjustRequest example_req index buf)" "rb_inv buf'"
    by blast
  have sz: "size_of buf' = 1" using step_frames(1)[OF run] assms(2) by simp
  have "inflight buf' index \<noteq> None" using v(2) by simp
  then have "index < 1" using sz by (auto simp: inflight_def split: if_splits)
  then have "index = 0" by (simp add: word_less_nat_alt unat_eq_0)
  with run v sz show ?thesis by auto
qed

theorem request_buffer_is_slot_table_witness:
  "\<exists>index buf'. enSlot example_req 5 0 (newReqBuffer 2 1 0 2) = Done ((index, 5, adjustRequest example_req index (newReqBuffer 2 1 0 2)), buf') \<and>
     rb_inv buf'"
proof -
  let ?b = "newReqBuffer 2 1 0 2"
  have inv: "rb_inv ?b" using request_buffer_is_slot_table[of 2 1] by simp
  have "size_of ?b = 2" "inflight ?b 0 = None"
    by (simp_all add: newReqBuffer_def buf_initialize_def init_slots_spec inflight_def newBufferedMCRequest_def)
  then have "\<not> (\<forall>p < size_of ?b. inflight ?b p \<noteq> None)" by (auto intro!: exI[of _ 0])
  from mp[OF conjunct2[OF request_buffer_is_slot_table[of 2 1 ?b example_req 5 0 0]] inv, THEN conjunct1,
      unfolded if_not_P[OF this]]
  show ?thesis by blast
qed

theorem stale_response_detected_witness:
  "\<exists>buf buf' r r'. rtrace buf [Clear 0, Enter 0] buf' \<and> inflight buf 0 = Some r \<and> inflight buf' 0 = Some r' \<and>
     Opaque (Req r') \<noteq> Opaque (Req r)"
proof -
  let ?b = "newReqBuffer 1 0 0 1"
  have b: "rb_inv ?b" "size_of ?b = 1" "inflight ?b 0 = None"
    using newReqBuffer_inv[of 1 0]
    by (simp_all add: newReqBuffer_def buf_initialize_def init_slots_spec inflight_def newBufferedMCRequest_def)
  from example_enter[OF b] obtain b1 where b1: "inflight b1 0 = Some (adjustRequest example_req 0 ?b)" "rb_inv b1" "size_of b1 = 1"
    by blast
  from clearSlot_correct[OF b1(2), of 0 "-1"] b1 obtain b2 where
    c: "clearSlot 0 (-1) b1 = Done (None, b2)" and b2: "inflight b2 = (inflight b1)(0 := None)" "rb_inv b2" by auto
  have sz: "size_of b2 = 1" using step_frames(2)[OF c] b1 by simp
  from example_enter[OF b2(2) sz] b2(1) obtain b3 where
    e: "enSlot example_req 5 0 b2 = Done ((0, 5, adjustRequest example_req 0 b2), b3)" "inflight b3 0 = Some (adjustRequest example_req 0 b2)"
    by auto
  have "rstep b1 (Clear 0) b2" using r_clear[OF c] b1 by simp
  moreover have "rstep b2 (Enter 0) b3" using r_enter[OF e(1)] .
  ultimately have tr: "rtrace b1 [Clear 0, Enter 0] b3"
    using rt_step[OF rt_step[OF rt_nil], of b1 "Clear 0" b2 "Enter 0" b3] by simp
  have "Opaque (Req (adjustRequest example_req 0 b2)) \<noteq> Opaque (Req (adjustRequest example_req 0 ?b))"
    using stale_response_detected[OF b1(2,1) tr e(2)] by simp
  with tr b1(1) e(2) show ?thesis by blast
qed

lemma card_occupied_16:
  assumes "rb_inv buf"
  shows "card (occupied buf) < 65536" "unat (itemCountInBuffer buf) = card (occupied buf)"
proof -
  have "unat (size_of buf) < 65536" using unsigned_less[of "size_of buf", where ?'a = nat] by simp
  then show c: "card (occupied buf) < 65536" using card_occupied_le[of buf] rb_invD(1)[OF assms] by simp
  then show "unat (itemCountInBuffer buf) = card (occupied buf)"
    using rb_invD(5)[OF assms] by (simp add: itemCountInBuffer_def unsigned_of_nat unsigned_ucast_eq take_bit_eq_mod)
qed

text \<open>While a sender waits, a buffer at or below its threshold has the notification pending.\<close>

definition wake_pending :: "requestBuffer \<Rightarrow> bool" where
  "wake_pending buf \<longleftrightarrow> notifych buf \<noteq> None \<and> (itemCountInBuffer buf \<le> notify_threshold buf \<longrightarrow> notifych buf = Some True)"

lemma wake_pending_step:
  assumes "rstep buf l buf'" "rb_inv buf" "wake_pending buf" "l \<noteq> Flow"
  shows "wake_pending buf'"
proof -
  have inv': "rb_inv buf'" using rstep_inv[OF assms(1,2)] by blast
  note cnt = card_occupied_16(2)[OF assms(2)] card_occupied_16(2)[OF inv']
  from assms(1,4) show ?thesis
  proof (cases rule: rstep.cases)
    case (r_enter r rnd now i n r')
    have ne: "empty_slots_pos buf \<noteq> []" using r_enter(2) by (auto simp: enSlot_def)
    from enSlot_correct[OF assms(2) ne, of r rnd now] r_enter have nc: "notifych buf' = notifych buf" by auto
    have "tokens buf' = tokens buf + 1"
      using r_enter(2) by (auto simp: enSlot_def Let_def split: list.splits if_splits)
    then have "card (occupied buf) \<le> card (occupied buf')" using rb_invD(6)[OF assms(2)] rb_invD(6)[OF inv'] by simp
    then show ?thesis
      using assms(3) nc step_frames(1)[OF r_enter(2)] cnt by (auto simp: wake_pending_def word_le_nat_alt)
  next
    case (r_clear pos n)
    from clearSlot_occupied[OF assms(2) r_clear(2,3)] step_frames(2)[OF r_clear(2)]
    have "notifych buf' = (if itemCountInBuffer buf' \<le> notify_threshold buf' then map_option (\<lambda>_. True) (notifych buf) else notifych buf)"
      by (simp add: itemCount_eq[OF inv'])
    then show ?thesis using assms(3) by (auto simp: wake_pending_def)
  next
    case (r_touch i x)
    then show ?thesis using assms(3) by (simp add: wake_pending_def itemCountInBuffer_def)
  qed simp_all
qed

text \<open>C28. Flow control loses no wake-up: a sender that found the buffer above its threshold and waits is
  let through as soon as other goroutines have brought the number of buffered requests back to the
  threshold, however their operations are ordered.\<close>

theorem flow_control_no_lost_wakeup:
  assumes "rb_inv buf" "flowControl_begin buf = (buf1, False)" "rtrace buf1 ls buf2" "Flow \<notin> set ls"
    "itemCountInBuffer buf2 \<le> notify_threshold buf2"
  shows "\<exists>buf3. flowControl_wait buf2 = Done buf3 \<and> inflight buf3 = inflight buf2"
proof -
  have b1: "buf1 = setNotifyCh buf" "\<not> itemCountInBuffer buf1 \<le> notify_threshold buf1"
    using assms(2) by (auto simp: flowControl_begin_def Let_def)
  have base: "rb_inv buf1" "wake_pending buf1"
    using rb_inv_flow(1)[OF assms(1)] b1 by (simp_all add: wake_pending_def setNotifyCh_def)
  have "wake_pending buf2"
    using assms(3) base assms(4)
  proof (induction rule: rtrace.induct)
    case (rt_step buf ls buf1 l buf2)
    then show ?case using rtrace_inv[OF rt_step(1)] wake_pending_step[OF rt_step(2)] by auto
  qed
  then have "notifych buf2 = Some True" using assms(5) by (simp add: wake_pending_def)
  then show ?thesis by (auto simp: flowControl_wait_def unsetNotifyCh_def inflight_def fun_eq_iff)
qed

theorem flow_control_no_lost_wakeup_witness:
  "\<exists>buf buf1 buf2 buf3. inflight buf 0 \<noteq> None \<and> flowControl_begin buf = (buf1, False) \<and> rtrace buf1 [Clear 0] buf2 \<and>
     flowControl_wait buf2 = Done buf3"
proof -
  let ?b = "newReqBuffer 1 0 0 1"
  have b: "rb_inv ?b" "size_of ?b = 1" "inflight ?b 0 = None" "notify_threshold ?b = 0"
    using newReqBuffer_inv[of 1 0]
    by (simp_all add: newReqBuffer_def buf_initialize_def init_slots_spec inflight_def newBufferedMCRequest_def)
  from example_enter[OF b(1-3)] obtain b1 where b1: "inflight b1 0 \<noteq> None" "rb_inv b1" "size_of b1 = 1" "notify_threshold b1 = 0"
    using step_frames(1)[of example_req 5 0 ?b] b(4) by fastforce
  have "0 \<in> occupied b1" using b1 rb_invD(1)[OF b1(2)] by (auto simp: occupied_def inflight_def)
  then have c1: "card (occupied b1) > 0" by (metis card_gt_0_iff empty_iff finite_occupied)
  let ?c = "setNotifyCh b1"
  have fc: "flowControl_begin b1 = (?c, False)"
    using c1 card_occupied_16(2)[OF b1(2)] b1(4)
    by (auto simp: flowControl_begin_def setNotifyCh_def itemCountInBuffer_def word_le_nat_alt Let_def)
  have inv: "rb_inv ?c" "inflight ?c 0 \<noteq> None" "size_of ?c = 1" "notify_threshold ?c = 0"
    using rb_inv_flow[OF b1(2), of "Some False"] b1 by (simp_all add: setNotifyCh_def)
  from clearSlot_correct[OF inv(1), of 0 "-1"] inv obtain b2 where
    cl: "clearSlot 0 (-1) ?c = Done (None, b2)" and v: "inflight b2 = (inflight ?c)(0 := None)" "rb_inv b2" by auto
  have sz: "size_of b2 = 1" "notify_threshold b2 = 0" using step_frames(2)[OF cl] inv(3,4) by simp_all
  have "occupied b2 = {}"
  proof -
    have "br_req (slots b2 ! 0) = None" using fun_cong[OF v(1), of 0] sz by (simp add: inflight_def)
    then show ?thesis using rb_invD(1)[OF v(2)] sz by (auto simp: occupied_def) (metis gr0I option.distinct(1))
  qed
  then have le: "itemCountInBuffer b2 \<le> notify_threshold b2" using itemCount_eq[OF v(2)] sz by simp
  have tr: "rtrace ?c [Clear 0] b2" using rt_step[OF rt_nil r_clear[OF cl inv(2)]] by simp
  from flow_control_no_lost_wakeup[OF b1(2) fc tr _ le] fc tr b1(1) show ?thesis by auto
qed

end
