(* ===== verification/Part.thy ===== *)
theory Part
  imports Go_Strings
begin

text \<open>
  The life cycle every part of a pipeline shares, \<open>parts/abstract_part.go\<close>: the
  states of a part, the transitions \<open>SetState\<close> admits, and how a nozzle reports an
  error (\<open>handleGeneralError\<close> of the nozzles).
\<close>


section \<open>States and transitions\<close>

datatype PartState = Part_Initial | Part_Starting | Part_Running | Part_Stopping | Part_Stopped | Part_Error

definition PartStoppedError :: goerror where
  "PartStoppedError = Sentinel ''Part is stopping or already stopped, exit''"

definition PartAlreadyStartedError :: goerror where
  "PartAlreadyStartedError = Sentinel ''Part has already been started before''"

definition InvalidStateTransition :: "PartState \<Rightarrow> goerror" where
  "InvalidStateTransition st = Formatted ''Can't move to state''"

definition SetState :: "PartState \<Rightarrow> PartState \<Rightarrow> goerror option \<times> PartState" where
  "SetState st p =
     (case p of
        Part_Initial \<Rightarrow>
          if st \<noteq> Part_Starting \<and> st \<noteq> Part_Stopping then (Some (InvalidStateTransition st), p) else (None, st)
      | Part_Starting \<Rightarrow>
          if st = Part_Starting then (Some PartAlreadyStartedError, p)
          else if st \<noteq> Part_Running \<and> st \<noteq> Part_Stopping \<and> st \<noteq> Part_Error then (Some (InvalidStateTransition st), p)
          else (None, st)
      | Part_Running \<Rightarrow>
          if st = Part_Starting then (Some PartAlreadyStartedError, p)
          else if st \<noteq> Part_Stopping \<and> st \<noteq> Part_Error then (Some (InvalidStateTransition st), p)
          else (None, st)
      | Part_Stopping \<Rightarrow>
          if st = Part_Starting then (Some PartAlreadyStartedError, p)
          else if st \<noteq> Part_Stopped then (Some (InvalidStateTransition st), p)
          else (None, st)
      | Part_Stopped \<Rightarrow>
          if st = Part_Starting then (Some PartAlreadyStartedError, p) else (Some (InvalidStateTransition st), p)
      | Part_Error \<Rightarrow>
          if st = Part_Starting then (Some PartAlreadyStartedError, p)
          else if st \<noteq> Part_Stopping then (Some (InvalidStateTransition st), p)
          else (None, st))"

definition IsReadyForHeartBeat :: "PartState \<Rightarrow> bool" where
  "IsReadyForHeartBeat p \<longleftrightarrow> p = Part_Running"

definition SetConnector :: "'c \<Rightarrow> PartState \<times> 'c option \<Rightarrow> goerror option \<times> PartState \<times> 'c option" where
  "SetConnector c p = (if fst p \<noteq> Part_Initial
     then (Some (Formatted ''Cannot set connector on part since its state is not Part_Initial''), p)
     else (None, fst p, Some c))"

text \<open>A running part of a nozzle, and the error it raises: the event is raised only when the state
  could be moved to \<open>Part_Error\<close>.\<close>

definition validateRunningState :: "PartState \<Rightarrow> goerror option" where
  "validateRunningState p =
     (if p = Part_Stopping \<or> p = Part_Stopped \<or> p = Part_Error then Some PartStoppedError else None)"

definition handleGeneralError :: "goerror \<Rightarrow> PartState \<Rightarrow> PartState \<times> goerror list" where
  "handleGeneralError err p = (case SetState Part_Error p of (None, p') \<Rightarrow> (p', [err]) | (Some _, p') \<Rightarrow> (p', []))"


section \<open>The transitions form an order\<close>

definition part_rank :: "PartState \<Rightarrow> nat" where
  "part_rank p = (case p of Part_Initial \<Rightarrow> 0 | Part_Starting \<Rightarrow> 1 | Part_Running \<Rightarrow> 2 | Part_Error \<Rightarrow> 3 | Part_Stopping \<Rightarrow> 4 | Part_Stopped \<Rightarrow> 5)"

lemma SetState_rank: "SetState st p = (e, p') \<Longrightarrow> if e = None then p' = st \<and> part_rank p < part_rank p' else p' = p"
  by (cases p; cases st) (auto simp: SetState_def part_rank_def)

fun set_states :: "PartState list \<Rightarrow> PartState \<Rightarrow> goerror option list \<times> PartState" where
  "set_states [] p = ([], p)"
| "set_states (st # sts) p = (case SetState st p of (e, p1) \<Rightarrow> case set_states sts p1 of (es, p2) \<Rightarrow> (e # es, p2))"

text \<open>The states entered by the calls that succeeded.\<close>

definition entered :: "PartState list \<Rightarrow> goerror option list \<Rightarrow> PartState list" where
  "entered sts es = map fst (filter (\<lambda>(st, e). e = None) (zip sts es))"

lemma entered_Cons [simp]: "entered (st # sts) (e # es) = (if e = None then st # entered sts es else entered sts es)"
  by (simp add: entered_def)

lemma entered_increasing:
  "set_states sts p = (es, p') \<Longrightarrow>
     sorted_wrt (<) (map part_rank (p # entered sts es)) \<and> p' = last (p # entered sts es) \<and> length es = length sts"
proof (induction sts arbitrary: p es)
  case Nil
  then show ?case by (simp add: entered_def)
next
  case (Cons st sts)
  obtain e p1 where s: "SetState st p = (e, p1)" by fastforce
  obtain es1 where r: "set_states sts p1 = (es1, p')" "es = e # es1" using Cons.prems s by (auto split: prod.splits)
  from Cons.IH[OF r(1)] SetState_rank[OF s] r(2) show ?case
    by (cases e) (auto simp: less_trans)
qed


section \<open>Property of the life cycle\<close>

text \<open>C37. Whatever the order in which the goroutines of a part ask for state changes, the states it enters
  follow the order of the life cycle, each at most once: a part is started at most once, reports
  at most one error, and reports none after it began to stop.\<close>

theorem part_life_cycle:
  assumes "set_states sts Part_Initial = (es, p')"
  shows "sorted_wrt (<) (map part_rank (entered sts es)) \<and> distinct (entered sts es) \<and>
    p' = last (Part_Initial # entered sts es) \<and>
    (\<forall>xs ys. entered sts es = xs @ Part_Error # ys \<longrightarrow> Part_Error \<notin> set (xs @ ys) \<and> Part_Stopping \<notin> set xs \<and> Part_Stopped \<notin> set xs)"
proof -
  note inc = entered_increasing[OF assms]
  then have s: "sorted_wrt (<) (map part_rank (entered sts es))" by simp
  then have "distinct (map part_rank (entered sts es))" using strict_sorted_iff by blast
  then have d: "distinct (entered sts es)" by (simp add: distinct_map)
  moreover have "Part_Stopping \<notin> set xs \<and> Part_Stopped \<notin> set xs" if "entered sts es = xs @ Part_Error # ys" for xs ys
    using s unfolding that by (fastforce simp: sorted_wrt_append part_rank_def)
  ultimately show ?thesis using s inc by auto
qed

theorem part_life_cycle_witness:
  "\<exists>es. set_states [Part_Starting, Part_Running, Part_Error, Part_Starting, Part_Error, Part_Stopping, Part_Stopped] Part_Initial = (es, Part_Stopped) \<and>
     entered [Part_Starting, Part_Running, Part_Error, Part_Starting, Part_Error, Part_Stopping, Part_Stopped] es =
       [Part_Starting, Part_Running, Part_Error, Part_Stopping, Part_Stopped] \<and> distinct [Part_Starting, Part_Running, Part_Error, Part_Stopping, Part_Stopped]"
proof -
  let ?sts = "[Part_Starting, Part_Running, Part_Error, Part_Starting, Part_Error, Part_Stopping, Part_Stopped]"
  let ?es = "[None, None, None, Some PartAlreadyStartedError, Some (InvalidStateTransition Part_Error), None, None]"
  have r: "set_states ?sts Part_Initial = (?es, Part_Stopped)" by (simp add: SetState_def)
  have e: "entered ?sts ?es = [Part_Starting, Part_Running, Part_Error, Part_Stopping, Part_Stopped]"
    by (simp add: entered_def)
  from part_life_cycle[OF r] r e show ?thesis by (metis (no_types))
qed

end
