(* ===== verification/Xmem_Client.thy ===== *)
theory Xmem_Client
  imports Memcached Part Throttlers
begin

text \<open>
  One connection of the xmem nozzle to the target and the writing of requests to
  it, \<open>parts/xmem_nozzle.go\<close>: the health of the client (\<open>xmemClient\<close>), a single
  write (\<open>writeToClientWithoutThrottling\<close>), and the writing of a list of requests
  in pieces the bandwidth throttler allows (\<open>writeToClient\<close>), with the stack of
  \<open>base/types.go\<close>.

  Times are in nanoseconds; \<open>None\<close> is Go's zero time.  Logging and the deadlines set
  on the connection are left out.
\<close>


section \<open>The client\<close>

definition badConnectionError :: goerror where
  "badConnectionError = Sentinel ''Connection is bad''"

definition connectionClosedError :: goerror where
  "connectionClosedError = Sentinel ''Connection is closed''"

definition ErrorClientNotSet :: goerror where
  "ErrorClientNotSet = Formatted ''memcached client is not set''"

record 'c xmemClient =
  memClient :: "'c option"
  continuous_write_failure_counter :: int
  success_counter :: int
  max_continuous_write_failure :: int
  max_downtime :: int
  downtime_start :: "int option"
  healthy :: bool
  num_of_repairs :: int
  last_failure :: "int option"
  backoff_factor :: int

definition newXmemClient :: "'c option \<Rightarrow> int \<Rightarrow> int \<Rightarrow> 'c xmemClient" where
  "newXmemClient client max_continuous_failure max_down =
     \<lparr>memClient = client, continuous_write_failure_counter = 0, success_counter = 0,
      max_continuous_write_failure = max_continuous_failure, max_downtime = max_down, downtime_start = None,
      healthy = True, num_of_repairs = 0, last_failure = None, backoff_factor = 0\<rparr>"

text \<open>The time since a point in time; since the zero time it is larger than any bound used here.\<close>

definition since_exceeds :: "int \<Rightarrow> int option \<Rightarrow> int \<Rightarrow> bool" where
  "since_exceeds now t bound = (case t of None \<Rightarrow> True | Some s \<Rightarrow> now - s > bound)"

definition reportOpFailure :: "bool \<Rightarrow> int \<Rightarrow> 'c xmemClient \<Rightarrow> 'c xmemClient" where
  "reportOpFailure readOp now client =
     (let c1 = client\<lparr>success_counter := 0\<rparr>;
          c2 = (if downtime_start c1 = None then c1\<lparr>downtime_start := Some now\<rparr> else c1);
          c3 = (if readOp then c2 else c2\<lparr>continuous_write_failure_counter := continuous_write_failure_counter c2 + 1\<rparr>)
      in if continuous_write_failure_counter c3 > max_continuous_write_failure c3 \<or>
            since_exceeds now (downtime_start c3) (max_downtime c3)
         then c3\<lparr>healthy := False\<rparr> else c3)"

definition reportOpSuccess :: "'c xmemClient \<Rightarrow> 'c xmemClient" where
  "reportOpSuccess client =
     (let c1 = client\<lparr>downtime_start := None, continuous_write_failure_counter := 0, success_counter := success_counter client + 1\<rparr>;
          c2 = (if success_counter c1 > max_continuous_write_failure c1 \<and> backoff_factor c1 > 0
                then c1\<lparr>backoff_factor := backoff_factor c1 - 1, success_counter := success_counter c1 - max_continuous_write_failure c1\<rparr>
                else c1)
      in c2\<lparr>healthy := True\<rparr>)"

definition client_getConn :: "'c xmemClient \<Rightarrow> (goerror + 'c) \<times> int" where
  "client_getConn client =
     (case memClient client of
        None \<Rightarrow> (Inl ErrorClientNotSet, num_of_repairs client)
      | Some c \<Rightarrow> if \<not> healthy client then (Inl badConnectionError, num_of_repairs client) else (Inr c, num_of_repairs client))"

definition one_minute :: int where
  "one_minute = 60 * 10 ^ 9"

definition client_repairConn :: "'c \<Rightarrow> int \<Rightarrow> int \<Rightarrow> 'c xmemClient \<Rightarrow> bool \<times> 'c xmemClient" where
  "client_repairConn newClient repair_count_at_error now client =
     (if num_of_repairs client = repair_count_at_error then
        let recent = (case last_failure client of None \<Rightarrow> False | Some s \<Rightarrow> now - s < one_minute);
            c1 = (if recent then client\<lparr>backoff_factor := backoff_factor client + 1\<rparr> else client\<lparr>backoff_factor := 0\<rparr>)
        in (True, c1\<lparr>memClient := Some newClient, continuous_write_failure_counter := 0,
                     num_of_repairs := num_of_repairs c1 + 1, healthy := True\<rparr>)
      else (False, client))"

definition markConnUnhealthy :: "'c xmemClient \<Rightarrow> 'c xmemClient" where
  "markConnUnhealthy client = client\<lparr>healthy := False\<rparr>"

definition incrementBackOffFactor :: "'c xmemClient \<Rightarrow> 'c xmemClient" where
  "incrementBackOffFactor client = client\<lparr>backoff_factor := backoff_factor client + 1\<rparr>"

text \<open>Errors of the network: the text, whether it is one of the two values the code compares with, and for a \<open>net.OpError\<close> its temporary and timeout flags.\<close>

record neterror =
  ne_text :: string
  ne_EPIPE :: bool
  ne_EOF :: bool
  ne_OpError :: "(bool \<times> bool) option"

definition isNetError :: "neterror option \<Rightarrow> bool" where
  "isNetError e = (case e of None \<Rightarrow> False | Some n \<Rightarrow> ne_OpError n \<noteq> None)"

definition isNetTimeoutError :: "neterror option \<Rightarrow> bool" where
  "isNetTimeoutError e = (case e of None \<Rightarrow> False | Some n \<Rightarrow> (case ne_OpError n of None \<Rightarrow> False | Some (_, timeout) \<Rightarrow> timeout))"

definition IsSeriousNetError :: "neterror option \<Rightarrow> bool" where
  "IsSeriousNetError e = (case e of None \<Rightarrow> False | Some n \<Rightarrow>
     ne_EPIPE n \<or> ne_EOF n \<or> strings_Contains (ne_text n) ''EOF'' \<or>
     strings_Contains (ne_text n) ''use of closed network connection'' \<or>
     strings_Contains (ne_text n) ''connection reset by peer'' \<or>
     strings_Contains (ne_text n) ''http: can't write HTTP request on broken connection'' \<or>
     (case ne_OpError n of None \<Rightarrow> False | Some (temporary, timeout) \<Rightarrow> \<not> temporary \<and> \<not> timeout))"

text \<open>
  A single write.  \<open>conn_Write\<close> is the connection: the bytes written and an error.  The
  result is the error and the revision of the client; the flag tells whether a repair
  of the connection is asked for, which the nozzle performs.
\<close>

definition writeToClientWithoutThrottling ::
  "('c \<Rightarrow> bytes \<Rightarrow> nat \<times> neterror option) \<Rightarrow> PartState \<Rightarrow> int \<Rightarrow> bytes \<Rightarrow> 'c xmemClient \<Rightarrow>
     (goerror option \<times> int) \<times> bool \<times> 'c xmemClient" where
  "writeToClientWithoutThrottling conn_Write st now bs client =
     (case validateRunningState st of
        Some e \<Rightarrow> ((Some e, num_of_repairs client), False, client)
      | None \<Rightarrow>
        (case client_getConn client of
           (Inl e, rv) \<Rightarrow> ((Some e, rv), False, client)
         | (Inr conn, rv) \<Rightarrow>
             (case conn_Write conn bs of
                (n, None) \<Rightarrow> ((None, rv), False, reportOpSuccess client)
              | (n, Some e) \<Rightarrow>
                  if IsSeriousNetError (Some e) \<or> (n \<noteq> 0 \<and> n \<noteq> length bs)
                  then ((Some (Formatted (ne_text e)), rv), True, client)
                  else ((Some (Formatted (ne_text e)), rv), False,
                        if isNetError (Some e) then reportOpFailure False now client else client))))"


text \<open>
  A read.  The memcached library returns a response, a response that carries an
  error status (returned as the error too), or an error.
\<close>

datatype received = RecvResponse MCResponse | RecvErrorResponse MCResponse | RecvError neterror

definition readFromClient ::
  "PartState \<Rightarrow> int \<Rightarrow> received \<Rightarrow> 'c xmemClient \<Rightarrow> (MCResponse option \<times> goerror option \<times> int) \<times> 'c xmemClient" where
  "readFromClient st now rc client =
     (case validateRunningState st of
        Some e \<Rightarrow> ((None, Some e, num_of_repairs client), client)
      | None \<Rightarrow>
        (case client_getConn client of
           (Inl e, rv) \<Rightarrow> ((None, Some e, rv), client)
         | (Inr _, rv) \<Rightarrow>
             (case rc of
                RecvResponse resp \<Rightarrow> ((Some resp, None, rv), reportOpSuccess client)
              | RecvErrorResponse resp \<Rightarrow> ((Some resp, None, rv), client)
              | RecvError e \<Rightarrow>
                  if ne_EOF e then ((None, Some connectionClosedError, rv), client)
                  else if IsSeriousNetError (Some e) then ((None, Some badConnectionError, rv), client)
                  else if isNetError (Some e) then ((None, Some (Formatted (ne_text e)), rv), reportOpFailure True now client)
                  else if strings_HasPrefix (ne_text e) ''bad magic'' then ((None, Some badConnectionError, rv), client)
                  else ((None, Some (Formatted (ne_text e)), rv), client))))"


section \<open>Writing within the bandwidth\<close>

subsection \<open>The stack of \<open>base/types.go\<close>\<close>

type_synonym 'a Stack = "'a list"

definition Stack_Empty :: "'a Stack \<Rightarrow> bool" where
  "Stack_Empty s \<longleftrightarrow> length s = 0"

definition Stack_Push :: "'a \<Rightarrow> 'a Stack \<Rightarrow> 'a Stack" where
  "Stack_Push i s = s @ [i]"

definition Stack_Pop :: "'a Stack \<Rightarrow> ('a \<times> 'a Stack) option" where
  "Stack_Pop s = (if s = [] then None else Some (s ! (length s - 1), take (length s - 1) s))"

lemma stack_laws [simp]:
  "Stack_Pop (Stack_Push i s) = Some (i, s)" "\<not> Stack_Empty (Stack_Push i s)" "Stack_Empty []" "\<not> Stack_Empty (x # s)"
  by (simp_all add: Stack_Pop_def Stack_Push_def Stack_Empty_def)

lemma Stack_Pop_Some: "Stack_Pop s = Some (x, s') \<longleftrightarrow> s = Stack_Push x s'"
  by (cases s rule: rev_cases) (auto simp: Stack_Pop_def Stack_Push_def)

lemma Stack_Empty_iff: "Stack_Empty s \<longleftrightarrow> s = []"
  by (simp add: Stack_Empty_def)

subsection \<open>Sizes\<close>

abbreviation size_sum :: "bytes list \<Rightarrow> int" where
  "size_sum bl \<equiv> sum_list (map (\<lambda>b. int (length b)) bl)"

fun min_loop :: "int \<Rightarrow> bytes list \<Rightarrow> int \<Rightarrow> int \<times> int \<Rightarrow> int \<times> int" where
  "min_loop target [] index acc = acc"
| "min_loop target (b # bs) index (cur, minIndex) =
     (if cur + int (length b) \<le> target then min_loop target bs (index + 1) (cur + int (length b), index) else (cur, minIndex))"

definition computeNumberOfBytes :: "int \<Rightarrow> bytes list \<Rightarrow> (int \<times> int \<times> int \<times> int) option" where
  "computeNumberOfBytes pct bytesList =
     (case bytesList of
        [] \<Rightarrow> None
      | first # _ \<Rightarrow>
          let numberOfBytesOfFirstItem = int (length first); numberOfBytes = size_sum bytesList in
          if length bytesList = 1 then Some (numberOfBytes, numberOfBytes, 0, numberOfBytesOfFirstItem)
          else (case min_loop (numberOfBytes * pct div 100) bytesList 0 (0, -1) of (cur, minIndex) \<Rightarrow>
                  if minIndex \<ge> 0 then Some (numberOfBytes, cur, minIndex, numberOfBytesOfFirstItem)
                  else Some (numberOfBytes, numberOfBytesOfFirstItem, 0, numberOfBytesOfFirstItem)))"

fun split_loop :: "int \<Rightarrow> bytes list \<Rightarrow> int \<Rightarrow> int \<times> int \<Rightarrow> int" where
  "split_loop allowed [] index (splitBytes, splitIndex) = splitIndex"
| "split_loop allowed (b # bs) index (splitBytes, splitIndex) =
     (if splitBytes + int (length b) \<le> allowed
      then split_loop allowed bs (index + 1) (splitBytes + int (length b), index) else splitIndex)"

definition computeNumberOfBytesUsingBytesAllowed :: "bytes list \<Rightarrow> int \<Rightarrow> int" where
  "computeNumberOfBytesUsingBytesAllowed bytesList bytesAllowed =
     (if bytesAllowed \<le> 0 then -1 else split_loop bytesAllowed bytesList 0 (0, -1))"

definition FlattenBytesList :: "bytes list \<Rightarrow> bytes" where
  "FlattenBytesList bytesList = fold (\<lambda>b acc. acc @ b) bytesList []"

lemma FlattenBytesList_concat: "FlattenBytesList bl = concat bl"
proof -
  have "fold (\<lambda>b acc. acc @ b) bl acc = acc @ concat bl" for acc by (induction bl arbitrary: acc) auto
  then show ?thesis by (simp add: FlattenBytesList_def)
qed

subsection \<open>The loop\<close>

text \<open>
  What the loop uses: whether the part is running, the throttler, waiting on it, with the event about the wait
  (\<open>None\<close> when nobody wakes the caller), and a single write.  The last component of
  an iteration is the list of requests it handed to the connection, as a ghost log.
\<close>

record 'w writer =
  w_running :: "'w \<Rightarrow> bool"
  w_Throttle :: "int \<Rightarrow> int \<Rightarrow> int \<Rightarrow> 'w \<Rightarrow> (int \<times> int) \<times> 'w"
  w_Wait :: "'w \<Rightarrow> 'w option"
  w_send :: "bytes \<Rightarrow> 'w \<Rightarrow> (goerror option \<times> int) \<times> 'w"

datatype iteration = Return "goerror option \<times> int" | Again "bytes list Stack" "goerror option \<times> int"

text \<open>The requests that could not be sent yet go back on the stack: split at what is allowed now,
  or whole, followed by a wait.\<close>

definition requeue :: "'w writer \<Rightarrow> bytes list \<Rightarrow> int \<Rightarrow> bytes list Stack \<Rightarrow> 'w \<Rightarrow> (bytes list Stack \<times> 'w) option" where
  "requeue W cur bytesAllowed stack w =
     (if cur = [] then Some (stack, w)
      else let splitIndex = computeNumberOfBytesUsingBytesAllowed cur bytesAllowed in
        if splitIndex < 0 then map_option (Pair (Stack_Push cur stack)) (w_Wait W w)
        else let second = (if splitIndex < int (length cur) - 1
                           then Stack_Push (drop (nat splitIndex + 1) cur) stack else stack)
             in Some (Stack_Push (take (nat splitIndex + 1) cur) second, w))"

definition write_iter ::
  "'w writer \<Rightarrow> int \<Rightarrow> bytes list Stack \<Rightarrow> goerror option \<times> int \<Rightarrow> 'w \<Rightarrow> (iteration \<times> 'w \<times> bytes list) option" where
  "write_iter W pct stack ret w =
     (case Stack_Pop stack of
        None \<Rightarrow> None
      | Some (cur, stack1) \<Rightarrow>
          if length cur = 0 then Some (Again stack1 ret, w, [])
          else case computeNumberOfBytes pct cur of
            None \<Rightarrow> None
          | Some (numberOfBytes, minNumberOfBytes, minIndex, numberOfBytesOfFirstItem) \<Rightarrow>
            (case w_Throttle W numberOfBytes minNumberOfBytes numberOfBytesOfFirstItem w of ((bytesCanSend, bytesAllowed), w1) \<Rightarrow>
              if bytesCanSend = numberOfBytes then
                (case w_send W (FlattenBytesList cur) w1 of (er, w2) \<Rightarrow>
                   Some (if fst er \<noteq> None then Return er else Again stack1 er, w2, cur))
              else if bytesCanSend = minNumberOfBytes then
                (case w_send W (FlattenBytesList (take (nat minIndex + 1) cur)) w1 of (er, w2) \<Rightarrow>
                   if fst er \<noteq> None then Some (Return er, w2, take (nat minIndex + 1) cur)
                   else map_option (\<lambda>(stack2, w3). (Again stack2 er, w3, take (nat minIndex + 1) cur))
                          (requeue W (drop (nat minIndex + 1) cur) bytesAllowed stack1 w2))
              else if bytesCanSend = numberOfBytesOfFirstItem then
                (case w_send W (FlattenBytesList (take 1 cur)) w1 of (er, w2) \<Rightarrow>
                   if fst er \<noteq> None then Some (Return er, w2, take 1 cur)
                   else map_option (\<lambda>(stack2, w3). (Again stack2 er, w3, take 1 cur))
                          (requeue W (drop 1 cur) bytesAllowed stack1 w2))
              else map_option (\<lambda>(stack2, w3). (Again stack2 ret, w3, [])) (requeue W cur bytesAllowed stack1 w1)))"

partial_function (option) write_loop ::
  "'w writer \<Rightarrow> int \<Rightarrow> bytes list Stack \<Rightarrow> goerror option \<times> int \<Rightarrow> 'w \<Rightarrow> ((goerror option \<times> int) \<times> 'w \<times> bytes list) option" where
  "write_loop W pct stack ret w =
     (if \<not> w_running W w then Some ((None, 0), w, [])
      else if Stack_Empty stack then Some (ret, w, [])
      else case write_iter W pct stack ret w of
        None \<Rightarrow> None
      | Some (it, w', log) \<Rightarrow>
          (case it of
             Return r \<Rightarrow> Some (r, w', log)
           | Again stack' ret' \<Rightarrow>
               Option.bind (write_loop W pct stack' ret' w') (\<lambda>(r, w'', log'). Some (r, w'', log @ log'))))"

definition writeToClient ::
  "'w writer \<Rightarrow> int \<Rightarrow> bytes list \<Rightarrow> 'w \<Rightarrow> ((goerror option \<times> int) \<times> 'w \<times> bytes list) option" where
  "writeToClient W pct bytesList w =
     (if length bytesList = 0 then Some ((None, 0), w, [])
      else write_loop W pct (Stack_Push bytesList []) (None, 0) w)"



section \<open>What the sizes mean\<close>

lemma min_loop_spec:
  "min_loop target bs i (cur, mi) = (cur', mi') \<Longrightarrow> 0 \<le> i \<Longrightarrow> mi < i \<Longrightarrow>
     (mi' = mi \<and> cur' = cur) \<or> (i \<le> mi' \<and> nat (mi' - i) < length bs \<and> cur' = cur + size_sum (take (nat (mi' - i) + 1) bs))"
proof (induction target bs i "(cur, mi)" arbitrary: cur mi rule: min_loop.induct)
  case (2 target b bs i cur mi)
  show ?case
  proof (cases "cur + int (length b) \<le> target")
    case True
    with "2.prems" have run: "min_loop target bs (i + 1) (cur + int (length b), i) = (cur', mi')" by simp
    have "nat (mi' - i) = Suc (nat (mi' - (i + 1)))" if "i + 1 \<le> mi'" using that "2.prems"(2) by linarith
    then show ?thesis using "2.hyps"[OF True run] "2.prems"(2) by auto
  qed (use "2.prems" in simp)
qed simp

lemma split_loop_spec:
  "split_loop allowed bs i (sb, si) = si' \<Longrightarrow> 0 \<le> i \<Longrightarrow> si < i \<Longrightarrow>
     (si' = si \<and> (bs \<noteq> [] \<longrightarrow> allowed < sb + int (length (hd bs)))) \<or>
     (i \<le> si' \<and> nat (si' - i) < length bs \<and> sb + size_sum (take (nat (si' - i) + 1) bs) \<le> allowed)"
proof (induction allowed bs i "(sb, si)" arbitrary: sb si rule: split_loop.induct)
  case (2 allowed b bs i sb si)
  show ?case
  proof (cases "sb + int (length b) \<le> allowed")
    case True
    with "2.prems" have run: "split_loop allowed bs (i + 1) (sb + int (length b), i) = si'" by simp
    have "nat (si' - i) = Suc (nat (si' - (i + 1)))" if "i + 1 \<le> si'" using that "2.prems"(2) by linarith
    then show ?thesis using "2.hyps"[OF True run] "2.prems"(2) True by auto
  qed (use "2.prems" in simp)
qed simp

lemma computeNumberOfBytes_spec:
  assumes "computeNumberOfBytes pct bl = Some (n, m, mi, f)"
  shows "bl \<noteq> []" "n = size_sum bl" "f = int (length (hd bl))" "m = size_sum (take (nat mi + 1) bl)" "nat mi < length bl" "0 \<le> mi"
    "f \<le> m" "m \<le> n"
proof -
  obtain b bs where bl: "bl = b # bs" using assms by (cases bl) (auto simp: computeNumberOfBytes_def)
  have *: "n = size_sum bl \<and> f = int (length (hd bl)) \<and> m = size_sum (take (nat mi + 1) bl) \<and> nat mi < length bl \<and> 0 \<le> mi"
  proof (cases "length bl = 1")
    case True
    then show ?thesis using assms bl by (auto simp: computeNumberOfBytes_def Let_def)
  next
    case False
    obtain cur mi0 where ml: "min_loop (size_sum bl * pct div 100) bl 0 (0, -1) = (cur, mi0)" by fastforce
    have "(mi0 = -1 \<and> cur = 0) \<or> (0 \<le> mi0 \<and> nat mi0 < length bl \<and> cur = size_sum (take (nat mi0 + 1) bl))"
      using min_loop_spec[OF ml] by auto
    then show ?thesis using assms False ml bl by (auto simp: computeNumberOfBytes_def Let_def split: if_splits)
  qed
  then show "bl \<noteq> []" "n = size_sum bl" "f = int (length (hd bl))" "m = size_sum (take (nat mi + 1) bl)" "nat mi < length bl" "0 \<le> mi"
    using bl by auto
  have "size_sum bl = size_sum (take (nat mi + 1) bl) + size_sum (drop (nat mi + 1) bl)"
    by (metis append_take_drop_id map_append sum_list_append)
  then show "f \<le> m" "m \<le> n" using * bl by (auto intro!: sum_list_nonneg)
qed

lemma computeNumberOfBytes_defined: "bl \<noteq> [] \<Longrightarrow> \<exists>n m mi f. computeNumberOfBytes pct bl = Some (n, m, mi, f)"
  by (cases bl) (auto simp: computeNumberOfBytes_def Let_def split: prod.splits)

lemma split_spec:
  assumes "computeNumberOfBytesUsingBytesAllowed bl a = si" "bl \<noteq> []"
  shows "si < 0 \<Longrightarrow> a \<le> 0 \<or> a < int (length (hd bl))"
    "0 \<le> si \<Longrightarrow> nat si < length bl \<and> size_sum (take (nat si + 1) bl) \<le> a \<and> 0 < a"
  using split_loop_spec[of a bl 0 0 "-1" si] assms
  by (auto simp: computeNumberOfBytesUsingBytesAllowed_def split: if_splits)



section \<open>Nothing is lost, repeated or reordered\<close>

abbreviation pending :: "bytes list Stack \<Rightarrow> bytes list" where
  "pending stack \<equiv> concat (rev stack)"

lemma requeue_pending:
  assumes "requeue W cur a stack w = Some (stack', w')"
  shows "pending stack' = cur @ pending stack"
  using assms by (auto simp: requeue_def Let_def Stack_Push_def split: if_splits)

lemma write_iter_pending:
  assumes "write_iter W pct stack ret w = Some (it, w', log)" "fst ret = None"
  shows "case it of Return r \<Rightarrow> fst r \<noteq> None \<and> (\<exists>rest. pending stack = log @ rest)
                  | Again stack' ret' \<Rightarrow> fst ret' = None \<and> pending stack = log @ pending stack'"
proof -
  obtain cur stack1 where pop: "Stack_Pop stack = Some (cur, stack1)" using assms(1) by (cases "Stack_Pop stack") (auto simp: write_iter_def)
  have st: "pending stack = cur @ pending stack1" using pop by (simp add: Stack_Pop_Some Stack_Push_def)
  show ?thesis
  proof (cases "cur = []")
    case True
    then show ?thesis using assms pop st by (auto simp: write_iter_def)
  next
    case False
    obtain n m mi f where nb: "computeNumberOfBytes pct cur = Some (n, m, mi, f)" using computeNumberOfBytes_defined[OF False] by blast
    obtain c a w1 where th: "w_Throttle W n m f w = ((c, a), w1)" by (metis prod.exhaust)
    note it = assms(1)[unfolded write_iter_def pop option.case prod.case nb th]
    have part: ?thesis if k: "(case w_send W (FlattenBytesList (take k cur)) w1 of (er, w2) \<Rightarrow>
                   if fst er \<noteq> None then Some (Return er, w2, take k cur)
                   else map_option (\<lambda>(stack2, w3). (Again stack2 er, w3, take k cur)) (requeue W (drop k cur) a stack1 w2)) = Some (it, w', log)" for k
    proof -
      have e: "pending stack = take k cur @ (drop k cur @ pending stack1)" using st by simp
      then have "\<exists>rest. pending stack = take k cur @ rest" by blast
      moreover have "pending stack' = drop k cur @ pending stack1 \<Longrightarrow> pending stack = take k cur @ pending stack'" for stack'
        using e by (simp only:)
      ultimately show ?thesis using k by (auto split: prod.splits if_splits dest: requeue_pending)
    qed
    consider "c = n" | "c \<noteq> n" "c = m" | "c \<noteq> n" "c \<noteq> m" "c = f" | "c \<noteq> n" "c \<noteq> m" "c \<noteq> f" by blast
    then show ?thesis
    proof cases
      case 1
      then show ?thesis using it False st by (auto split: prod.splits if_splits)
    next
      case 2
      then show ?thesis using it False by (intro part[of "nat mi + 1"]) simp
    next
      case 3
      then show ?thesis using it False by (intro part[of 1]) simp
    next
      case 4
      then show ?thesis using it False st assms(2) by (auto dest: requeue_pending)
    qed
  qed
qed

lemma write_loop_pending:
  assumes "write_loop W pct stack ret w = Some (res, w', log)" "fst ret = None"
  shows "\<exists>rest. pending stack = log @ rest \<and> (fst res = None \<and> w_running W w' \<longrightarrow> rest = [])"
proof -
  have "fst ret = None \<longrightarrow> (\<exists>rest. pending stack = snd (snd (res, w', log)) @ rest \<and>
      (fst (fst (res, w', log)) = None \<and> w_running W (fst (snd (res, w', log))) \<longrightarrow> rest = []))"
    using assms(1)
  proof (rule write_loop.raw_induct[where P = "\<lambda>W pct stack ret w y. fst ret = None \<longrightarrow>
      (\<exists>rest. pending stack = snd (snd y) @ rest \<and> (fst (fst y) = None \<and> w_running W (fst (snd y)) \<longrightarrow> rest = []))", rotated], goal_cases)
    case (1 loop W pct stack ret w y)
    show ?case
    proof
      assume ret: "fst ret = None"
      show "\<exists>rest. pending stack = snd (snd y) @ rest \<and> (fst (fst y) = None \<and> w_running W (fst (snd y)) \<longrightarrow> rest = [])"
      proof (cases "w_running W w \<and> \<not> Stack_Empty stack")
        case False
        then show ?thesis using 1(2) by (auto simp: Stack_Empty_iff split: if_splits)
      next
        case True
        then obtain it w1 log1 where it: "write_iter W pct stack ret w = Some (it, w1, log1)"
          using 1(2) by (auto split: option.splits if_splits)
        note c = write_iter_pending[OF it ret]
        show ?thesis
        proof (cases it)
          case (Return r)
          then show ?thesis using c 1(2) True it by auto
        next
          case (Again stack' ret')
          obtain y1 where y1: "loop W pct stack' ret' w1 = Some y1" "y = (fst y1, fst (snd y1), log1 @ snd (snd y1))"
            using 1(2) True it Again by (auto simp: Option.bind_eq_Some_conv split: prod.splits)
          from 1(1)[OF y1(1)] c Again obtain rest where "pending stack' = snd (snd y1) @ rest"
            "fst (fst y1) = None \<and> w_running W (fst (snd y1)) \<longrightarrow> rest = []" by auto
          then show ?thesis using c Again y1(2) by auto
        qed
      qed
    qed
  qed
  then show ?thesis using assms(2) by simp
qed



section \<open>The loop ends\<close>

text \<open>
  The contract of a writer on which the loop makes progress.  \<open>quota\<close> is what the
  throttler would allow now and \<open>share\<close> what a wait adds: a request is granted as a
  whole, as its minimum or as its first item, or it is refused and then its minimum
  exceeds the quota and its first item is within the share; after a wait the quota is
  positive, and at least the share if it was positive before.
\<close>

locale progressing_writer =
  fixes W :: "'w writer" and inv :: "'w \<Rightarrow> bool" and quota :: "'w \<Rightarrow> int" and share :: int
  assumes runs: "inv w \<Longrightarrow> w_running W w"
    and sends: "inv w \<Longrightarrow> \<exists>rv w'. w_send W bs w = ((None, rv), w') \<and> inv w'"
    and grants: "inv w \<Longrightarrow> 0 < f \<Longrightarrow> f \<le> m \<Longrightarrow> m \<le> n \<Longrightarrow> w_Throttle W n m f w = ((c, a), w') \<Longrightarrow>
      inv w' \<and> (c \<in> {n, m, f} \<or> c = 0 \<and> a = max 0 (quota w) \<and> quota w' = quota w \<and> quota w < m \<and> (0 < quota w \<longrightarrow> f \<le> share))"
    and waits: "inv w \<Longrightarrow> \<exists>w'. w_Wait W w = Some w' \<and> inv w' \<and> 0 < quota w' \<and> (0 < quota w \<longrightarrow> share \<le> quota w')"
begin

text \<open>The stack holds non-empty pieces of non-empty requests.\<close>

definition stack_ok :: "bytes list Stack \<Rightarrow> bool" where
  "stack_ok stack \<longleftrightarrow> (\<forall>cur\<in>set stack. cur \<noteq> [] \<and> (\<forall>b\<in>set cur. b \<noteq> []))"

text \<open>An iteration sends something, or turns a quota that was used up positive, or one below the first
  request into one above it, or shortens the piece on top of the stack.\<close>

definition rank :: "(bytes list Stack \<times> 'w) rel" where
  "rank = measures [\<lambda>(stack, w). length (pending stack), \<lambda>(stack, w). if quota w \<le> 0 then 1 else 0,
     \<lambda>(stack, w). if stack \<noteq> [] \<and> quota w < int (length (hd (last stack))) then 1 else 0, \<lambda>(stack, w). length (last stack)]"

lemma rank_sent: "length (pending stack') < length (pending stack) \<Longrightarrow> ((stack', w'), (stack, w)) \<in> rank"
  by (simp add: rank_def)

lemma rank_quota:
  "length (pending stack') = length (pending stack) \<Longrightarrow> quota w \<le> 0 \<Longrightarrow> 0 < quota w' \<Longrightarrow> ((stack', w'), (stack, w)) \<in> rank"
  by (simp add: rank_def)

lemma rank_waited:
  "length (pending stack') = length (pending stack) \<Longrightarrow> 0 < quota w \<Longrightarrow> 0 < quota w' \<Longrightarrow> stack \<noteq> [] \<Longrightarrow>
     quota w < int (length (hd (last stack))) \<Longrightarrow> int (length (hd (last stack'))) \<le> quota w' \<Longrightarrow> ((stack', w'), (stack, w)) \<in> rank"
  by (simp add: rank_def)

lemma rank_split:
  "length (pending stack') = length (pending stack) \<Longrightarrow> 0 < quota w \<Longrightarrow> quota w' = quota w \<Longrightarrow> stack \<noteq> [] \<Longrightarrow> stack' \<noteq> [] \<Longrightarrow>
     hd (last stack') = hd (last stack) \<Longrightarrow> length (last stack') < length (last stack) \<Longrightarrow> ((stack', w'), (stack, w)) \<in> rank"
  by (simp add: rank_def)

lemma stack_ok_Push: "stack_ok (Stack_Push cur stack) \<longleftrightarrow> cur \<noteq> [] \<and> (\<forall>b\<in>set cur. b \<noteq> []) \<and> stack_ok stack"
  by (auto simp: stack_ok_def Stack_Push_def)

lemma requeue_ok:
  assumes "inv w" "stack_ok stack" "\<forall>b\<in>set cur. b \<noteq> []"
  shows "\<exists>stack' w'. requeue W cur a stack w = Some (stack', w') \<and> inv w' \<and> stack_ok stack' \<and> pending stack' = cur @ pending stack"
proof (cases "cur = [] \<or> 0 \<le> computeNumberOfBytesUsingBytesAllowed cur a")
  case True
  let ?si = "computeNumberOfBytesUsingBytesAllowed cur a"
  let ?second = "if ?si < int (length cur) - 1 then Stack_Push (drop (nat ?si + 1) cur) stack else stack"
  have parts: "\<forall>b\<in>set (take k cur). b \<noteq> []" "\<forall>b\<in>set (drop k cur). b \<noteq> []" for k
    using assms(3) set_take_subset[of k cur] set_drop_subset[of k cur] by blast+
  have "\<exists>stack'. requeue W cur a stack w = Some (stack', w) \<and> stack_ok stack'"
  proof (cases "cur = []")
    case True
    then show ?thesis using assms(2) by (simp add: requeue_def)
  next
    case False
    have "drop (nat ?si + 1) cur \<noteq> []" if "?si < int (length cur) - 1" using that True False by simp
    then have "stack_ok ?second" unfolding stack_ok_Push using assms(2) parts(2)[of "nat ?si + 1"] by (auto simp only: stack_ok_Push split: if_split)
    moreover have "take (nat ?si + 1) cur \<noteq> []" using False by simp
    ultimately have "stack_ok (Stack_Push (take (nat ?si + 1) cur) ?second)" unfolding stack_ok_Push using parts(1) by blast
    moreover have "\<not> ?si < 0" using True False by simp
    then have "requeue W cur a stack w = Some (Stack_Push (take (nat ?si + 1) cur) ?second, w)"
      unfolding requeue_def Let_def if_not_P[OF False] by (simp only: if_False)
    ultimately show ?thesis by blast
  qed
  then obtain stack' where r: "requeue W cur a stack w = Some (stack', w)" "stack_ok stack'" by (elim exE conjE)
  then show ?thesis using assms(1) requeue_pending[OF r(1)] by (intro exI conjI)
next
  case False
  obtain w' where "w_Wait W w = Some w'" "inv w'" using waits[OF assms(1)] by blast
  then have r: "requeue W cur a stack w = Some (Stack_Push cur stack, w')" using False by (simp add: requeue_def)
  have "stack_ok (Stack_Push cur stack)" using False assms(2,3) by (simp add: stack_ok_Push)
  then show ?thesis using \<open>inv w'\<close> r requeue_pending[OF r] by (intro exI conjI)
qed

lemma iteration_progress:
  assumes "inv w" "stack_ok stack" "stack \<noteq> []" "fst ret = None"
  shows "\<exists>stack' ret' w' log. write_iter W pct stack ret w = Some (Again stack' ret', w', log) \<and>
     fst ret' = None \<and> inv w' \<and> stack_ok stack' \<and> ((stack', w'), (stack, w)) \<in> rank"
proof -
  obtain cur stack1 where st: "stack = Stack_Push cur stack1" using assms(3) by (cases stack rule: rev_cases) (auto simp: Stack_Push_def)
  have ok: "cur \<noteq> []" "\<forall>b\<in>set cur. b \<noteq> []" "stack_ok stack1" using assms(2) by (auto simp: st stack_ok_def Stack_Push_def)
  obtain n m mi f where nb: "computeNumberOfBytes pct cur = Some (n, m, mi, f)" using computeNumberOfBytes_defined[OF ok(1)] by blast
  note sp = computeNumberOfBytes_spec[OF nb]
  have f: "0 < f" using sp(3) ok by simp
  obtain c a w1 where th: "w_Throttle W n m f w = ((c, a), w1)" by (metis prod.exhaust)
  note g = grants[OF assms(1) f sp(7,8) th]
  have sent: "\<exists>stack' w3. requeue W (drop k cur) a stack1 w2 = Some (stack', w3) \<and> inv w3 \<and> stack_ok stack' \<and> ((stack', w3), (stack, w)) \<in> rank"
    if k: "0 < k" "inv w2" for k w2
  proof -
    obtain stack' w3 where r: "requeue W (drop k cur) a stack1 w2 = Some (stack', w3)" "inv w3" "stack_ok stack'"
      "pending stack' = drop k cur @ pending stack1"
      using requeue_ok[OF k(2) ok(3), of "drop k cur" a] ok(2) by (auto dest: in_set_dropD)
    have "length (pending stack') < length (pending stack)" using r(4) k(1) ok(1) by (simp add: st Stack_Push_def)
    then show ?thesis using r rank_sent by blast
  qed
  note step = write_iter_def[of W pct stack ret w, unfolded st stack_laws option.case prod.case nb th]
  show ?thesis
  proof (cases "c \<in> {n, m, f}")
    case True
    obtain rv w2 where s: "\<And>k. \<exists>rv w2. w_send W (FlattenBytesList (take k cur)) w1 = ((None, rv), w2) \<and> inv w2"
      using sends g by blast
    consider "c = n" | "c \<noteq> n" "c = m" | "c \<noteq> n" "c \<noteq> m" "c = f" using True by blast
    then show ?thesis
    proof cases
      case 1
      obtain rv w2 where "w_send W (FlattenBytesList cur) w1 = ((None, rv), w2)" "inv w2" using s[of "length cur"] by auto
      moreover have "length (pending stack1) < length (pending stack)" using ok(1) by (simp add: st Stack_Push_def)
      ultimately show ?thesis using 1 step ok rank_sent by (simp add: st)
    next
      case 2
      obtain rv w2 where sd: "w_send W (FlattenBytesList (take (nat mi + 1) cur)) w1 = ((None, rv), w2)" "inv w2" using s by blast
      from sent[OF _ sd(2), of "nat mi + 1"] 2 step ok sd show ?thesis by (auto simp: st)
    next
      case 3
      obtain rv w2 where sd: "w_send W (FlattenBytesList (take 1 cur)) w1 = ((None, rv), w2)" "inv w2" using s by blast
      from sent[OF _ sd(2), of 1] 3 step ok sd show ?thesis by (auto simp: st)
    qed
  next
    case False
    then have refused: "c = 0" "a = max 0 (quota w)" "quota w1 = quota w" "quota w < m" "0 < quota w \<longrightarrow> f \<le> share" "inv w1"
      using g by auto
    have it: "write_iter W pct stack ret w = map_option (\<lambda>(stack2, w3). (Again stack2 ret, w3, [])) (requeue W cur a stack1 w1)"
      using step False ok(1) by (simp add: st)
    let ?si = "computeNumberOfBytesUsingBytesAllowed cur a"
    obtain stack' w' where r: "requeue W cur a stack1 w1 = Some (stack', w')" "inv w'" "stack_ok stack'"
      "pending stack' = cur @ pending stack1" using requeue_ok[OF refused(6) ok(3,2)] by blast
    have same: "length (pending stack') = length (pending stack)" using r(4) by (simp add: st Stack_Push_def)
    have "((stack', w'), (stack, w)) \<in> rank"
    proof (cases "0 \<le> ?si")
      case True
      note si = split_spec(2)[OF refl ok(1) True]
      have q: "0 < quota w" "a = quota w" using si refused(2) by auto
      have "stack' = Stack_Push (take (nat ?si + 1) cur) (if ?si < int (length cur) - 1 then Stack_Push (drop (nat ?si + 1) cur) stack1 else stack1)"
        "w' = w1" using r(1) True ok(1) by (auto simp: requeue_def Let_def)
      moreover have "size_sum (take (nat ?si + 1) cur) < size_sum cur" using si q refused(4) sp(2,8) by linarith
      then have "nat ?si + 1 < length cur" by (metis linorder_not_le take_all less_irrefl)
      moreover have "hd (take (nat ?si + 1) cur) = hd cur" by simp
      ultimately show ?thesis using same refused(3) q by (intro rank_split) (simp_all add: st Stack_Push_def)
    next
      case False
      have fit: "a \<le> 0 \<or> a < f" using split_spec(1)[OF refl ok(1), of a] False sp(3) by simp
      have st': "stack' = Stack_Push cur stack1" "w_Wait W w1 = Some w'" using r(1) False ok(1) by (auto simp: requeue_def Let_def)
      have q': "0 < quota w'" "0 < quota w \<longrightarrow> share \<le> quota w'" using waits[OF refused(6)] st'(2) refused(3) by auto
      show ?thesis
      proof (cases "0 < quota w")
        case True
        then have "quota w < f" using fit refused(2) by simp
        moreover have "f \<le> quota w'" using True refused(5) q' by auto
        ultimately show ?thesis using True q' same sp(3) by (intro rank_waited) (simp_all add: st st' Stack_Push_def)
      next
        case False
        then show ?thesis using q' same by (intro rank_quota) simp_all
      qed
    qed
    then show ?thesis using it r assms(4) by auto
  qed
qed

lemma write_loop_ends:
  assumes "inv w" "stack_ok stack" "fst ret = None"
  shows "\<exists>rv w' log. write_loop W pct stack ret w = Some ((None, rv), w', log) \<and> inv w'"
proof -
  have "wf rank" by (simp add: rank_def)
  then have "\<forall>ret. inv (snd p) \<and> stack_ok (fst p) \<and> fst ret = None \<longrightarrow>
    (\<exists>rv w' log. write_loop W pct (fst p) ret (snd p) = Some ((None, rv), w', log) \<and> inv w')" for p
  proof (induction p rule: wf_induct_rule)
    case (less p)
    obtain stack w where p: "p = (stack, w)" by fastforce
    show ?case
    proof (intro allI impI)
      fix ret :: "goerror option \<times> int"
      assume h: "inv (snd p) \<and> stack_ok (fst p) \<and> fst ret = None"
      show "\<exists>rv w' log. write_loop W pct (fst p) ret (snd p) = Some ((None, rv), w', log) \<and> inv w'"
      proof (cases "stack = []")
        case True
        then show ?thesis using h runs by (subst write_loop.simps) (cases ret, simp add: p)
      next
        case False
        have pre: "inv w" "stack_ok stack" "fst ret = None" using h by (auto simp: p)
        from iteration_progress[OF pre(1,2) False pre(3), of pct]
        obtain stack' ret' w' log where it: "write_iter W pct stack ret w = Some (Again stack' ret', w', log)"
          "fst ret' = None" "inv w'" "stack_ok stack'" "((stack', w'), p) \<in> rank" unfolding p by blast
        from less[OF it(5), THEN spec, of ret'] it(2-4) obtain rv w'' log' where
          "write_loop W pct stack' ret' w' = Some ((None, rv), w'', log')" "inv w''" by auto
        then show ?thesis using it(1) False runs[OF pre(1)]
          by (subst write_loop.simps) (auto simp: p Stack_Empty_iff)
      qed
    qed
  qed
  from this[of "(stack, w)", THEN spec, of ret] assms show ?thesis by auto
qed

lemma write_ends:
  assumes "inv w" "\<forall>b\<in>set bl. b \<noteq> []"
  shows "\<exists>rv w'. writeToClient W pct bl w = Some ((None, rv), w', bl) \<and> inv w'"
proof (cases "bl = []")
  case True
  then show ?thesis using assms by (simp add: writeToClient_def)
next
  case False
  have "stack_ok (Stack_Push bl [])" using False assms by (simp add: stack_ok_def Stack_Push_def)
  from write_loop_ends[OF assms(1) this, of "(None, 0)" pct] obtain rv w' log where
    l: "write_loop W pct (Stack_Push bl []) (None, 0) w = Some ((None, rv), w', log)" "inv w'" by auto
  from write_loop_pending[OF l(1)] runs[OF l(2)] have "log = bl" by (simp add: Stack_Push_def)
  with l False show ?thesis by (simp add: writeToClient_def)
qed

end



section \<open>Writing with the bandwidth throttler\<close>

text \<open>Waiting on the throttler: time slots pass until one leaves a positive quota and wakes the waiters.\<close>

partial_function (option) bw_Wait :: "int \<Rightarrow> BandwidthThrottler \<Rightarrow> BandwidthThrottler option" where
  "bw_Wait slots t = (case bw_updateOnce slots t of (t', woken) \<Rightarrow> if woken then Some t' else bw_Wait slots t')"

lemma bw_Wait_ends:
  assumes "0 < bandwidth_limit t div slots" "bandwidth_limit t div slots \<le> bandwidth_limit t"
  shows "\<exists>t'. bw_Wait slots t = Some t' \<and> bandwidth_limit t' = bandwidth_limit t \<and> 0 < bandwidth_usage_quota t' \<and>
    (0 < bandwidth_usage_quota t \<longrightarrow> bandwidth_limit t div slots \<le> bandwidth_usage_quota t')"
  using assms
proof (induction "nat (- bandwidth_usage_quota t)" arbitrary: t rule: less_induct)
  case less
  let ?p = "bandwidth_limit t div slots"
  let ?t' = "fst (bw_updateOnce slots t)"
  have t': "bandwidth_limit ?t' = bandwidth_limit t" "bandwidth_usage_quota ?t' = min (bandwidth_limit t) (bandwidth_usage_quota t + ?p)"
    by (simp_all add: bw_updateOnce_def Let_def min_def)
  have w: "snd (bw_updateOnce slots t) = (0 < bandwidth_usage_quota ?t')" by (simp add: bw_updateOnce_def Let_def)
  show ?case
  proof (cases "0 < bandwidth_usage_quota ?t'")
    case True
    then have "bw_Wait slots t = Some ?t'" using w by (subst bw_Wait.simps) (simp add: case_prod_unfold)
    then show ?thesis using True t' less.prems by auto
  next
    case False
    have lim: "0 < bandwidth_limit t" using less.prems by linarith
    have "nat (- bandwidth_usage_quota ?t') < nat (- bandwidth_usage_quota t)" using False t' less.prems lim by linarith
    from less.hyps[OF this] t' less.prems obtain t'' where t'': "bw_Wait slots ?t' = Some t''" "bandwidth_limit t'' = bandwidth_limit t"
      "0 < bandwidth_usage_quota t''" by auto
    have "bw_Wait slots t = bw_Wait slots ?t'" using w False by (subst bw_Wait.simps) (simp add: case_prod_unfold)
    moreover have "\<not> 0 < bandwidth_usage_quota t" using False t' less.prems lim by linarith
    ultimately show ?thesis using t'' by simp
  qed
qed

text \<open>The writer of the nozzle: the throttler and the client are the state.\<close>

definition bandwidth_writer ::
  "int \<Rightarrow> ('c \<Rightarrow> bytes \<Rightarrow> nat \<times> neterror option) \<Rightarrow> PartState \<Rightarrow> int \<Rightarrow> (BandwidthThrottler \<times> 'c xmemClient) writer" where
  "bandwidth_writer slots conn_Write st now =
     \<lparr>w_running = (\<lambda>_. validateRunningState st = None),
      w_Throttle = (\<lambda>n m f (t, c). case Throttle slots n m f t of (r, t') \<Rightarrow> (r, t', c)),
      w_Wait = (\<lambda>(t, c). map_option (\<lambda>t'. (t', c)) (bw_Wait slots t)),
      w_send = (\<lambda>bs (t, c). case writeToClientWithoutThrottling conn_Write st now bs c of (r, _, c') \<Rightarrow> (r, t, c'))\<rparr>"

text \<open>The states in which the writer makes progress: the throttler has a limit of at least a byte per
  slot, and the connection is up and takes what is written.\<close>

definition writer_inv :: "int \<Rightarrow> ('c \<Rightarrow> bytes \<Rightarrow> nat \<times> neterror option) \<Rightarrow> int \<Rightarrow> BandwidthThrottler \<times> 'c xmemClient \<Rightarrow> bool" where
  "writer_inv slots conn_Write limit w \<longleftrightarrow> (\<forall>conn bs. snd (conn_Write conn bs) = None) \<and> 0 < slots \<and> 0 < limit div slots \<and>
     bandwidth_limit (fst w) = limit \<and> memClient (snd w) \<noteq> None \<and> healthy (snd w)"

lemma send_succeeds:
  assumes "memClient c \<noteq> None" "healthy c" "\<forall>conn bs. snd (conn_Write conn bs) = None"
  shows "\<exists>c'. writeToClientWithoutThrottling conn_Write Part_Running now bs c = ((None, num_of_repairs c), False, c') \<and>
    memClient c' \<noteq> None \<and> healthy c'"
proof -
  obtain conn where conn: "memClient c = Some conn" using assms(1) by blast
  obtain n where "conn_Write conn bs = (n, None)" using assms(3) by (metis prod.collapse)
  then show ?thesis using conn assms(2)
    by (simp add: writeToClientWithoutThrottling_def validateRunningState_def client_getConn_def reportOpSuccess_def Let_def)
qed

lemma div_le_self: "0 < limit div slots \<Longrightarrow> 0 < slots \<Longrightarrow> limit div slots \<le> (limit :: int)"
  by (smt (verit) int_div_less_self div_by_1 pos_imp_zdiv_pos_iff zero_less_one)

interpretation bw: progressing_writer "bandwidth_writer slots conn_Write Part_Running now" "writer_inv slots conn_Write limit"
  "\<lambda>w. bandwidth_usage_quota (fst w)" "limit div slots" for slots conn_Write now limit
proof (unfold_locales, goal_cases)
  case (1 w)
  then show ?case by (simp add: bandwidth_writer_def validateRunningState_def)
next
  case (2 w bs)
  obtain t c where w: "w = (t, c)" by fastforce
  from 2 obtain c' where "writeToClientWithoutThrottling conn_Write Part_Running now bs c = ((None, num_of_repairs c), False, c')"
    "memClient c' \<noteq> None" "healthy c'" using send_succeeds[of c conn_Write now bs] by (auto simp: writer_inv_def w)
  then show ?case using 2 by (simp add: bandwidth_writer_def writer_inv_def w)
next
  case (3 w f m n c a w')
  obtain t cl where w: "w = (t, cl)" by fastforce
  obtain t' where th: "Throttle slots n m f t = ((c, a), t')" "w' = (t', cl)"
    using 3(5) by (auto simp: bandwidth_writer_def w split: prod.splits)
  have lim: "bandwidth_limit t = limit" "0 < bandwidth_limit t"
    using 3(1) div_le_self[of limit slots] by (auto simp: writer_inv_def w)
  from th(1) lim(2) show ?case
    by (cases rule: Throttle_cases) (use 3(1-4) lim in \<open>auto simp: writer_inv_def w th(2)\<close>)
next
  case (4 w)
  obtain t c where w: "w = (t, c)" by fastforce
  from 4 have "0 < bandwidth_limit t div slots" "bandwidth_limit t div slots \<le> bandwidth_limit t"
    using div_le_self[of limit slots] by (auto simp: writer_inv_def w)
  from bw_Wait_ends[OF this] 4 show ?case by (auto simp: bandwidth_writer_def writer_inv_def w)
qed

lemma write_unthrottled:
  assumes "bandwidth_limit t = 0" "memClient c \<noteq> None" "healthy c" "\<forall>conn bs. snd (conn_Write conn bs) = None" "bl \<noteq> []"
  shows "\<exists>w'. writeToClient (bandwidth_writer slots conn_Write Part_Running now) pct bl (t, c) = Some ((None, num_of_repairs c), w', bl)"
proof -
  let ?W = "bandwidth_writer slots conn_Write Part_Running now"
  obtain n m mi f where nb: "computeNumberOfBytes pct bl = Some (n, m, mi, f)" using computeNumberOfBytes_defined[OF assms(5)] by blast
  obtain c' where s: "writeToClientWithoutThrottling conn_Write Part_Running now (FlattenBytesList bl) c = ((None, num_of_repairs c), False, c')"
    using send_succeeds[OF assms(2-4)] by blast
  have it: "write_iter ?W pct (Stack_Push bl []) (None, 0) (t, c) = Some (Again [] (None, num_of_repairs c), (t, c'), bl)"
    using assms(1,5) nb s by (simp add: write_iter_def bandwidth_writer_def Throttle_def Throttle_with_def)
  have r: "w_running ?W w" for w by (simp add: bandwidth_writer_def validateRunningState_def)
  have e: "write_loop ?W pct [] (None, num_of_repairs c) (t, c') = Some ((None, num_of_repairs c), (t, c'), [])"
    using r by (subst write_loop.simps) simp
  have "write_loop ?W pct (Stack_Push bl []) (None, 0) (t, c) = Some ((None, num_of_repairs c), (t, c'), bl)"
    using r it e by (subst write_loop.simps) simp
  then show ?thesis using assms(5) by (simp add: writeToClient_def)
qed


section \<open>Properties of writing\<close>







section \<open>Repairs\<close>

text \<open>What goroutines do to a client; a repair carries the new connection, the revision at which the
  caller saw the failure, and the time.\<close>

datatype 'c client_op = OpFailure bool int | OpSuccess | Repair 'c int int | Unhealthy | BackOff

fun client_run :: "'c client_op list \<Rightarrow> 'c xmemClient \<Rightarrow> int list \<times> 'c xmemClient" where
  "client_run [] c = ([], c)"
| "client_run (OpFailure readOp now # ops) c = client_run ops (reportOpFailure readOp now c)"
| "client_run (OpSuccess # ops) c = client_run ops (reportOpSuccess c)"
| "client_run (Unhealthy # ops) c = client_run ops (markConnUnhealthy c)"
| "client_run (BackOff # ops) c = client_run ops (incrementBackOffFactor c)"
| "client_run (Repair conn seen now # ops) c =
     (case client_repairConn conn seen now c of (fixed, c1) \<Rightarrow>
        case client_run ops c1 of (rs, c2) \<Rightarrow> (if fixed then seen # rs else rs, c2))"

lemma client_op_frames:
  "num_of_repairs (reportOpFailure readOp now c) = num_of_repairs c" "last_failure (reportOpFailure readOp now c) = last_failure c"
  "num_of_repairs (reportOpSuccess c) = num_of_repairs c" "last_failure (reportOpSuccess c) = last_failure c"
  "num_of_repairs (markConnUnhealthy c) = num_of_repairs c" "last_failure (markConnUnhealthy c) = last_failure c"
  "num_of_repairs (incrementBackOffFactor c) = num_of_repairs c" "last_failure (incrementBackOffFactor c) = last_failure c"
  by (simp_all add: reportOpFailure_def reportOpSuccess_def markConnUnhealthy_def incrementBackOffFactor_def Let_def)

lemma client_repairConn_simps:
  "client_repairConn conn seen now c =
     (if num_of_repairs c = seen
      then (True, c\<lparr>backoff_factor := (if last_failure c \<noteq> None \<and> now - the (last_failure c) < one_minute then backoff_factor c + 1 else 0),
                  memClient := Some conn, continuous_write_failure_counter := 0, num_of_repairs := num_of_repairs c + 1, healthy := True\<rparr>)
      else (False, c))"
  by (auto simp: client_repairConn_def Let_def split: option.splits)

lemma client_run_spec:
  "client_run ops c = (rs, c') \<Longrightarrow> rs = [num_of_repairs c .. num_of_repairs c' - 1] \<and> num_of_repairs c \<le> num_of_repairs c' \<and> last_failure c' = last_failure c"
proof (induction ops c arbitrary: rs rule: client_run.induct)
  case (6 conn seen now ops c)
  obtain fixed c1 where d: "client_repairConn conn seen now c = (fixed, c1)" by fastforce
  obtain rs1 where r: "client_run ops c1 = (rs1, c')" "rs = (if fixed then seen # rs1 else rs1)"
    using "6.prems" d by (auto split: prod.splits)
  note ih = "6.IH"[OF d[symmetric] r(1)]
  show ?case
  proof (cases "num_of_repairs c = seen")
    case True
    then have c1: "fixed" "num_of_repairs c1 = num_of_repairs c + 1" "last_failure c1 = last_failure c"
      using d by (auto simp: client_repairConn_simps)
    then have "rs = num_of_repairs c # [num_of_repairs c + 1 .. num_of_repairs c' - 1]" using ih r(2) True by simp
    also have "\<dots> = [num_of_repairs c .. num_of_repairs c' - 1]" using ih c1 by (subst (2) upto.simps) simp
    finally show ?thesis using ih c1 by simp
  next
    case False
    then have "\<not> fixed" "c1 = c" using d by (auto simp: client_repairConn_simps)
    then show ?thesis using ih r(2) by simp
  qed
qed (auto simp: client_op_frames)

text \<open>C38. A broken connection is replaced once however many goroutines report it: the repairs that are
  carried out are for consecutive revisions, each exactly once.  And no repair makes the client
  back off: the time of the last failure is never recorded, so every repair sets the back-off
  factor to zero.\<close>

theorem repairs_once_no_backoff:
  assumes "client_run ops (newXmemClient conn mf md) = (repaired, c)"
  shows "repaired = [0 .. num_of_repairs c - 1] \<and> distinct repaired \<and>
    (\<forall>conn' seen now c'. client_repairConn conn' seen now c = (True, c') \<longrightarrow> backoff_factor c' = 0)"
proof -
  note s = client_run_spec[OF assms]
  then have "last_failure c = None" by (simp add: newXmemClient_def)
  then have "\<forall>conn' seen now c'. client_repairConn conn' seen now c = (True, c') \<longrightarrow> backoff_factor c' = 0"
    by (auto simp: client_repairConn_simps split: if_splits)
  then show ?thesis using s by (simp add: newXmemClient_def)
qed

theorem repairs_once_no_backoff_witness:
  "\<exists>c. client_run [BackOff, Repair (1::nat) 0 5, Repair 2 0 6, OpFailure False 7, Repair 3 1 8] (newXmemClient (Some 0) 3 100) = ([0, 1], c) \<and>
     num_of_repairs c = 2 \<and> backoff_factor (snd (client_repairConn 4 2 9 c)) = 0"
proof -
  let ?ops = "[BackOff, Repair (1::nat) 0 5, Repair 2 0 6, OpFailure False 7, Repair 3 1 8]"
  have "fst (client_run ?ops (newXmemClient (Some 0) 3 100)) = [0, 1]"
    "num_of_repairs (snd (client_run ?ops (newXmemClient (Some 0) 3 100))) = 2"
    by (simp_all add: newXmemClient_def client_repairConn_simps client_op_frames incrementBackOffFactor_def reportOpFailure_def Let_def)
  then obtain c where r: "client_run ?ops (newXmemClient (Some 0) 3 100) = ([0, 1], c)" "num_of_repairs c = 2"
    by (metis prod.collapse)
  have "client_repairConn 4 2 9 c = (True, snd (client_repairConn 4 2 9 c))" using r(2) by (simp add: client_repairConn_simps)
  with repairs_once_no_backoff[OF r(1)] r show ?thesis by blast
qed

end
