(* ===== verification/Xmem_Nozzle.thy ===== *)
theory Xmem_Nozzle
  imports Xmem_Buffer Xmem_Client
begin

text \<open>
  The xmem nozzle, \<open>parts/xmem_nozzle.go\<close>: accepting requests into the data channel
  and the current batch, sending a batch, handling a response, and resending.

  The nozzle's goroutines share the state below.  An operation is atomic up to the
  points where the code releases a lock to write to the connection: a resend is two
  operations, before and after the write.  What the connections deliver is an
  argument; the size of a request, computed by the memcached library, is the
  parameter \<open>reqSize\<close>.
\<close>


section \<open>State\<close>

datatype xmem_event =
    DataSent seqno vbno CommandCode bool
  | DataFailedCRSource seqno vbno CommandCode bool
  | VBErrorEncountered vbno
  | ErrorEncountered goerror

datatype CompressionType = CompressionTypeNone | CompressionTypeSnappy

record 'c XmemNozzle =
  xm_state :: PartState
  bOpen :: bool
  xm_buf :: requestBuffer
  xm_batch :: dataBatch
  batches_ready_queue :: "dataBatch list"
  ready_cap :: nat
  dataChan :: "WrappedMCRequest list"
  dataChan_cap :: nat
  bytes_in_dataChan :: int
  dataChan_control :: bool
  counter_received :: nat
  counter_sent :: nat
  cur_batch_count :: uint32
  client_for_setMeta :: "'c xmemClient"
  xattrEnabled :: bool
  compressionSetting :: CompressionType
  xm_events :: "xmem_event list"
  recycled :: "WrappedMCRequest list"
  resend_all :: nat
  last_ten_batches_size :: "uint32 list"

text \<open>\<open>resend_all\<close> counts the goroutines started to resend what is in the buffer after a repair.\<close>

definition raise :: "xmem_event list \<Rightarrow> 'c XmemNozzle \<Rightarrow> 'c XmemNozzle" where
  "raise evs xmem = xmem\<lparr>xm_events := xm_events xmem @ evs\<rparr>"

definition xmem_handleGeneralError :: "goerror \<Rightarrow> 'c XmemNozzle \<Rightarrow> 'c XmemNozzle" where
  "xmem_handleGeneralError err xmem =
     (case handleGeneralError err (xm_state xmem) of (st, evs) \<Rightarrow> raise (map ErrorEncountered evs) (xmem\<lparr>xm_state := st\<rparr>))"

definition handleVBError :: "vbno \<Rightarrow> 'c XmemNozzle \<Rightarrow> 'c XmemNozzle" where
  "handleVBError vb xmem = raise [VBErrorEncountered vb] xmem"

definition recycleDataObj :: "WrappedMCRequest \<Rightarrow> 'c XmemNozzle \<Rightarrow> 'c XmemNozzle" where
  "recycleDataObj req xmem = xmem\<lparr>recycled := recycled xmem @ [req]\<rparr>"

definition xmem_Open :: "'c XmemNozzle \<Rightarrow> 'c XmemNozzle" where
  "xmem_Open xmem = (if \<not> bOpen xmem then xmem\<lparr>bOpen := True\<rparr> else xmem)"

definition xmem_Close :: "'c XmemNozzle \<Rightarrow> 'c XmemNozzle" where
  "xmem_Close xmem = (if bOpen xmem then xmem\<lparr>bOpen := False\<rparr> else xmem)"


section \<open>The data channel\<close>

definition dataChanControl :: "int \<Rightarrow> 'c XmemNozzle \<Rightarrow> 'c XmemNozzle" where
  "dataChanControl maxSize xmem =
     (if bytes_in_dataChan xmem < maxSize then xmem\<lparr>dataChan_control := True\<rparr> else xmem)"

text \<open>A write takes the control token and needs room in the channel; a stopped part gives it up.\<close>

definition writeToDataChan ::
  "(MCRequest \<Rightarrow> nat) \<Rightarrow> int \<Rightarrow> WrappedMCRequest \<Rightarrow> 'c XmemNozzle \<Rightarrow> (goerror option \<times> 'c XmemNozzle) outcome" where
  "writeToDataChan reqSize maxSize item xmem =
     (if dataChan_control xmem \<and> length (dataChan xmem) < dataChan_cap xmem then
        Done (None, dataChanControl maxSize (xmem\<lparr>dataChan_control := False, dataChan := dataChan xmem @ [item],
                                   bytes_in_dataChan := bytes_in_dataChan xmem + int (reqSize (Req item))\<rparr>))
      else if fin_closed (xm_buf xmem) then Done (Some PartStoppedError, xmem)
      else Blocks)"

definition readFromDataChan ::
  "(MCRequest \<Rightarrow> nat) \<Rightarrow> int \<Rightarrow> 'c XmemNozzle \<Rightarrow> ((goerror + WrappedMCRequest) \<times> 'c XmemNozzle) outcome" where
  "readFromDataChan reqSize maxSize xmem =
     (case dataChan xmem of
        item # rest \<Rightarrow>
          Done (Inr item, dataChanControl maxSize (xmem\<lparr>dataChan := rest, bytes_in_dataChan := bytes_in_dataChan xmem - int (reqSize (Req item))\<rparr>))
      | [] \<Rightarrow> if fin_closed (xm_buf xmem) then Done (Inl PartStoppedError, xmem) else Blocks)"


section \<open>Accepting requests\<close>

definition initNewBatch :: "uint32 \<Rightarrow> uint32 \<Rightarrow> 'c XmemNozzle \<Rightarrow> 'c XmemNozzle" where
  "initNewBatch maxCount maxSize xmem = xmem\<lparr>xm_batch := newBatch maxCount maxSize, cur_batch_count := 0\<rparr>"

definition batchReady :: "uint32 \<Rightarrow> uint32 \<Rightarrow> 'c XmemNozzle \<Rightarrow> (goerror option \<times> 'c XmemNozzle) outcome" where
  "batchReady maxCount maxSize xmem =
     (if curCount (xm_batch xmem) > 0 then
        if length (batches_ready_queue xmem) < ready_cap xmem then
          Done (None, initNewBatch maxCount maxSize (xmem\<lparr>batches_ready_queue := batches_ready_queue xmem @ [xm_batch xmem]\<rparr>))
        else if fin_closed (xm_buf xmem) then Done (Some PartStoppedError, xmem)
        else Blocks
      else Done (None, xmem))"

definition EmptyKeyError :: goerror where
  "EmptyKeyError = Formatted ''accumuBatch received request with Empty key''"

text \<open>
  \<open>cfg\<close> is the configuration the operations read: batch limits, the size limit of the
  data channel and the threshold for optimistic replication.  When the batch is full
  and the queue of ready batches has no room, the call blocks with the request already
  accepted; this is the second component of the result.
\<close>

record xmem_config =
  maxCount :: uint32
  maxSize :: uint32
  maxDataChanSize :: int
  optiRepThreshold :: uint32

definition xmem_accumuBatch ::
  "(MCRequest \<Rightarrow> nat) \<Rightarrow> xmem_config \<Rightarrow> WrappedMCRequest \<Rightarrow> 'c XmemNozzle \<Rightarrow> (goerror option \<times> 'c XmemNozzle) outcome \<times> 'c XmemNozzle option" where
  "xmem_accumuBatch reqSize cfg request xmem =
     (if Key (Req request) = [] then (Done (Some EmptyKeyError, xmem), None)
      else case writeToDataChan reqSize (maxDataChanSize cfg) request xmem of
        Blocks \<Rightarrow> (Blocks, None)
      | Panics \<Rightarrow> (Panics, None)
      | Done (Some e, x1) \<Rightarrow> (Done (Some e, x1), None)
      | Done (None, x1) \<Rightarrow>
          let x2 = x1\<lparr>counter_received := counter_received x1 + 1\<rparr> in
          case accumuBatch reqSize (optimisticRep reqSize (optiRepThreshold cfg)) (Some request) (xm_batch x2) of
            (b, Inl e) \<Rightarrow> (Done (Some e, x2), None)
          | (b, Inr (cnt, _, isFull)) \<Rightarrow>
              let x3 = x2\<lparr>xm_batch := b, cur_batch_count := (if cnt > 0 then cnt else cur_batch_count x2)\<rparr> in
              if isFull then (batchReady (maxCount cfg) (maxSize cfg) x3, Some x3) else (Done (None, x3), Some x3))"

text \<open>\<open>Receive\<close>; the request that came in through the data interface has the right type.\<close>

definition xmem_Receive ::
  "(MCRequest \<Rightarrow> nat) \<Rightarrow> xmem_config \<Rightarrow> WrappedMCRequest \<Rightarrow> 'c XmemNozzle \<Rightarrow> (goerror option \<times> 'c XmemNozzle) outcome" where
  "xmem_Receive reqSize cfg request xmem =
     (case validateRunningState (xm_state xmem) of
        Some e \<Rightarrow> Done (Some e, xmem)
      | None \<Rightarrow>
          (case fst (xmem_accumuBatch reqSize cfg request xmem) of
             Done (Some e, x1) \<Rightarrow> Done (Some e, xmem_handleGeneralError e x1)
           | out \<Rightarrow> out))"


section \<open>Sending a batch\<close>

definition ErrorXattrBody :: goerror where
  "ErrorXattrBody = Formatted ''mutation body is too short to store xattr.''"

text \<open>Stripping extended attributes the target does not take, and the data type bits it does not know.
  \<open>None\<close> is the panic of a slice that starts past the end of the body.\<close>

definition preprocessMCRequest ::
  "bool \<Rightarrow> CompressionType \<Rightarrow> WrappedMCRequest \<Rightarrow> (goerror option \<times> WrappedMCRequest) option" where
  "preprocessMCRequest xattr compression req =
     (let mask_type = (\<lambda>r. if DataType r > 0
                           then r\<lparr>DataType := DataType r AND (if compression = CompressionTypeSnappy then 4 OR 2 else 4)\<rparr> else r)
      in if HasXattr (DataType (Req req)) \<and> \<not> xattr then
           let r1 = (Req req)\<lparr>DataType := DataType (Req req) AND NOT 4\<rparr> in
           if length (Body r1) < 4 then Some (Some ErrorXattrBody, req\<lparr>Req := r1\<rparr>)
           else do {
             n \<leftarrow> be_uint32 0 (Body r1);
             body \<leftarrow> slice (unat (n + 4)) (length (Body r1)) (Body r1);
             Some (None, req\<lparr>Req := mask_type (r1\<lparr>Body := body\<rparr>)\<rparr>) }
         else Some (None, req\<lparr>Req := mask_type (Req req)\<rparr>))"

definition extras_expiry_set :: "MCRequest \<Rightarrow> bool option" where
  "extras_expiry_set r = map_option (\<lambda>e. e \<noteq> 0) (be_uint32 4 (Extras r))"

text \<open>
  One turn of the loop of \<open>batchSetMetaWithRetry\<close>: a request leaves the data channel
  and is put into the request buffer, or is dropped as the batch says.  The result is
  the request for the wire; \<open>rnd\<close> is the reservation number and \<open>now\<close> the time.
\<close>

definition send_item ::
  "(MCRequest \<Rightarrow> nat) \<Rightarrow> xmem_config \<Rightarrow> dataBatch \<Rightarrow> int \<Rightarrow> int \<Rightarrow> 'c XmemNozzle \<Rightarrow>
     ((goerror + WrappedMCRequest option) \<times> 'c XmemNozzle) outcome" where
  "send_item reqSize cfg batch rnd now xmem =
     (case readFromDataChan reqSize (maxDataChanSize cfg) xmem of
        Blocks \<Rightarrow> Blocks
      | Panics \<Rightarrow> Panics
      | Done (Inl e, x1) \<Rightarrow> Done (Inl e, x1)
      | Done (Inr item, x1) \<Rightarrow>
          let x2 = x1\<lparr>counter_sent := counter_sent x1 + 1\<rparr> in
          case needSend item batch of
            Send \<Rightarrow>
              (case preprocessMCRequest (xattrEnabled x2) (compressionSetting x2) item of
                 None \<Rightarrow> Panics
               | Some (Some e, _) \<Rightarrow> Done (Inl e, x2)
               | Some (None, item1) \<Rightarrow>
                   (case enSlot item1 rnd now (xm_buf x2) of
                      Blocks \<Rightarrow> Blocks
                    | Panics \<Rightarrow> Panics
                    | Done ((_, _, item2), buf') \<Rightarrow> Done (Inr (Some item2), x2\<lparr>xm_buf := buf'\<rparr>)))
          | Not_Send_Failed_CR \<Rightarrow>
              (case extras_expiry_set (Req item) of
                 None \<Rightarrow> Panics
               | Some exp \<Rightarrow> Done (Inr None, recycleDataObj item
                   (raise [DataFailedCRSource (wr_Seqno item) (VBucket (Req item)) (encodeOpCode (Opcode (Req item))) exp] x2)))
          | Not_Send_Other \<Rightarrow> Done (Inr None, recycleDataObj item x2))"

text \<open>
  Sending with retries.  In both functions the error of an attempt is assigned to a
  variable local to the loop, so the result is nil when every attempt failed.
  \<open>write\<close> is \<open>writeToClient\<close> with its effect on the state, \<open>repair\<close> the repair of the connection.
\<close>

fun retry_loop ::
  "nat \<Rightarrow> ('w \<Rightarrow> (goerror option \<times> int) \<times> 'w) \<Rightarrow> (int \<Rightarrow> 'w \<Rightarrow> 'w) \<Rightarrow> goerror option \<Rightarrow> 'w \<Rightarrow> (goerror option \<times> bool) \<times> 'w" where
  "retry_loop 0 write repair err w = ((err, False), w)"
| "retry_loop (Suc n) write repair err w =
     (case write w of ((e, rv), w1) \<Rightarrow>
        if e = None then ((None, True), w1)
        else retry_loop n write repair err (if e = Some badConnectionError then repair rv w1 else w1))"

definition sendWithRetry ::
  "nat \<Rightarrow> ('w \<Rightarrow> (goerror option \<times> int) \<times> 'w) \<Rightarrow> (int \<Rightarrow> 'w \<Rightarrow> 'w) \<Rightarrow> 'w \<Rightarrow> goerror option \<times> 'w" where
  "sendWithRetry numOfRetry write repair w =
     (case retry_loop numOfRetry write repair None w of ((e, _), w') \<Rightarrow> (e, w'))"

text \<open>A successful resend is counted by \<open>count_resend\<close>.\<close>

definition sendSingleSetMeta ::
  "bool \<Rightarrow> nat \<Rightarrow> ('w \<Rightarrow> (goerror option \<times> int) \<times> 'w) \<Rightarrow> (int \<Rightarrow> 'w \<Rightarrow> 'w) \<Rightarrow> ('w \<Rightarrow> 'w) \<Rightarrow> 'w \<Rightarrow> goerror option \<times> 'w" where
  "sendSingleSetMeta client_set numOfRetry write repair count_resend w =
     (if client_set then
        (case retry_loop numOfRetry write repair None w of ((e, sent), w') \<Rightarrow> (e, if sent then count_resend w' else w'))
      else (None, w))"

text \<open>
  The loop over a batch.  The requests collected so far are flushed when more than
  \<open>maxBatch\<close> of them wait and at the end; \<open>flush\<close> is \<open>sendWithRetry\<close>, whose error would
  cancel the reservations and is nil always.
\<close>

fun batch_loop ::
  "(MCRequest \<Rightarrow> nat) \<Rightarrow> xmem_config \<Rightarrow> nat \<Rightarrow> (WrappedMCRequest list \<Rightarrow> 'c XmemNozzle \<Rightarrow> 'c XmemNozzle) \<Rightarrow> dataBatch \<Rightarrow>
     (int \<times> int) list \<Rightarrow> WrappedMCRequest list \<Rightarrow> 'c XmemNozzle \<Rightarrow> (goerror option \<times> 'c XmemNozzle) outcome" where
  "batch_loop reqSize cfg maxBatch flush batch [] reqs xmem =
     Done (None, if length reqs > 0 then flush reqs xmem else xmem)"
| "batch_loop reqSize cfg maxBatch flush batch ((rnd, now) # rns) reqs xmem =
     (case send_item reqSize cfg batch rnd now xmem of
        Blocks \<Rightarrow> Blocks
      | Panics \<Rightarrow> Panics
      | Done (Inl e, x1) \<Rightarrow> Done (Some e, x1)
      | Done (Inr None, x1) \<Rightarrow> batch_loop reqSize cfg maxBatch flush batch rns reqs x1
      | Done (Inr (Some item), x1) \<Rightarrow>
          if length (reqs @ [item]) > maxBatch
          then batch_loop reqSize cfg maxBatch flush batch rns [] (flush (reqs @ [item]) x1)
          else batch_loop reqSize cfg maxBatch flush batch rns (reqs @ [item]) x1)"

text \<open>One pair of reservation number and time per request of the batch.\<close>

definition batchSetMetaWithRetry ::
  "(MCRequest \<Rightarrow> nat) \<Rightarrow> xmem_config \<Rightarrow> nat \<Rightarrow> (WrappedMCRequest list \<Rightarrow> 'c XmemNozzle \<Rightarrow> 'c XmemNozzle) \<Rightarrow> dataBatch \<Rightarrow>
     (nat \<Rightarrow> int \<times> int) \<Rightarrow> 'c XmemNozzle \<Rightarrow> (goerror option \<times> 'c XmemNozzle) outcome" where
  "batchSetMetaWithRetry reqSize cfg maxBatch flush batch rn xmem =
     batch_loop reqSize cfg maxBatch flush batch (map rn [0..<unat (curCount batch)]) [] xmem"

definition ErrorWritingDocuments :: goerror where
  "ErrorWritingDocuments = Formatted ''Error writing documents to memcached in target cluster.''"

definition sendSetMeta_internal ::
  "(goerror option \<times> 'c XmemNozzle) outcome \<Rightarrow> (goerror option \<times> 'c XmemNozzle) outcome" where
  "sendSetMeta_internal out =
     (case out of
        Done (Some e, x) \<Rightarrow> Done (Some e, if e \<noteq> PartStoppedError then xmem_handleGeneralError ErrorWritingDocuments x else x)
      | _ \<Rightarrow> out)"

definition recordBatchSize :: "uint32 \<Rightarrow> 'c XmemNozzle \<Rightarrow> 'c XmemNozzle" where
  "recordBatchSize batchSize xmem =
     (let xs = fold (\<lambda>i xs. xs[i := xs ! (i - 1)]) (rev [1..<10]) (last_ten_batches_size xmem)
      in xmem\<lparr>last_ten_batches_size := xs[0 := batchSize]\<rparr>)"


section \<open>Repairing the connection\<close>

definition ErrorCompressionNotSupported :: goerror where
  "ErrorCompressionNotSupported = Sentinel ''Specified compression type is not supported.''"

definition validateFeatures :: "CompressionType \<Rightarrow> 'c XmemNozzle \<Rightarrow> goerror option" where
  "validateFeatures received_type xmem =
     (if compressionSetting xmem \<noteq> received_type
      then Some (if compressionSetting xmem \<noteq> CompressionTypeNone then ErrorCompressionNotSupported
                 else Formatted ''Attempted to send HELO with compression type'')
      else None)"

text \<open>The repair of the setMeta client.  \<open>conn\<close> is the new connection or the error of getting one,
  \<open>helo\<close> the features the target answered: extended attributes and compression.\<close>

definition repairSetMetaConn ::
  "(goerror + 'c) \<Rightarrow> (goerror + bool \<times> CompressionType) \<Rightarrow> int \<Rightarrow> int \<Rightarrow> 'c XmemNozzle \<Rightarrow> goerror option \<times> 'c XmemNozzle" where
  "repairSetMetaConn conn helo rv now xmem =
     (if validateRunningState (xm_state xmem) \<noteq> None then (None, xmem)
      else case conn of
        Inl e \<Rightarrow> (Some e, xmem_handleGeneralError e xmem)
      | Inr c \<Rightarrow>
          (case client_repairConn c rv now (client_for_setMeta xmem) of
             (False, _) \<Rightarrow> (None, xmem)
           | (True, cl) \<Rightarrow>
               let x1 = xmem\<lparr>client_for_setMeta := cl\<rparr> in
               (case helo of
                  Inl e \<Rightarrow> (Some e, xmem_handleGeneralError e x1)
                | Inr (xattr, ctype) \<Rightarrow>
                    (case validateFeatures ctype x1 of
                       Some e \<Rightarrow> (Some e, xmem_handleGeneralError e x1)
                     | None \<Rightarrow> (None, x1\<lparr>xattrEnabled := xattr, resend_all := resend_all x1 + 1\<rparr>)))))"


section \<open>Resending\<close>

fun double_until :: "nat \<Rightarrow> int \<Rightarrow> int \<Rightarrow> int" where
  "double_until 0 maxInterval d = d"
| "double_until (Suc n) maxInterval d = (if 2 * d > maxInterval then maxInterval else double_until n maxInterval (2 * d))"

definition timeoutDuration :: "int \<Rightarrow> int \<Rightarrow> int \<Rightarrow> int" where
  "timeoutDuration respTimeout maxRetryInterval numofRetry = double_until (nat numofRetry) maxRetryInterval respTimeout"

text \<open>
  A resend reads the request under the slot's lock, writes it without the lock, and
  updates the slot if it still has the same sequence number.  The first part returns
  the request and the sequence number, \<open>None\<close> when there is nothing to send.
\<close>

definition resendWithReset_begin ::
  "uint16 \<Rightarrow> requestBuffer \<Rightarrow> (WrappedMCRequest \<times> uint16) option \<times> bool \<times> requestBuffer" where
  "resendWithReset_begin pos buf =
     (let i = unat pos; req = slots buf ! i in
      case br_req req of
        None \<Rightarrow> (None, False, buf)
      | Some r \<Rightarrow>
          if num_of_retry req \<noteq> 0 \<or> timedout req
          then (Some (r, sequences buf ! i), True, buf\<lparr>slots := (slots buf)[i := req\<lparr>num_of_retry := 0, timedout := False\<rparr>]\<rparr>)
          else (Some (r, sequences buf ! i), False, buf))"

definition resend_end :: "bool \<Rightarrow> uint16 \<Rightarrow> uint16 \<Rightarrow> int \<Rightarrow> requestBuffer \<Rightarrow> bool \<times> requestBuffer" where
  "resend_end isRetry pos old_sequence now buf =
     (let i = unat pos; req = slots buf ! i in
      if br_req req \<noteq> None \<and> sequences buf ! i = old_sequence
      then (True, buf\<lparr>slots := (slots buf)[i := req\<lparr>sent_time := Some now,
                          num_of_retry := num_of_retry req + (if isRetry then 1 else 0)\<rparr>]\<rparr>)
      else (False, buf))"

datatype timeout_check = NothingToDo | MaxRetriesReached | ResendNow WrappedMCRequest uint16

definition resendIfTimeout_begin ::
  "int \<Rightarrow> int \<Rightarrow> int \<Rightarrow> int \<Rightarrow> uint16 \<Rightarrow> requestBuffer \<Rightarrow> timeout_check \<times> requestBuffer" where
  "resendIfTimeout_begin maxRetry respTimeout maxRetryInterval now pos buf =
     (let i = unat pos; req = slots buf ! i in
      case br_req req of
        None \<Rightarrow> (NothingToDo, buf)
      | Some r \<Rightarrow>
          if timedout req then (NothingToDo, buf)
          else if num_of_retry req > maxRetry
          then (MaxRetriesReached, buf\<lparr>slots := (slots buf)[i := req\<lparr>timedout := True\<rparr>]\<rparr>)
          else if now - the (sent_time req) > timeoutDuration respTimeout maxRetryInterval (num_of_retry req)
          then (ResendNow r (sequences buf ! i), buf)
          else (NothingToDo, buf))"


section \<open>Handling a response\<close>

text \<open>
  What the receiving goroutine does with one response or read error; the flag tells
  whether it exits.  Resends and repairs it starts are reported, so that the system
  below performs them as steps of their own.
\<close>

datatype followup = NoFollowup | Resend uint16 | RepairConnection int

definition on_error_response :: "int \<Rightarrow> MCResponse \<Rightarrow> 'c XmemNozzle \<Rightarrow> followup \<times> 'c XmemNozzle" where
  "on_error_response rv resp xmem =
     (let pos = getPosFromOpaque (resp_Opaque resp) in
      if isTemporaryMCError (resp_Status resp)
      then (Resend pos, xmem\<lparr>client_for_setMeta := incrementBackOffFactor (client_for_setMeta xmem)\<rparr>)
      else (case buf_slot (xm_buf xmem) pos of
              Inr (Some wrappedReq) \<Rightarrow>
                if Opaque (Req wrappedReq) = resp_Opaque resp then
                  if isTopologyChangeMCError (resp_Status resp) then (NoFollowup, handleVBError (VBucket (Req wrappedReq)) xmem)
                  else if resp_Status resp = KEY_ENOENT then (Resend pos, xmem)
                  else (RepairConnection rv, xmem)
                else (NoFollowup, xmem)
            | _ \<Rightarrow> (NoFollowup, xmem)))"

definition on_success_response :: "MCResponse \<Rightarrow> 'c XmemNozzle \<Rightarrow> (bool \<times> 'c XmemNozzle) outcome" where
  "on_success_response resp xmem =
     (let pos = getPosFromOpaque (resp_Opaque resp) in
      case slotWithSentTime (xm_buf xmem) pos of
        Inl e \<Rightarrow> Done (True, xmem_handleGeneralError (Formatted ''xmem buffer is in invalid state'') xmem)
      | Inr (None, _) \<Rightarrow> Done (False, xmem)
      | Inr (Some wrappedReq, _) \<Rightarrow>
          if Opaque (Req wrappedReq) = resp_Opaque resp then
            (case extras_expiry_set (Req wrappedReq) of
               None \<Rightarrow> Panics
             | Some exp \<Rightarrow>
                 let x2 = raise [DataSent (wr_Seqno wrappedReq) (VBucket (Req wrappedReq)) (Opcode (Req wrappedReq)) exp] xmem in
                 (case evictSlot pos (xm_buf x2) of
                    Blocks \<Rightarrow> Blocks
                  | Panics \<Rightarrow> Panics
                  | Done (Some e, _) \<Rightarrow> Panics
                  | Done (None, buf') \<Rightarrow> Done (False, recycleDataObj wrappedReq (x2\<lparr>xm_buf := buf'\<rparr>))))
          else Done (False, xmem))"

definition receive_one ::
  "int \<Rightarrow> received \<Rightarrow> 'c XmemNozzle \<Rightarrow> ((bool \<times> followup) \<times> 'c XmemNozzle) outcome" where
  "receive_one now rc xmem =
     (if tokens (xm_buf xmem) = 0 then Blocks
      else if validateRunningState (xm_state xmem) \<noteq> None then Done ((True, NoFollowup), xmem)
      else case readFromClient (xm_state xmem) now rc (client_for_setMeta xmem) of ((response, err, rv), cl) \<Rightarrow>
        let x1 = xmem\<lparr>client_for_setMeta := cl\<rparr> in
        case err of
          Some e \<Rightarrow>
            if e = PartStoppedError then Done ((True, NoFollowup), x1)
            else if e = badConnectionError \<or> e = connectionClosedError then Done ((False, RepairConnection rv), x1)
            else Done ((False, NoFollowup), x1)
        | None \<Rightarrow>
          (case response of
             None \<Rightarrow> Done ((False, NoFollowup), x1)
           | Some resp \<Rightarrow>
               if resp_Status resp \<noteq> SUCCESS \<and> \<not> isIgnorableMCError (resp_Status resp)
               then (case on_error_response rv resp x1 of (fu, x2) \<Rightarrow> Done ((False, fu), x2))
               else (case on_success_response resp x1 of
                       Blocks \<Rightarrow> Blocks
                     | Panics \<Rightarrow> Panics
                     | Done (ex, x2) \<Rightarrow> Done ((ex, NoFollowup), x2))))"

end
