(* ===== verification/Xmem_System.thy ===== *)
theory Xmem_System
  imports Xmem_Nozzle "HOL-Library.Multiset"
begin

text \<open>
  The goroutines of the xmem nozzle together: upstream parts hand over requests, the
  sender takes batches and puts their requests into the buffer, the receiver handles
  responses, and monitors resend and repair, in any order.  Every accepted request
  is accounted for at all times.
\<close>


section \<open>The requests of a nozzle\<close>

text \<open>A mutation is identified by its vbucket and its sequence number.\<close>

definition mut :: "WrappedMCRequest \<Rightarrow> vbno \<times> seqno" where
  "mut r = (VBucket (Req r), wr_Seqno r)"

definition opt_mset :: "'a option \<Rightarrow> 'a multiset" where
  "opt_mset x = (case x of None \<Rightarrow> {#} | Some a \<Rightarrow> {#a#})"

definition buffered :: "requestBuffer \<Rightarrow> (vbno \<times> seqno) multiset" where
  "buffered buf = sum_list (map (\<lambda>b. opt_mset (map_option mut (br_req b))) (slots buf))"

text \<open>What the events say: a mutation was sent, or lost conflict resolution at the source.\<close>

fun reported_one :: "xmem_event \<Rightarrow> (vbno \<times> seqno) list" where
  "reported_one (DataSent s vb _ _) = [(vb, s)]"
| "reported_one (DataFailedCRSource s vb _ _) = [(vb, s)]"
| "reported_one _ = []"

definition reported :: "xmem_event list \<Rightarrow> (vbno \<times> seqno) list" where
  "reported evs = concat (map reported_one evs)"

lemma reported_simps [simp]: "reported [] = []" "reported (xs @ ys) = reported xs @ reported ys" "reported [e] = reported_one e"
  by (simp_all add: reported_def)

lemma reported_errors [simp]: "reported (map ErrorEncountered es) = []"
  by (induction es) (simp_all add: reported_def)

lemma sum_list_update_monoid:
  fixes f :: "'a \<Rightarrow> 'b::comm_monoid_add"
  shows "i < length xs \<Longrightarrow> sum_list (map f (xs[i := x])) + f (xs ! i) = sum_list (map f xs) + f x"
proof (induction xs arbitrary: i)
  case (Cons a xs)
  then show ?case by (cases i) (simp_all add: ac_simps)
qed simp

lemma buffered_update:
  assumes "i < length (slots buf)" "slots buf' = (slots buf)[i := x]"
  shows "buffered buf' + opt_mset (map_option mut (br_req (slots buf ! i))) = buffered buf + opt_mset (map_option mut (br_req x))"
  using sum_list_update_monoid[OF assms(1), of "\<lambda>b. opt_mset (map_option mut (br_req b))" x] assms(2) by (simp add: buffered_def)

lemma buffered_touch:
  assumes "slots buf' = (slots buf)[i := x]" "br_req x = br_req (slots buf ! i)"
  shows "buffered buf' = buffered buf"
proof (cases "i < length (slots buf)")
  case True
  from buffered_update[OF True assms(1)] assms(2) show ?thesis by simp
next
  case False
  then show ?thesis using assms(1) by (simp add: buffered_def list_update_beyond)
qed

lemma buffered_same_slots: "slots buf' = slots buf \<Longrightarrow> buffered buf' = buffered buf"
  by (simp add: buffered_def)

lemma enSlot_buffered:
  assumes "enSlot r rnd now buf = Done ((i, n, r'), buf')"
  shows "buffered buf' = add_mset (mut r) (buffered buf) \<and> fin_closed buf' = fin_closed buf"
proof -
  obtain rest x where e: "empty_slots_pos buf = i # rest" "unat i < length (slots buf)" "br_req (slots buf ! unat i) = None"
    "slots buf' = (slots buf)[unat i := x]" "br_req x = Some r'" "r' = adjustRequest r i buf" "fin_closed buf' = fin_closed buf"
    using assms by (fastforce simp: enSlot_def Let_def not_le split: list.splits if_splits)
  have "mut r' = mut r" by (simp add: e(6) mut_def adjustRequest_def)
  then show ?thesis using buffered_update[OF e(2,4)] e(3,5,7) by (simp add: opt_mset_def)
qed

lemma evictSlot_buffered:
  assumes "evictSlot pos buf = Done (None, buf')" "buf_slot buf pos = Inr (Some r)" "length (slots buf) = unat (size_of buf)"
  shows "add_mset (mut r) (buffered buf') = buffered buf \<and> fin_closed buf' = fin_closed buf"
proof -
  have v: "pos < size_of buf" "br_req (slots buf ! unat pos) = Some r"
    using assms(2) by (auto simp: buf_slot_def validatePos_def split: if_splits)
  then have i: "unat pos < length (slots buf)" using assms(3) by (simp add: word_less_nat_alt)
  have s: "slots buf' = (slots buf)[unat pos := resetBufferedMCRequest (slots buf ! unat pos)]" "fin_closed buf' = fin_closed buf"
    using assms(1) v by (auto simp: evictSlot_def clearSlot_def validatePos_def Let_def notify_def split: if_splits)
  show ?thesis using buffered_update[OF i s(1)] v s(2) by (simp add: opt_mset_def resetBufferedMCRequest_def)
qed

lemma preprocess_mut: "preprocessMCRequest x c r = Some (e, r') \<Longrightarrow> mut r' = mut r"
  by (auto simp: preprocessMCRequest_def mut_def Let_def Option.bind_eq_Some_conv split: if_splits)


section \<open>The system\<close>

text \<open>
  Beside the nozzle, the batch the sender works on with the number of its requests
  still to come, the requests accepted so far, and those the sender gave up: because
  the target no longer owns the vbucket, or because of an error that stops the nozzle.
\<close>

record 'c xsys =
  nz :: "'c XmemNozzle"
  sending :: "(dataBatch \<times> nat) option"
  accepted :: "WrappedMCRequest list"
  given_up :: "WrappedMCRequest list"

definition nz_upd :: "'c XmemNozzle \<Rightarrow> 'c xsys \<Rightarrow> 'c xsys" where
  "nz_upd x s = s\<lparr>nz := x\<rparr>"

inductive xstep :: "(MCRequest \<Rightarrow> nat) \<Rightarrow> xmem_config \<Rightarrow> 'c xsys \<Rightarrow> 'c xsys \<Rightarrow> bool" for reqSize cfg where
  x_accept: "validateRunningState (xm_state (nz s)) = None \<Longrightarrow> xmem_accumuBatch reqSize cfg r (nz s) = (out, Some x) \<Longrightarrow>
     xstep reqSize cfg s (nz_upd x (s\<lparr>accepted := accepted s @ [r]\<rparr>))"
| x_receive_error: "xstep reqSize cfg s (nz_upd (xmem_handleGeneralError e (nz s)) s)"
| x_ready: "batchReady (maxCount cfg) (maxSize cfg) (nz s) = Done (None, x) \<Longrightarrow> xstep reqSize cfg s (nz_upd x s)"
| x_begin_batch: "sending s = None \<Longrightarrow> validateRunningState (xm_state (nz s)) = None \<Longrightarrow> batches_ready_queue (nz s) = b # rest \<Longrightarrow>
     xstep reqSize cfg s (nz_upd ((nz s)\<lparr>batches_ready_queue := rest\<rparr>) (s\<lparr>sending := Some (b\<lparr>bigDoc_noRep_map := m\<rparr>, unat (curCount b))\<rparr>))"
| x_item: "sending s = Some (b, Suc k) \<Longrightarrow> dataChan (nz s) = r # rest \<Longrightarrow> send_item reqSize cfg b rnd now (nz s) = Done (Inr res, x) \<Longrightarrow>
     xstep reqSize cfg s (nz_upd x (s\<lparr>sending := Some (b, k),
        given_up := (if needSend r b = Not_Send_Other then given_up s @ [r] else given_up s)\<rparr>))"
| x_item_error: "sending s = Some (b, Suc k) \<Longrightarrow> dataChan (nz s) = r # rest \<Longrightarrow> send_item reqSize cfg b rnd now (nz s) = Done (Inl e, x) \<Longrightarrow>
     xstep reqSize cfg s (nz_upd (xmem_handleGeneralError ErrorWritingDocuments x) (s\<lparr>sending := None, given_up := given_up s @ [r]\<rparr>))"
| x_end_batch: "sending s = Some (b, 0) \<Longrightarrow> xstep reqSize cfg s (s\<lparr>sending := None\<rparr>)"
| x_response: "receive_one now rc (nz s) = Done (ex, x) \<Longrightarrow> xstep reqSize cfg s (nz_upd x s)"
| x_resend: "pos < size_of (xm_buf (nz s)) \<Longrightarrow> resendWithReset_begin pos (xm_buf (nz s)) = (what, md, buf) \<Longrightarrow>
     xstep reqSize cfg s (nz_upd ((nz s)\<lparr>xm_buf := buf\<rparr>) s)"
| x_timeout: "pos < size_of (xm_buf (nz s)) \<Longrightarrow> resendIfTimeout_begin mr rt mi now pos (xm_buf (nz s)) = (chk, buf) \<Longrightarrow>
     xstep reqSize cfg s (nz_upd ((nz s)\<lparr>xm_buf := buf\<rparr>) s)"
| x_resend_end: "pos < size_of (xm_buf (nz s)) \<Longrightarrow> resend_end isRetry pos sq now (xm_buf (nz s)) = (md, buf) \<Longrightarrow>
     xstep reqSize cfg s (nz_upd ((nz s)\<lparr>xm_buf := buf\<rparr>) s)"
| x_repair: "repairSetMetaConn conn helo rv now (nz s) = (e, x) \<Longrightarrow> xstep reqSize cfg s (nz_upd x s)"
| x_stop: "SetState Part_Stopping (xm_state (nz s)) = (None, st) \<Longrightarrow> buf_close (xm_buf (nz s)) = Done buf \<Longrightarrow>
     xstep reqSize cfg s (nz_upd ((nz s)\<lparr>xm_state := st, xm_buf := buf\<rparr>) s)"

inductive_cases xstepE: "xstep reqSize cfg s s'"

text \<open>The nozzle as \<open>Start\<close> leaves it: running, everything empty.\<close>

definition xinit :: "'c xsys \<Rightarrow> bool" where
  "xinit s \<longleftrightarrow> xm_state (nz s) = Part_Running \<and> rb_inv (xm_buf (nz s)) \<and> buffered (xm_buf (nz s)) = {#} \<and> \<not> fin_closed (xm_buf (nz s)) \<and>
     curCount (xm_batch (nz s)) = 0 \<and> batches_ready_queue (nz s) = [] \<and> dataChan (nz s) = [] \<and> dataChan_cap (nz s) < 2 ^ 32 \<and>
     xm_events (nz s) = [] \<and> sending s = None \<and> accepted s = [] \<and> given_up s = []"

inductive xreach :: "(MCRequest \<Rightarrow> nat) \<Rightarrow> xmem_config \<Rightarrow> 'c xsys \<Rightarrow> bool" for reqSize cfg where
  xr_init: "xinit s \<Longrightarrow> xreach reqSize cfg s"
| xr_step: "xreach reqSize cfg s \<Longrightarrow> xstep reqSize cfg s s' \<Longrightarrow> xreach reqSize cfg s'"


section \<open>The invariant\<close>

definition outstanding :: "'c xsys \<Rightarrow> nat" where
  "outstanding s = (case sending s of None \<Rightarrow> 0 | Some (_, k) \<Rightarrow> k) +
     sum_list (map (\<lambda>b. unat (curCount b)) (batches_ready_queue (nz s))) + unat (curCount (xm_batch (nz s)))"

definition accounted :: "'c xsys \<Rightarrow> bool" where
  "accounted s \<longleftrightarrow> mset (map mut (accepted s)) =
     mset (map mut (dataChan (nz s))) + buffered (xm_buf (nz s)) + mset (reported (xm_events (nz s))) + mset (map mut (given_up s))"

definition running :: "'c XmemNozzle \<Rightarrow> bool" where
  "running x \<longleftrightarrow> xm_state x = Part_Running"

definition xinv :: "'c xsys \<Rightarrow> bool" where
  "xinv s \<longleftrightarrow> rb_inv (xm_buf (nz s)) \<and> accounted s \<and> xm_state (nz s) \<notin> {Part_Initial, Part_Starting} \<and>
     (running (nz s) \<longrightarrow> outstanding s = length (dataChan (nz s)) \<and> \<not> fin_closed (xm_buf (nz s))) \<and>
     length (dataChan (nz s)) \<le> dataChan_cap (nz s) \<and> dataChan_cap (nz s) < 2 ^ 32"

lemma xinv_init: "xinit s \<Longrightarrow> xinv s"
  by (simp add: xinit_def xinv_def accounted_def outstanding_def running_def)


text \<open>A step that leaves the requests where they are.\<close>

lemma xinv_frame:
  assumes "xinv s" "dataChan x = dataChan (nz s)" "rb_inv (xm_buf x)" "buffered (xm_buf x) = buffered (xm_buf (nz s))"
    "reported (xm_events x) = reported (xm_events (nz s))" "dataChan_cap x = dataChan_cap (nz s)"
    "xm_state x \<notin> {Part_Initial, Part_Starting}"
    "running x \<Longrightarrow> running (nz s) \<and> outstanding (nz_upd x s) = outstanding s \<and> \<not> fin_closed (xm_buf x)"
  shows "xinv (nz_upd x s)"
  using assms unfolding xinv_def accounted_def nz_upd_def by auto

lemma outstanding_cong:
  "batches_ready_queue x = batches_ready_queue (nz s) \<Longrightarrow> xm_batch x = xm_batch (nz s) \<Longrightarrow> outstanding (nz_upd x s) = outstanding s"
  by (simp add: outstanding_def nz_upd_def)

lemma error_effect:
  fixes x :: "'c XmemNozzle"
  assumes x': "x' = xmem_handleGeneralError e x"
  shows "dataChan x' = dataChan x" "xm_buf x' = xm_buf x" "reported (xm_events x') = reported (xm_events x)"
    "dataChan_cap x' = dataChan_cap x" "batches_ready_queue x' = batches_ready_queue x" "xm_batch x' = xm_batch x"
    "xm_state x \<notin> {Part_Initial, Part_Starting} \<Longrightarrow> xm_state x' \<notin> {Part_Initial, Part_Starting} \<and> \<not> running x'"
  unfolding x'
  by (auto simp: xmem_handleGeneralError_def handleGeneralError_def raise_def SetState_def running_def split: PartState.splits prod.splits)

lemma accept_effect:
  assumes "xmem_accumuBatch reqSize cfg r y = (out, Some x)"
  shows "dataChan x = dataChan y @ [r]" "length (dataChan y) < dataChan_cap y" "dataChan_cap x = dataChan_cap y" "xm_buf x = xm_buf y"
    "xm_events x = xm_events y" "xm_state x = xm_state y" "batches_ready_queue x = batches_ready_queue y" "ready_cap x = ready_cap y"
    "curCount (xm_batch x) = curCount (xm_batch y) + 1"
  using assms
  by (auto simp: xmem_accumuBatch_def writeToDataChan_def dataChanControl_def accumuBatch_def incrementCount_def incrementSize_def Let_def
      split: if_splits outcome.splits)

lemma accept_possible:
  assumes "Key (Req r) \<noteq> []" "dataChan_control y" "length (dataChan y) < dataChan_cap y"
  shows "\<exists>out x. xmem_accumuBatch reqSize cfg r y = (out, Some x)"
  using assms by (auto simp: xmem_accumuBatch_def writeToDataChan_def accumuBatch_def Let_def)

lemma ready_effect:
  assumes "batchReady mc ms y = Done (None, x)"
  shows "dataChan x = dataChan y" "xm_buf x = xm_buf y" "xm_events x = xm_events y" "xm_state x = xm_state y" "dataChan_cap x = dataChan_cap y"
    "sum_list (map (\<lambda>b. unat (curCount b)) (batches_ready_queue x)) + unat (curCount (xm_batch x)) =
     sum_list (map (\<lambda>b. unat (curCount b)) (batches_ready_queue y)) + unat (curCount (xm_batch y))"
  using assms by (auto simp: batchReady_def initNewBatch_def newBatch_def split: if_splits)

text \<open>Where a request taken from the data channel goes.\<close>

lemma send_item_effect:
  assumes "send_item reqSize cfg b rnd now y = Done (res, x)" "dataChan y = r # rest"
  shows "dataChan x = rest" "xm_state x = xm_state y" "dataChan_cap x = dataChan_cap y" "batches_ready_queue x = batches_ready_queue y"
    "xm_batch x = xm_batch y" "fin_closed (xm_buf x) = fin_closed (xm_buf y)"
    "case res of
       Inl _ \<Rightarrow> xm_buf x = xm_buf y \<and> xm_events x = xm_events y
     | Inr _ \<Rightarrow>
       (case needSend r b of
          Send \<Rightarrow> buffered (xm_buf x) = add_mset (mut r) (buffered (xm_buf y)) \<and> xm_events x = xm_events y \<and>
            (\<exists>r1 i n r2. enSlot r1 rnd now (xm_buf y) = Done ((i, n, r2), xm_buf x))
        | Not_Send_Failed_CR \<Rightarrow> xm_buf x = xm_buf y \<and> reported (xm_events x) = reported (xm_events y) @ [mut r]
        | Not_Send_Other \<Rightarrow> xm_buf x = xm_buf y \<and> xm_events x = xm_events y)"
proof -
  define x1 where "x1 = dataChanControl (maxDataChanSize cfg) (y\<lparr>dataChan := rest, bytes_in_dataChan := bytes_in_dataChan y - int (reqSize (Req r))\<rparr>)"
  define x2 where "x2 = x1\<lparr>counter_sent := counter_sent x1 + 1\<rparr>"
  have x2: "dataChan x2 = rest" "xm_state x2 = xm_state y" "dataChan_cap x2 = dataChan_cap y" "batches_ready_queue x2 = batches_ready_queue y"
    "xm_batch x2 = xm_batch y" "xm_buf x2 = xm_buf y" "xm_events x2 = xm_events y"
    by (simp_all add: x2_def x1_def dataChanControl_def)
  have rd: "readFromDataChan reqSize (maxDataChanSize cfg) y = Done (Inr r, x1)" by (simp add: readFromDataChan_def assms(2) x1_def)
  note run = assms(1)[unfolded send_item_def rd outcome.case prod.case sum.case Let_def, folded x2_def]
  have "dataChan x = rest \<and> xm_state x = xm_state y \<and> dataChan_cap x = dataChan_cap y \<and> batches_ready_queue x = batches_ready_queue y \<and>
    xm_batch x = xm_batch y \<and> fin_closed (xm_buf x) = fin_closed (xm_buf y) \<and> (case res of
       Inl _ \<Rightarrow> xm_buf x = xm_buf y \<and> xm_events x = xm_events y
     | Inr _ \<Rightarrow>
       (case needSend r b of
          Send \<Rightarrow> buffered (xm_buf x) = add_mset (mut r) (buffered (xm_buf y)) \<and> xm_events x = xm_events y \<and>
            (\<exists>r1 i n r2. enSlot r1 rnd now (xm_buf y) = Done ((i, n, r2), xm_buf x))
        | Not_Send_Failed_CR \<Rightarrow> xm_buf x = xm_buf y \<and> reported (xm_events x) = reported (xm_events y) @ [mut r]
        | Not_Send_Other \<Rightarrow> xm_buf x = xm_buf y \<and> xm_events x = xm_events y))"
  proof (cases "needSend r b")
    case Send
    obtain e r1 where pp: "preprocessMCRequest (xattrEnabled x2) (compressionSetting x2) r = Some (e, r1)"
      using run Send by (cases "preprocessMCRequest (xattrEnabled x2) (compressionSetting x2) r") auto
    show ?thesis
    proof (cases e)
      case None
      obtain i n r2 buf' where en: "enSlot r1 rnd now (xm_buf y) = Done ((i, n, r2), buf')" and x: "x = x2\<lparr>xm_buf := buf'\<rparr>" "res = Inr (Some r2)"
        using run Send pp None x2(6) by (cases "enSlot r1 rnd now (xm_buf y)") auto
      from enSlot_buffered[OF en] preprocess_mut[OF pp] en x x2 Send show ?thesis by auto
    next
      case (Some err)
      then show ?thesis using run Send pp x2 by auto
    qed
  next
    case Not_Send_Failed_CR
    then show ?thesis using run x2 by (auto simp: recycleDataObj_def raise_def mut_def split: option.splits)
  next
    case Not_Send_Other
    then show ?thesis using run x2 by (auto simp: recycleDataObj_def)
  qed
  then show "dataChan x = rest" "xm_state x = xm_state y" "dataChan_cap x = dataChan_cap y" "batches_ready_queue x = batches_ready_queue y"
    "xm_batch x = xm_batch y" "fin_closed (xm_buf x) = fin_closed (xm_buf y)"
    "case res of
       Inl _ \<Rightarrow> xm_buf x = xm_buf y \<and> xm_events x = xm_events y
     | Inr _ \<Rightarrow>
       (case needSend r b of
          Send \<Rightarrow> buffered (xm_buf x) = add_mset (mut r) (buffered (xm_buf y)) \<and> xm_events x = xm_events y \<and>
            (\<exists>r1 i n r2. enSlot r1 rnd now (xm_buf y) = Done ((i, n, r2), xm_buf x))
        | Not_Send_Failed_CR \<Rightarrow> xm_buf x = xm_buf y \<and> reported (xm_events x) = reported (xm_events y) @ [mut r]
        | Not_Send_Other \<Rightarrow> xm_buf x = xm_buf y \<and> xm_events x = xm_events y)" by auto
qed


text \<open>What handling a response may change.\<close>

definition kept :: "'c XmemNozzle \<Rightarrow> 'c XmemNozzle \<Rightarrow> bool" where
  "kept y x \<longleftrightarrow> dataChan x = dataChan y \<and> dataChan_cap x = dataChan_cap y \<and> batches_ready_queue x = batches_ready_queue y \<and>
     xm_batch x = xm_batch y \<and> fin_closed (xm_buf x) = fin_closed (xm_buf y) \<and> rb_inv (xm_buf x) \<and>
     buffered (xm_buf x) + mset (reported (xm_events x)) = buffered (xm_buf y) + mset (reported (xm_events y)) \<and>
     (xm_state x = xm_state y \<or> xm_state x = snd (SetState Part_Error (xm_state y)))"

lemma handleGeneralError_state: "fst (handleGeneralError e p) = snd (SetState Part_Error p)"
  by (simp add: handleGeneralError_def case_prod_unfold split: option.splits)

lemma kept_error:
  assumes "rb_inv (xm_buf y)"
  shows "kept y (xmem_handleGeneralError e y)"
  using error_effect[of "xmem_handleGeneralError e y" e y, OF refl] assms handleGeneralError_state[of e "xm_state y"]
  by (simp add: kept_def xmem_handleGeneralError_def raise_def case_prod_unfold)

lemma kept_error_response: "rb_inv (xm_buf y) \<Longrightarrow> on_error_response rv resp y = (fu, x) \<Longrightarrow> kept y x"
  by (auto simp: on_error_response_def kept_def handleVBError_def raise_def Let_def split: if_splits sum.splits option.splits)

lemma kept_success_response:
  assumes inv: "rb_inv (xm_buf y)" and run: "on_success_response resp y = Done (ex, x)"
  shows "kept y x"
proof -
  let ?pos = "getPosFromOpaque (resp_Opaque resp)"
  show ?thesis
  proof (cases "slotWithSentTime (xm_buf y) ?pos")
    case (Inl e)
    then show ?thesis using run kept_error[OF inv] by (auto simp: on_success_response_def)
  next
    case (Inr s)
    then obtain ro t where s: "slotWithSentTime (xm_buf y) ?pos = Inr (ro, t)" by (metis prod.exhaust)
    show ?thesis
    proof (cases "\<exists>r. ro = Some r \<and> Opaque (Req r) = resp_Opaque resp")
      case False
      then have "x = y" using run s by (auto simp: on_success_response_def split: option.splits)
      then show ?thesis using inv by (simp add: kept_def)
    next
      case True
      then obtain r where r: "ro = Some r" "Opaque (Req r) = resp_Opaque resp" by blast
      obtain exp buf' where e: "evictSlot ?pos (xm_buf y) = Done (None, buf')"
        "x = recycleDataObj r ((raise [DataSent (wr_Seqno r) (VBucket (Req r)) (Opcode (Req r)) exp] y)\<lparr>xm_buf := buf'\<rparr>)"
        using run s r by (auto simp: on_success_response_def Let_def raise_def split: option.splits outcome.splits)
      have sl: "?pos < size_of (xm_buf y)" "br_req (slots (xm_buf y) ! unat ?pos) = Some r"
        using s r by (auto simp: slotWithSentTime_def validatePos_def split: if_splits)
      then have "buf_slot (xm_buf y) ?pos = Inr (Some r)" by (simp add: buf_slot_def validatePos_def)
      from evictSlot_buffered[OF e(1) this] rb_invD(1)[OF inv]
      have b: "add_mset (mut r) (buffered buf') = buffered (xm_buf y)" "fin_closed buf' = fin_closed (xm_buf y)" by auto
      have "inflight (xm_buf y) ?pos \<noteq> None" using sl by (simp add: inflight_def)
      from clearSlot_occupied[OF inv e(1)[unfolded evictSlot_def] this] have "rb_inv buf'" by blast
      then show ?thesis using b e(2) by (auto simp: kept_def recycleDataObj_def raise_def mut_def)
    qed
  qed
qed

lemma kept_receive:
  assumes inv: "rb_inv (xm_buf y)" and run: "receive_one now rc y = Done (ex, x)"
  shows "kept y x"
proof -
  obtain response err rv cl where rd: "readFromClient (xm_state y) now rc (client_for_setMeta y) = ((response, err, rv), cl)"
    by (metis prod.exhaust)
  define x1 where "x1 = y\<lparr>client_for_setMeta := cl\<rparr>"
  have x1: "kept y x1" "rb_inv (xm_buf x1)" using inv by (simp_all add: x1_def kept_def)
  have via: "kept y x" if "kept x1 x" using that by (simp add: kept_def x1_def)
  have "kept y y" using inv by (simp add: kept_def)
  then show ?thesis
    using run x1 kept_error_response[OF x1(2)] kept_success_response[OF x1(2)] via
    unfolding receive_one_def rd prod.case Let_def x1_def[symmetric]
    by (auto split: if_splits option.splits outcome.splits prod.splits)
qed


section \<open>Every step keeps the invariant\<close>

lemma running_validate: "xm_state x \<notin> {Part_Initial, Part_Starting} \<Longrightarrow> validateRunningState (xm_state x) = None \<longleftrightarrow> running x"
  by (cases "xm_state x") (simp_all add: validateRunningState_def running_def)

lemma xinv_accept:
  assumes "xinv s" "validateRunningState (xm_state (nz s)) = None" "xmem_accumuBatch reqSize cfg r (nz s) = (out, Some x)"
  shows "xinv (nz_upd x (s\<lparr>accepted := accepted s @ [r]\<rparr>))"
proof -
  note a = accept_effect[OF assms(3)]
  have run: "running (nz s)" using assms(1,2) running_validate[of "nz s"] by (auto simp: xinv_def)
  then have o: "outstanding s = length (dataChan (nz s))" using assms(1) by (simp add: xinv_def)
  have "unat (curCount (xm_batch (nz s))) \<le> outstanding s" by (simp add: outstanding_def)
  then have "unat (curCount (xm_batch (nz s))) + 1 < 2 ^ 32" using o a(2) assms(1) by (simp add: xinv_def)
  then have "unat (curCount (xm_batch x)) = unat (curCount (xm_batch (nz s))) + 1"
    using a(9) by (simp add: unat_word_ariths)
  then have "outstanding (nz_upd x (s\<lparr>accepted := accepted s @ [r]\<rparr>)) = length (dataChan x)"
    using o a(1,7) by (simp add: outstanding_def nz_upd_def)
  then show ?thesis using assms(1) a run by (simp add: xinv_def accounted_def nz_upd_def running_def)
qed

lemma xinv_item:
  assumes "xinv s" "sending s = Some (b, Suc k)" "dataChan (nz s) = r # rest" "send_item reqSize cfg b rnd now (nz s) = Done (Inr res, x)"
  shows "xinv (nz_upd x (s\<lparr>sending := Some (b, k), given_up := (if needSend r b = Not_Send_Other then given_up s @ [r] else given_up s)\<rparr>))"
proof -
  note e = send_item_effect[OF assms(4,3)]
  have inv: "rb_inv (xm_buf (nz s))" using assms(1) by (simp add: xinv_def)
  have "rb_inv (xm_buf x)"
  proof (cases "needSend r b")
    case Send
    then obtain r1 i n r2 where en: "enSlot r1 rnd now (xm_buf (nz s)) = Done ((i, n, r2), xm_buf x)" using e(7) by auto
    then have "empty_slots_pos (xm_buf (nz s)) \<noteq> []" by (auto simp: enSlot_def)
    from enSlot_correct[OF inv this, of r1 rnd now] en show ?thesis by auto
  qed (use e(7) inv in auto)
  moreover have "accounted (nz_upd x (s\<lparr>sending := Some (b, k), given_up := (if needSend r b = Not_Send_Other then given_up s @ [r] else given_up s)\<rparr>))"
    using assms(1,3) e(1,7) unfolding accounted_def xinv_def nz_upd_def by (cases "needSend r b") auto
  moreover have "outstanding (nz_upd x (s\<lparr>sending := Some (b, k), given_up := g\<rparr>)) + 1 = outstanding s" for g
    using assms(2) e(4,5) by (simp add: outstanding_def nz_upd_def)
  then have "outstanding (nz_upd x (s\<lparr>sending := Some (b, k), given_up := g\<rparr>)) = outstanding s - 1" for g by (metis add_diff_cancel_right')
  ultimately show ?thesis using assms(1,3) e(1-6) by (auto simp: xinv_def nz_upd_def running_def)
qed

lemma xinv_item_error:
  assumes "xinv s" "dataChan (nz s) = r # rest" "send_item reqSize cfg b rnd now (nz s) = Done (Inl e, x)"
  shows "xinv (nz_upd (xmem_handleGeneralError ErrorWritingDocuments x) (s\<lparr>sending := None, given_up := given_up s @ [r]\<rparr>))"
proof -
  note f = send_item_effect[OF assms(3,2), unfolded sum.case]
  note g = error_effect[of "xmem_handleGeneralError ErrorWritingDocuments x", OF refl]
  have "xm_state x \<notin> {Part_Initial, Part_Starting}" using f(2) assms(1) by (simp add: xinv_def)
  from g(7)[OF this] show ?thesis using assms(1,2) f g(1-4) by (auto simp: xinv_def accounted_def nz_upd_def)
qed

lemma SetState_Error_later:
  "p \<notin> {Part_Initial, Part_Starting} \<Longrightarrow> snd (SetState Part_Error p) \<notin> {Part_Initial, Part_Starting, Part_Running}"
  by (cases p) (simp_all add: SetState_def)

lemma xinv_kept:
  assumes "xinv s" "kept (nz s) x"
  shows "xinv (nz_upd x s)"
proof -
  have st: "xm_state x \<notin> {Part_Initial, Part_Starting}" "running x \<Longrightarrow> running (nz s)"
    using assms SetState_Error_later[of "xm_state (nz s)"] by (auto simp: xinv_def kept_def running_def)
  have o: "outstanding (nz_upd x s) = outstanding s" using assms(2) by (intro outstanding_cong) (auto simp: kept_def)
  show ?thesis using assms st o unfolding xinv_def accounted_def kept_def nz_upd_def by (auto simp: ac_simps)
qed

text \<open>Steps on the buffer that only touch an occupied slot, or none.\<close>

lemma xinv_touch:
  assumes "xinv s" "pos < size_of (xm_buf (nz s))"
    "buf = xm_buf (nz s) \<or> (br_req (slots (xm_buf (nz s)) ! unat pos) \<noteq> None \<and>
       (\<exists>x. buf = (xm_buf (nz s))\<lparr>slots := (slots (xm_buf (nz s)))[unat pos := x]\<rparr> \<and>
            br_req x = br_req (slots (xm_buf (nz s)) ! unat pos) \<and> sent_time x \<noteq> None))"
  shows "xinv (nz_upd ((nz s)\<lparr>xm_buf := buf\<rparr>) s)"
proof -
  have inv: "rb_inv (xm_buf (nz s))" using assms(1) by (simp add: xinv_def)
  have i: "unat pos < length (slots (xm_buf (nz s)))" using assms(2) rb_invD(1)[OF inv] by (simp add: word_less_nat_alt)
  have "rb_inv buf \<and> buffered buf = buffered (xm_buf (nz s)) \<and> fin_closed buf = fin_closed (xm_buf (nz s))"
    using assms(3)
  proof (elim disjE conjE exE)
    fix x assume x: "br_req (slots (xm_buf (nz s)) ! unat pos) \<noteq> None" "buf = (xm_buf (nz s))\<lparr>slots := (slots (xm_buf (nz s)))[unat pos := x]\<rparr>"
      "br_req x = br_req (slots (xm_buf (nz s)) ! unat pos)" "sent_time x \<noteq> None"
    have "buffered buf = buffered (xm_buf (nz s))" using x by (intro buffered_touch[of buf _ "unat pos" x]) simp_all
    then show ?thesis using rb_inv_touch(1)[OF inv i x(1,3,4)] x(2) by simp
  qed (use inv in simp)
  then show ?thesis using assms(1) by (intro xinv_kept) (auto simp: kept_def xinv_def)
qed

lemma sent_time_set:
  assumes "xinv s" "pos < size_of (xm_buf (nz s))" "br_req (slots (xm_buf (nz s)) ! unat pos) \<noteq> None"
  shows "sent_time (slots (xm_buf (nz s)) ! unat pos) \<noteq> None"
proof -
  have inv: "rb_inv (xm_buf (nz s))" using assms(1) by (simp add: xinv_def)
  have "unat pos < length (slots (xm_buf (nz s)))" using assms(2) rb_invD(1)[OF inv] by (simp add: word_less_nat_alt)
  then show ?thesis using rb_invD(9)[OF inv] assms(3) by blast
qed

lemma kept_repair:
  assumes "rb_inv (xm_buf y)" "repairSetMetaConn conn helo rv now y = (e, x)"
  shows "kept y x"
proof -
  have "kept y y" "kept y (y\<lparr>client_for_setMeta := cl, xattrEnabled := xa, resend_all := n\<rparr>)" for cl xa n
    using assms(1) by (simp_all add: kept_def)
  moreover have "kept y (xmem_handleGeneralError err (y\<lparr>client_for_setMeta := cl\<rparr>))" for err cl
    using kept_error[of "y\<lparr>client_for_setMeta := cl\<rparr>" err] assms(1) by (simp add: kept_def)
  ultimately show ?thesis using assms(2) kept_error[OF assms(1)]
    by (auto simp: repairSetMetaConn_def Let_def split: if_splits sum.splits prod.splits option.splits bool.splits)
qed

lemma xinv_step: "xstep reqSize cfg s s' \<Longrightarrow> xinv s \<Longrightarrow> xinv s'"
proof (induction rule: xstep.induct)
  case (x_accept s r out x)
  then show ?case by (rule xinv_accept[rotated])
next
  case (x_receive_error s e)
  then show ?case by (intro xinv_kept kept_error) (simp_all add: xinv_def)
next
  case (x_ready s x)
  note e = ready_effect[OF x_ready(1)]
  have "outstanding (nz_upd x s) = outstanding s" using e(6) by (simp add: outstanding_def nz_upd_def)
  then show ?case using x_ready(2) e(1-5) by (simp add: xinv_def accounted_def nz_upd_def running_def)
next
  case (x_begin_batch s b rest m)
  then show ?case by (simp add: xinv_def accounted_def nz_upd_def running_def outstanding_def)
next
  case (x_item s b k r rest rnd now res x)
  then show ?case by (intro xinv_item)
next
  case (x_item_error s b k r rest rnd now e x)
  then show ?case by (intro xinv_item_error)
next
  case (x_end_batch s b)
  then show ?case by (simp add: xinv_def accounted_def outstanding_def)
next
  case (x_response now rc s ex x)
  then show ?case by (intro xinv_kept kept_receive) (simp_all add: xinv_def)
next
  case (x_resend pos s what md buf)
  show ?case
    by (rule xinv_touch[OF x_resend(3,1)])
      (use x_resend(2) sent_time_set[OF x_resend(3,1)] in
        \<open>auto simp: resendWithReset_begin_def Let_def split: option.splits if_splits\<close>)
next
  case (x_timeout pos s mr rt mi now chk buf)
  show ?case
    by (rule xinv_touch[OF x_timeout(3,1)])
      (use x_timeout(2) sent_time_set[OF x_timeout(3,1)] in
        \<open>auto simp: resendIfTimeout_begin_def Let_def split: option.splits if_splits\<close>)
next
  case (x_resend_end pos s isRetry sq now md buf)
  show ?case
    by (rule xinv_touch[OF x_resend_end(3,1)])
      (use x_resend_end(2) in \<open>auto simp: resend_end_def Let_def split: if_splits\<close>)
next
  case (x_repair conn helo rv now s e x)
  then show ?case by (intro xinv_kept kept_repair) (simp_all add: xinv_def)
next
  case (x_stop s st buf)
  have "st = Part_Stopping" using SetState_rank[OF x_stop(1)] by simp
  moreover have "buf = (xm_buf (nz s))\<lparr>fin_closed := True\<rparr>" using x_stop(2) by (auto simp: buf_close_def split: if_splits)
  moreover have "rb_inv ((xm_buf (nz s))\<lparr>fin_closed := True\<rparr>) = rb_inv (xm_buf (nz s))" by (simp add: rb_inv_def occupied_def)
  moreover have "buffered ((xm_buf (nz s))\<lparr>fin_closed := True\<rparr>) = buffered (xm_buf (nz s))" by (simp add: buffered_def)
  ultimately show ?case using x_stop(3) by (simp add: xinv_def accounted_def nz_upd_def running_def)
qed

lemma xinv_reach: "xreach reqSize cfg s \<Longrightarrow> xinv s"
  by (induction rule: xreach.induct) (auto intro: xinv_init xinv_step)

end
