(* ===== verification/Xmem_Safety.thy ===== *)
theory Xmem_Safety
  imports Xmem_System
begin

text \<open>
  The properties of the xmem nozzle: accounting of requests and the data channel
  over the reachable states of the system, and the operations on single requests.
\<close>

unbundle bit_operations_syntax


section \<open>Single operations\<close>

text \<open>The wait before a resend doubles with each retry up to the configured maximum.\<close>

lemma timeoutDuration_closed:
  assumes "0 \<le> respTimeout" "respTimeout \<le> maxRetryInterval"
  shows "timeoutDuration respTimeout maxRetryInterval n = min maxRetryInterval (respTimeout * 2 ^ nat n)"
proof -
  have "double_until k maxRetryInterval d = min maxRetryInterval (d * 2 ^ k)" if "0 \<le> d" "d \<le> maxRetryInterval" for k d
    using that
  proof (induction k arbitrary: d)
    case (Suc k)
    have "d * 2 ^ Suc k \<ge> 2 * d" using Suc.prems(1) mult_left_mono[of 1 "2 ^ k" "2 * d"] by simp
    then show ?case using Suc by (auto simp: min_def ac_simps)
  qed simp
  then show ?thesis using assms by (simp add: timeoutDuration_def)
qed

text \<open>The sizes of the last ten batches shift by one.\<close>

lemma recordBatchSize_shift:
  assumes "length (last_ten_batches_size x) = 10"
  shows "last_ten_batches_size (recordBatchSize n x) = n # butlast (last_ten_batches_size x)"
proof -
  obtain a b c d e f g h i j where xs: "last_ten_batches_size x = [a, b, c, d, e, f, g, h, i, j]"
    using assms by (auto simp: eval_nat_numeral length_Suc_conv)
  have "rev [1..<10] = [9, 8, 7, 6, 5, 4, 3, 2, 1 :: nat]" by (simp add: upt_rec)
  then show ?thesis by (simp add: recordBatchSize_def xs Let_def)
qed

lemma retry_loop_error: "fst (fst (retry_loop n write repair err w)) \<in> {None, err}"
  by (induction n arbitrary: w) (auto split: prod.splits)

lemma distinct_parts:
  assumes "distinct zs" "mset zs = mset xs + B + mset rs + G"
  shows "distinct rs \<and> set rs \<inter> (set xs \<union> set_mset B) = {}"
proof -
  have "count (mset zs) m \<le> 1" for m using assms(1) unfolding distinct_count_atmost_1 by simp
  then have sum: "count (mset xs) m + count B m + count (mset rs) m \<le> 1" for m
    unfolding assms(2) by (metis add.assoc add_leD1 count_union add.commute)
  have "distinct rs"
    using sum by (metis add_leD2 count_mset_0_iff distinct_count_atmost_1 le_antisym less_one linorder_not_less)
  moreover have "m \<notin> set xs \<union> set_mset B" if "m \<in> set rs" for m
  proof -
    have "0 < count (mset rs) m" using that by (metis count_greater_zero_iff set_mset_mset)
    then have "count (mset xs) m = 0" "count B m = 0" using sum[of m] by linarith+
    then show ?thesis by (auto simp: count_eq_zero_iff)
  qed
  ultimately show ?thesis by blast
qed


section \<open>Properties of the nozzle\<close>

text \<open>C29. No request is lost or counted twice: however the goroutines interleave, every request the
  nozzle accepted is in the data channel, in the request buffer, reported by exactly one event,
  or given up by the sender, and if the accepted mutations are all different, no mutation
  is reported twice or reported while it is still waiting.\<close>

theorem xmem_accounting:
  assumes "xreach reqSize cfg s"
  shows "mset (map mut (accepted s)) =
      mset (map mut (dataChan (nz s))) + buffered (xm_buf (nz s)) + mset (reported (xm_events (nz s))) + mset (map mut (given_up s)) \<and>
    (distinct (map mut (accepted s)) \<longrightarrow> distinct (reported (xm_events (nz s))) \<and>
      set (reported (xm_events (nz s))) \<inter> (mut ` set (dataChan (nz s)) \<union> set_mset (buffered (xm_buf (nz s)))) = {})"
proof -
  have acc: "mset (map mut (accepted s)) =
      mset (map mut (dataChan (nz s))) + buffered (xm_buf (nz s)) + mset (reported (xm_events (nz s))) + mset (map mut (given_up s))"
    using xinv_reach[OF assms] by (simp add: xinv_def accounted_def)
  then show ?thesis using distinct_parts[OF _ acc] by simp
qed

definition example_nozzle :: "unit xsys" where
  "example_nozzle = \<lparr>nz = \<lparr>xm_state = Part_Running, bOpen = True, xm_buf = newReqBuffer 2 0 0 2, xm_batch = newBatch 1 10,
     batches_ready_queue = [], ready_cap = 100, dataChan = [], dataChan_cap = 10, bytes_in_dataChan = 0, dataChan_control = True,
     counter_received = 0, counter_sent = 0, cur_batch_count = 0, client_for_setMeta = newXmemClient (Some ()) 5 60,
     xattrEnabled = True, compressionSetting = CompressionTypeNone, xm_events = [], recycled = [], resend_all = 0,
     last_ten_batches_size = replicate 10 0\<rparr>, sending = None, accepted = [], given_up = []\<rparr>"

definition example_cfg :: xmem_config where
  "example_cfg = \<lparr>maxCount = 1, maxSize = 10, maxDataChanSize = 1000, optiRepThreshold = 256\<rparr>"

definition example_mutation :: WrappedMCRequest where
  "example_mutation = addOne\<lparr>wr_Seqno := 7, Req := (Req addOne)\<lparr>Key := [1], VBucket := 3, Extras := replicate 24 0\<rparr>\<rparr>"

lemma sum_list_replicate_empty: "sum_list (replicate n {#}) = {#}"
  by (induction n) simp_all

lemma newReqBuffer_empty: "buffered (newReqBuffer sz th t c) = {#}" "fin_closed (newReqBuffer sz th t c) = False"
  by (simp_all add: newReqBuffer_def buf_initialize_def init_slots_spec buffered_def newBufferedMCRequest_def opt_mset_def
      sum_list_replicate_empty)

lemma example_init: "xinit example_nozzle"
  using newReqBuffer_inv[of 2 0] by (simp add: xinit_def example_nozzle_def newReqBuffer_empty newBatch_def)

lemma example_accept:
  "\<exists>s :: unit xsys. xstep (\<lambda>_. 30) example_cfg example_nozzle s \<and> accepted s = [example_mutation] \<and> dataChan (nz s) = [example_mutation] \<and>
     running (nz s) \<and> curCount (xm_batch (nz s)) = 1 \<and> batches_ready_queue (nz s) = [] \<and> ready_cap (nz s) = 100 \<and> sending s = None"
proof -
  have "validateRunningState (xm_state (nz example_nozzle)) = None" by (simp add: example_nozzle_def validateRunningState_def)
  moreover obtain out x where a: "xmem_accumuBatch (\<lambda>_. 30) example_cfg example_mutation (nz example_nozzle) = (out, Some x)"
    using accept_possible[of example_mutation "nz example_nozzle" "\<lambda>_. 30" example_cfg]
    by (auto simp: example_nozzle_def example_mutation_def)
  ultimately have st: "xstep (\<lambda>_. 30) example_cfg example_nozzle (nz_upd x (example_nozzle\<lparr>accepted := accepted example_nozzle @ [example_mutation]\<rparr>))"
    by (rule x_accept)
  note e = accept_effect[OF a]
  show ?thesis
    by (rule exI, rule conjI[OF st]) (use e in \<open>simp add: nz_upd_def example_nozzle_def running_def newBatch_def\<close>)
qed

theorem xmem_accounting_witness:
  "\<exists>s :: unit xsys. xreach (\<lambda>_. 30) example_cfg s \<and> accepted s = [example_mutation] \<and>
     mset (map mut [example_mutation]) = mset (map mut (dataChan (nz s))) + buffered (xm_buf (nz s)) + mset (reported (xm_events (nz s))) + mset (map mut (given_up s)) \<and>
     distinct (reported (xm_events (nz s)))"
proof -
  from example_accept obtain s where s: "xstep (\<lambda>_. 30) example_cfg example_nozzle s" "accepted s = [example_mutation]" by blast
  have r: "xreach (\<lambda>_. 30) example_cfg s" using xr_step[OF xr_init[OF example_init] s(1)] .
  from xmem_accounting[OF r] s(2) have "mset (map mut [example_mutation]) = mset (map mut (dataChan (nz s))) + buffered (xm_buf (nz s)) +
      mset (reported (xm_events (nz s))) + mset (map mut (given_up s))" "distinct (reported (xm_events (nz s)))" by simp_all
  with r s(2) show ?thesis by blast
qed

text \<open>C30. While the nozzle is running, the data channel holds exactly the requests that the current batch,
  the ready batches and the rest of the batch being sent count: the sender never waits for a
  request that is not there, and when it is idle and no batch is waiting, nothing is left over.\<close>

theorem sender_never_starves:
  assumes "xreach reqSize cfg s" "running (nz s)"
  shows "length (dataChan (nz s)) = outstanding s \<and>
    (sending s = Some (b, Suc k) \<longrightarrow> (\<exists>r x. readFromDataChan reqSize n (nz s) = Done (Inr r, x)))"
proof (intro conjI impI)
  show l: "length (dataChan (nz s)) = outstanding s" using xinv_reach[OF assms(1)] assms(2) by (simp add: xinv_def)
  assume "sending s = Some (b, Suc k)"
  then have "0 < length (dataChan (nz s))" unfolding l by (simp add: outstanding_def)
  then show "\<exists>r x. readFromDataChan reqSize n (nz s) = Done (Inr r, x)"
    by (cases "dataChan (nz s)") (auto simp: readFromDataChan_def)
qed

theorem sender_never_starves_witness:
  "\<exists>(s :: unit xsys) b. xreach (\<lambda>_. 30) example_cfg s \<and> sending s = Some (b, 1) \<and> length (dataChan (nz s)) = outstanding s \<and>
     (\<exists>r x. readFromDataChan (\<lambda>_. 30) 1000 (nz s) = Done (Inr r, x))"
proof -
  from example_accept obtain s where s: "xstep (\<lambda>_. 30) example_cfg example_nozzle s"
    "running (nz s)" "curCount (xm_batch (nz s)) = 1" "batches_ready_queue (nz s) = []" "ready_cap (nz s) = 100" "sending s = None" by blast
  have r: "xreach (\<lambda>_. 30) example_cfg s" using xr_step[OF xr_init[OF example_init] s(1)] .
  let ?x = "initNewBatch 1 10 ((nz s)\<lparr>batches_ready_queue := [xm_batch (nz s)]\<rparr>)"
  have "batchReady (maxCount example_cfg) (maxSize example_cfg) (nz s) = Done (None, ?x)"
    using s by (simp add: batchReady_def example_cfg_def)
  from xr_step[OF r x_ready[OF this]] have r2: "xreach (\<lambda>_. 30) example_cfg (nz_upd ?x s)" .
  have "sending (nz_upd ?x s) = None" "validateRunningState (xm_state (nz (nz_upd ?x s))) = None"
    "batches_ready_queue (nz (nz_upd ?x s)) = xm_batch (nz s) # []"
    using s(2,6) by (simp_all add: nz_upd_def initNewBatch_def running_def validateRunningState_def)
  note r3 = xr_step[OF r2 x_begin_batch[OF this, of "\<lambda>_. 30" example_cfg "[]"]]
  obtain s' where s': "s' = nz_upd ((nz (nz_upd ?x s))\<lparr>batches_ready_queue := []\<rparr>)
     ((nz_upd ?x s)\<lparr>sending := Some ((xm_batch (nz s))\<lparr>bigDoc_noRep_map := []\<rparr>, unat (curCount (xm_batch (nz s))))\<rparr>)" by blast
  note r3 = r3[folded s']
  obtain b where b: "sending s' = Some (b, Suc 0)" "running (nz s')"
    using s(2,3) by (simp add: s' nz_upd_def initNewBatch_def running_def)
  from sender_never_starves[OF r3 b(2), of b 0 1000] b(1) have "length (dataChan (nz s')) = outstanding s'"
    "\<exists>r x. readFromDataChan (\<lambda>_. 30) 1000 (nz s') = Done (Inr r, x)" by simp_all
  with r3 b(1) show ?thesis by (metis One_nat_def)
qed

text \<open>C39. A mutation whose extended attributes the target does not take is sent without them: for a body
  made of the length of the attributes, the attributes and the document, what goes out is the
  document, and the data type keeps only the compression bit, if compression is on.\<close>

theorem preprocess_strips_xattrs:
  assumes "Body (Req r) = put_uint32 (word_of_nat (length xattrs)) @ xattrs @ doc" "length xattrs + 4 < 2 ^ 32"
    "HasXattr (DataType (Req r))"
  shows "preprocessMCRequest False c r = Some (None, r\<lparr>Req := (Req r)\<lparr>Body := doc,
     DataType := DataType (Req r) AND (if c = CompressionTypeSnappy then 2 else 0)\<rparr>\<rparr>)"
proof -
  have n: "be_uint32 0 (Body (Req r)) = Some (word_of_nat (length xattrs))" by (simp add: assms(1) be_uint32_def slice_def)
  have u: "unat (word_of_nat (length xattrs) + 4 :: uint32) = length xattrs + 4"
    using assms(2) by (simp add: unat_word_ariths unat_of_nat)
  have sl: "slice (length xattrs + 4) (length (Body (Req r))) (Body (Req r)) = Some doc" by (simp add: slice_def assms(1))
  have m: "(DataType (Req r) AND NOT 4) AND (if c = CompressionTypeSnappy then 4 OR 2 else 4) = DataType (Req r) AND (if c = CompressionTypeSnappy then 2 else 0)"
  proof -
    have "(a AND NOT 4) AND 4 = 0" "(a AND NOT 4) AND (4 OR 2) = a AND 2" for a :: uint8
    proof -
      have "NOT 4 AND (4 :: uint8) = 0" "NOT 4 AND (4 OR 2 :: uint8) = 2" by simp_all
      then show "(a AND NOT 4) AND 4 = 0" "(a AND NOT 4) AND (4 OR 2) = a AND 2" by (metis and.assoc and_zero_eq)+
    qed
    then show ?thesis by simp
  qed
  have len: "\<not> length (Body (Req r)) < 4" by (simp add: assms(1))
  show ?thesis
  proof (cases "0 < DataType (Req r) AND NOT 4")
    case True
    then show ?thesis using assms(3) n u sl m len by (simp add: preprocessMCRequest_def Let_def)
  next
    case False
    then have z: "DataType (Req r) AND NOT 4 = 0" by (simp add: word_neq_0_conv[symmetric])
    then have "DataType (Req r) AND (if c = CompressionTypeSnappy then 2 else 0) = 0" using m by simp
    then show ?thesis using assms(3) n u sl z len by (simp add: preprocessMCRequest_def Let_def)
  qed
qed

theorem preprocess_strips_xattrs_witness:
  "preprocessMCRequest False CompressionTypeSnappy (example_mutation\<lparr>Req := (Req example_mutation)\<lparr>Body := put_uint32 2 @ [9, 9] @ [42], DataType := 7\<rparr>\<rparr>)
     = Some (None, example_mutation\<lparr>Req := (Req example_mutation)\<lparr>Body := [42], DataType := 2\<rparr>\<rparr>)"
proof -
  let ?r = "example_mutation\<lparr>Req := (Req example_mutation)\<lparr>Body := put_uint32 2 @ [9, 9] @ [42], DataType := 7\<rparr>\<rparr>"
  have "Body (Req ?r) = put_uint32 (word_of_nat (length [9, 9 :: uint8])) @ [9, 9] @ [42]" by simp
  from preprocess_strips_xattrs[OF this, of CompressionTypeSnappy] show ?thesis by (simp add: HasXattr_def)
qed


end
