(* ===== verification/Checkpoint.thy ===== *)
theory Checkpoint
  imports Go_Strings
begin

text \<open>
  Checkpoint records and documents, \<open>metadata/checkpoint.go\<close>: comparison of
  records, the bounded newest-first list a document keeps, and the JSON form in
  which documents are stored.

  Go's JSON decoder reads a number into an interface as a \<open>float64\<close>; the record
  decoder of this file goes through that type, so the model rounds to 53
  significant bits where the code does.
\<close>


section \<open>Records\<close>

datatype TargetVBOpaque =
    TargetVBUuid uint64
  | TargetVBUuidStr string
  | TargetVBUuidAndTimestamp string string

record CheckpointRecord =
  Failover_uuid :: uint64
  Seqno :: uint64
  Dcp_snapshot_seqno :: uint64
  Dcp_snapshot_end_seqno :: uint64
  Target_vb_opaque :: "TargetVBOpaque option"
  Target_Seqno :: uint64

text \<open>The method of the three opaque types; a \<open>nil\<close> argument is \<open>None\<close>.\<close>

fun TargetVBOpaque_IsSame :: "TargetVBOpaque \<Rightarrow> TargetVBOpaque option \<Rightarrow> bool" where
  "TargetVBOpaque_IsSame (TargetVBUuid u) (Some (TargetVBUuid u')) = (u = u')"
| "TargetVBOpaque_IsSame (TargetVBUuidStr s) (Some (TargetVBUuidStr s')) = (s = s')"
| "TargetVBOpaque_IsSame (TargetVBUuidAndTimestamp s t) (Some (TargetVBUuidAndTimestamp s' t')) =
     (s = s' \<and> t = t')"
| "TargetVBOpaque_IsSame _ _ = False"

text \<open>
  Comparison of two record pointers.  \<open>None\<close> is the panic of calling a method on
  the nil interface \<open>Target_vb_opaque\<close>, reached only when the four preceding
  fields agree.
\<close>

definition IsSame :: "CheckpointRecord option \<Rightarrow> CheckpointRecord option \<Rightarrow> bool option" where
  "IsSame ckptRecord new_record =
     (case (ckptRecord, new_record) of
        (None, Some _) \<Rightarrow> Some False
      | (Some _, None) \<Rightarrow> Some False
      | (None, None) \<Rightarrow> Some True
      | (Some a, Some b) \<Rightarrow>
          if Failover_uuid a = Failover_uuid b \<and> Seqno a = Seqno b \<and>
             Dcp_snapshot_seqno a = Dcp_snapshot_seqno b \<and>
             Dcp_snapshot_end_seqno a = Dcp_snapshot_end_seqno b
          then (case Target_vb_opaque a of
                  None \<Rightarrow> None
                | Some oa \<Rightarrow> Some (TargetVBOpaque_IsSame oa (Target_vb_opaque b) \<and>
                                  Target_Seqno a = Target_Seqno b))
          else Some False)"

lemma TargetVBOpaque_IsSame_iff: "TargetVBOpaque_IsSame a b \<longleftrightarrow> b = Some a"
  by (induction a b rule: TargetVBOpaque_IsSame.induct) auto

text \<open>A record pointer whose opaque is set; the code only ever stores such records.\<close>

definition complete :: "CheckpointRecord option \<Rightarrow> bool" where
  "complete r \<longleftrightarrow> (case r of None \<Rightarrow> True | Some a \<Rightarrow> Target_vb_opaque a \<noteq> None)"

lemma IsSame_complete:
  assumes "complete a"
  shows "IsSame a b = Some (a = b)"
proof (cases a)
  case None
  then show ?thesis by (cases b) (simp_all add: IsSame_def)
next
  case (Some x)
  with assms obtain oa where oa: "Target_vb_opaque x = Some oa" by (auto simp: complete_def)
  show ?thesis
  proof (cases b)
    case b: (Some y)
    have "x = y \<longleftrightarrow> Failover_uuid x = Failover_uuid y \<and> Seqno x = Seqno y \<and>
        Dcp_snapshot_seqno x = Dcp_snapshot_seqno y \<and>
        Dcp_snapshot_end_seqno x = Dcp_snapshot_end_seqno y \<and>
        Target_vb_opaque y = Some oa \<and> Target_Seqno x = Target_Seqno y"
      using oa by (cases x; cases y) auto
    with Some b oa show ?thesis by (simp add: IsSame_def TargetVBOpaque_IsSame_iff) blast
  qed (simp add: Some IsSame_def)
qed


section \<open>Documents\<close>

record CheckpointsDoc =
  Checkpoint_records :: "CheckpointRecord option list"
  XattrSeqno :: uint64
  TargetClusterVersion :: int
  SpecInternalId :: string

definition NewCheckpointsDoc :: "nat \<Rightarrow> string \<Rightarrow> CheckpointsDoc" where
  "NewCheckpointsDoc maxToKeep specInternalId =
     \<lparr>Checkpoint_records = replicate maxToKeep None, XattrSeqno = 0, TargetClusterVersion = 0,
      SpecInternalId = specInternalId\<rparr>"

text \<open>The in-place shift, from the last slot down to slot 1.\<close>

fun shift_down :: "nat \<Rightarrow> 'a list \<Rightarrow> 'a list" where
  "shift_down 0 xs = xs"
| "shift_down (Suc i) xs = shift_down i (xs[Suc i := xs ! i])"

definition AddRecord ::
  "nat \<Rightarrow> CheckpointRecord option \<Rightarrow> CheckpointsDoc \<Rightarrow> (CheckpointsDoc \<times> bool) option" where
  "AddRecord maxToKeep record doc =
     (let recs = Checkpoint_records doc; len = length recs in
        if len > 0 then
          (case IsSame (recs ! 0) record of
             None \<Rightarrow> None
           | Some True \<Rightarrow> Some (doc, False)
           | Some False \<Rightarrow>
               let recs1 = (if len > maxToKeep then take maxToKeep recs
                            else if len < maxToKeep then recs @ replicate (maxToKeep - len) None
                            else recs);
                   recs2 = shift_down (length recs1 - 1) recs1
               in if recs2 = [] then None
                  else Some (doc\<lparr>Checkpoint_records := recs2[0 := record]\<rparr>, True))
        else Some (doc\<lparr>Checkpoint_records := recs @ [record]\<rparr>, True))"

definition GetCheckpointRecords :: "nat \<Rightarrow> CheckpointsDoc \<Rightarrow> CheckpointRecord option list" where
  "GetCheckpointRecords maxToRead doc =
     (if length (Checkpoint_records doc) \<le> maxToRead then Checkpoint_records doc
      else take maxToRead (Checkpoint_records doc))"

lemma length_shift_down [simp]: "length (shift_down i xs) = length xs"
  by (induction i xs rule: shift_down.induct) auto

lemma nth_shift_down:
  assumes "i < length xs" "j < length xs"
  shows "shift_down i xs ! j = (if 0 < j \<and> j \<le> i then xs ! (j - 1) else xs ! j)"
  using assms
proof (induction i xs arbitrary: j rule: shift_down.induct)
  case (2 i xs)
  then show ?case by (cases "j = Suc i") (auto simp: nth_list_update)
qed simp

lemma shift_down_butlast:
  assumes "xs \<noteq> []"
  shows "(shift_down (length xs - 1) xs)[0 := r] = r # butlast xs"
proof (rule nth_equalityI)
  show "length ((shift_down (length xs - 1) xs)[0 := r]) = length (r # butlast xs)"
    using assms by simp
next
  fix j assume "j < length ((shift_down (length xs - 1) xs)[0 := r])"
  then have j: "j < length xs" by simp
  show "(shift_down (length xs - 1) xs)[0 := r] ! j = (r # butlast xs) ! j"
    using j assms by (cases j) (auto simp: nth_list_update nth_shift_down nth_butlast)
qed

text \<open>Pad or cut a list to the number of records kept.\<close>

definition fit :: "nat \<Rightarrow> CheckpointRecord option list \<Rightarrow> CheckpointRecord option list" where
  "fit n xs = take n xs @ replicate (n - length xs) None"

lemma length_fit [simp]: "length (fit n xs) = n"
  by (simp add: fit_def)

lemma AddRecord_complete:
  assumes "0 < n" "\<forall>r\<in>set (Checkpoint_records doc). complete r"
  shows "AddRecord n record doc =
     (if Checkpoint_records doc = [] then Some (doc\<lparr>Checkpoint_records := [record]\<rparr>, True)
      else if hd (Checkpoint_records doc) = record then Some (doc, False)
      else Some (doc\<lparr>Checkpoint_records := record # butlast (fit n (Checkpoint_records doc))\<rparr>, True))"
proof (cases "Checkpoint_records doc")
  case (Cons r rs)
  let ?recs = "Checkpoint_records doc"
  have same: "IsSame (?recs ! 0) record = Some (r = record)"
    using Cons assms(2) by (simp add: IsSame_complete)
  have fit: "(if length ?recs > n then take n ?recs
              else if length ?recs < n then ?recs @ replicate (n - length ?recs) None else ?recs) = fit n ?recs"
    by (auto simp: fit_def)
  have ne: "fit n ?recs \<noteq> []" using assms(1) by (metis length_fit list.size(3) neq0_conv)
  then have sh: "(shift_down (length (fit n ?recs) - 1) (fit n ?recs))[0 := record] =
      record # butlast (fit n ?recs)" by (rule shift_down_butlast)
  have "shift_down (length (fit n ?recs) - 1) (fit n ?recs) \<noteq> []"
    using ne by (metis length_shift_down length_0_conv)
  with same Cons show ?thesis
    unfolding AddRecord_def Let_def fit sh by (cases "r = record") auto
qed (simp add: AddRecord_def)


text \<open>
  The history a document stands for: the records added, newest first, without
  those that repeat their predecessor.
\<close>

fun squeeze :: "'a list \<Rightarrow> 'a list" where
  "squeeze (x # y # xs) = (if x = y then squeeze (y # xs) else x # squeeze (y # xs))"
| "squeeze xs = xs"

fun add_all :: "nat \<Rightarrow> CheckpointRecord list \<Rightarrow> CheckpointsDoc \<Rightarrow> CheckpointsDoc option" where
  "add_all n [] doc = Some doc"
| "add_all n (r # rs) doc =
     (case AddRecord n (Some r) doc of None \<Rightarrow> None | Some (doc', _) \<Rightarrow> add_all n rs doc')"

lemma squeeze_not_Nil [simp]: "squeeze (x # xs) \<noteq> []" "hd (squeeze (x # xs)) = x"
  by (induction xs arbitrary: x) auto

lemma squeeze_Cons: "squeeze (x # xs) = (if xs \<noteq> [] \<and> hd xs = x then squeeze xs else x # squeeze xs)"
  by (cases xs) auto

lemma set_squeeze: "set (squeeze xs) = set xs"
  by (induction xs rule: squeeze.induct) auto

text \<open>One addition refines consing onto the history.\<close>

definition doc_of :: "nat \<Rightarrow> CheckpointRecord list \<Rightarrow> CheckpointRecord option list" where
  "doc_of n hist = fit n (map Some (squeeze hist))"

lemma doc_of_complete:
  "\<forall>r\<in>set hist. Target_vb_opaque r \<noteq> None \<Longrightarrow> \<forall>r\<in>set (doc_of n hist). complete r"
  by (auto simp: doc_of_def fit_def complete_def set_squeeze dest!: in_set_takeD split: option.splits)

lemma fit_Cons_butlast: "0 < n \<Longrightarrow> x # butlast (fit n (fit n xs)) = fit n (x # xs)"
proof (rule nth_equalityI)
  fix i assume "0 < n" "i < length (x # butlast (fit n (fit n xs)))"
  then show "(x # butlast (fit n (fit n xs))) ! i = fit n (x # xs) ! i"
    by (cases i; cases n) (auto simp: fit_def nth_append nth_butlast)
qed simp

lemma hd_doc_of: "0 < n \<Longrightarrow> hd (doc_of n hist) = (if hist = [] then None else Some (hd hist))"
  by (cases hist; cases n) (auto simp: doc_of_def fit_def hd_append hd_map take_Suc)

lemma AddRecord_refines:
  assumes "0 < n" "Checkpoint_records doc = doc_of n hist"
    "\<forall>r\<in>set hist. Target_vb_opaque r \<noteq> None"
  shows "\<exists>doc' added. AddRecord n (Some r) doc = Some (doc', added) \<and>
           Checkpoint_records doc' = doc_of n (r # hist) \<and>
           added = (hist = [] \<or> hd hist \<noteq> r) \<and>
           doc' = doc\<lparr>Checkpoint_records := Checkpoint_records doc'\<rparr>"
proof -
  have ne: "Checkpoint_records doc \<noteq> []"
    using assms(1,2) by (metis doc_of_def length_fit list.size(3) neq0_conv)
  have add: "AddRecord n (Some r) doc =
      (if hd (Checkpoint_records doc) = Some r then Some (doc, False)
       else Some (doc\<lparr>Checkpoint_records := Some r # butlast (fit n (Checkpoint_records doc))\<rparr>, True))"
    using AddRecord_complete[of n doc "Some r"] assms doc_of_complete[OF assms(3)] ne by simp
  show ?thesis
  proof (cases "hist \<noteq> [] \<and> hd hist = r")
    case True
    then have "hd (Checkpoint_records doc) = Some r" "doc_of n (r # hist) = doc_of n hist"
      using assms(1,2) by (simp_all add: hd_doc_of) (simp_all add: doc_of_def squeeze_Cons)
    with add assms(2) True show ?thesis by auto
  next
    case False
    then have "hd (Checkpoint_records doc) \<noteq> Some r" using assms(1,2) by (auto simp: hd_doc_of)
    moreover have "Some r # butlast (fit n (doc_of n hist)) = doc_of n (r # hist)"
      using False fit_Cons_butlast[OF assms(1), of "Some r" "map Some (squeeze hist)"]
      by (auto simp: doc_of_def squeeze_Cons)
    ultimately show ?thesis using add assms(2) False by auto
  qed
qed

lemma add_all_refines:
  assumes "0 < n" "Checkpoint_records doc = doc_of n hist"
    "\<forall>r\<in>set hist \<union> set rs. Target_vb_opaque r \<noteq> None"
  shows "\<exists>doc'. add_all n rs doc = Some doc' \<and> Checkpoint_records doc' = doc_of n (rev rs @ hist)"
  using assms(2,3)
proof (induction rs arbitrary: doc hist)
  case (Cons r rs)
  then obtain doc' added where d: "AddRecord n (Some r) doc = Some (doc', added)"
    "Checkpoint_records doc' = doc_of n (r # hist)"
    using AddRecord_refines[OF assms(1), of doc hist r] by auto
  from Cons.IH[OF this(2)] Cons.prems(2) d(1) show ?case by auto
qed simp



section \<open>The JSON form\<close>

text \<open>
  A parsed JSON value.  The documents of this file hold no fractions, so a
  number is the integer written in the document; reading it into a Go interface
  rounds it to a \<open>float64\<close>.
\<close>

datatype json =
    JNull
  | JBool bool
  | JNumber int
  | JString string
  | JArray "json list"
  | JObject "(string \<times> json) list"

fun bit_length :: "nat \<Rightarrow> nat" where
  "bit_length n = (if n = 0 then 0 else Suc (bit_length (n div 2)))"

declare bit_length.simps [simp del]

text \<open>Rounding to nearest, ties to even, with 53 significant bits.\<close>

definition float64_of :: "nat \<Rightarrow> nat" where
  "float64_of n =
     (if n < 2 ^ 53 then n
      else let e = bit_length n - 53; q = n div 2 ^ e; r = n mod 2 ^ e;
               q' = (if 2 * r > 2 ^ e \<or> 2 * r = 2 ^ e \<and> odd q then q + 1 else q)
           in q' * 2 ^ e)"

text \<open>
  The conversion \<open>uint64(f)\<close>: for a value that does not fit, the result of the
  amd64 instruction sequence; a negative number wraps.
\<close>

definition uint64_of_number :: "int \<Rightarrow> uint64" where
  "uint64_of_number i =
     (if i < 0 then word_of_int (- int (float64_of (nat (- i))))
      else if float64_of (nat i) < 2 ^ 64 then word_of_nat (float64_of (nat i))
      else 2 ^ 63)"

definition marshal_opaque :: "TargetVBOpaque option \<Rightarrow> json" where
  "marshal_opaque opq =
     (case opq of
        None \<Rightarrow> JNull
      | Some (TargetVBUuid u) \<Rightarrow> JObject [(''target_vb_uuid'', JNumber (uint u))]
      | Some (TargetVBUuidStr s) \<Rightarrow> JObject [(''target_vb_uuid'', JString s)]
      | Some (TargetVBUuidAndTimestamp s t) \<Rightarrow>
          JObject [(''target_vb_uuid'', JString s), (''startup_time'', JString t)])"

definition marshal_record :: "CheckpointRecord option \<Rightarrow> json" where
  "marshal_record r =
     (case r of None \<Rightarrow> JNull
      | Some a \<Rightarrow> JObject
          [(''failover_uuid'', JNumber (uint (Failover_uuid a))),
           (''seqno'', JNumber (uint (Seqno a))),
           (''dcp_snapshot_seqno'', JNumber (uint (Dcp_snapshot_seqno a))),
           (''dcp_snapshot_end_seqno'', JNumber (uint (Dcp_snapshot_end_seqno a))),
           (''target_vb_opaque'', marshal_opaque (Target_vb_opaque a)),
           (''target_seqno'', JNumber (uint (Target_Seqno a)))])"

definition marshal_doc :: "CheckpointsDoc \<Rightarrow> json" where
  "marshal_doc d = JObject
     [(''checkpoints'', JArray (map marshal_record (Checkpoint_records d))),
      (''xattrSeqno'', JNumber (uint (XattrSeqno d))),
      (''targetClusterVersion'', JNumber (TargetClusterVersion d)),
      (''specInternalId'', JString (SpecInternalId d))]"

text \<open>\<open>Inl ()\<close> is \<open>TargetVBOpaqueUnmarshalError\<close>.\<close>

definition UnmarshalTargetVBOpaque :: "json \<Rightarrow> unit + TargetVBOpaque option" where
  "UnmarshalTargetVBOpaque j =
     (case j of
        JNull \<Rightarrow> Inr None
      | JObject fieldMap \<Rightarrow>
          if length fieldMap = 1 then
            (case map_of fieldMap ''target_vb_uuid'' of
               Some (JNumber n) \<Rightarrow> Inr (Some (TargetVBUuid (uint64_of_number n)))
             | Some (JString s) \<Rightarrow> Inr (Some (TargetVBUuidStr s))
             | _ \<Rightarrow> Inl ())
          else if length fieldMap = 2 then
            (case map_of fieldMap ''target_vb_uuid'' of
               Some (JString s) \<Rightarrow>
                 (case map_of fieldMap ''startup_time'' of
                    Some (JString t) \<Rightarrow> Inr (Some (TargetVBUuidAndTimestamp s t))
                  | _ \<Rightarrow> Inl ())
             | _ \<Rightarrow> Inl ())
          else Inl ()
      | _ \<Rightarrow> Inl ())"

text \<open>
  A field is left at its old value when absent; a value of another type than
  number fails the type assertion and panics (\<open>None\<close>).
\<close>

definition field_uint64 :: "(string \<times> json) list \<Rightarrow> string \<Rightarrow> uint64 \<Rightarrow> uint64 option" where
  "field_uint64 fm k old =
     (case map_of fm k of
        None \<Rightarrow> Some old
      | Some (JNumber n) \<Rightarrow> Some (uint64_of_number n)
      | Some _ \<Rightarrow> None)"

definition empty_record :: CheckpointRecord where
  "empty_record = \<lparr>Failover_uuid = 0, Seqno = 0, Dcp_snapshot_seqno = 0,
     Dcp_snapshot_end_seqno = 0, Target_vb_opaque = None, Target_Seqno = 0\<rparr>"

definition UnmarshalJSON_record ::
  "(string \<times> json) list \<Rightarrow> CheckpointRecord \<Rightarrow> (unit + CheckpointRecord) option" where
  "UnmarshalJSON_record fieldMap rec = do {
     fu \<leftarrow> field_uint64 fieldMap ''failover_uuid'' (Failover_uuid rec);
     sq \<leftarrow> field_uint64 fieldMap ''seqno'' (Seqno rec);
     ss \<leftarrow> field_uint64 fieldMap ''dcp_snapshot_seqno'' (Dcp_snapshot_seqno rec);
     se \<leftarrow> field_uint64 fieldMap ''dcp_snapshot_end_seqno'' (Dcp_snapshot_end_seqno rec);
     tq \<leftarrow> field_uint64 fieldMap ''target_seqno'' (Target_Seqno rec);
     (case map_of fieldMap ''target_vb_opaque'' of
        None \<Rightarrow> Some (Inr (rec\<lparr>Failover_uuid := fu, Seqno := sq, Dcp_snapshot_seqno := ss,
                  Dcp_snapshot_end_seqno := se, Target_Seqno := tq\<rparr>))
      | Some j \<Rightarrow>
          (case UnmarshalTargetVBOpaque j of
             Inl e \<Rightarrow> Some (Inl e)
           | Inr obj \<Rightarrow> Some (Inr (rec\<lparr>Failover_uuid := fu, Seqno := sq, Dcp_snapshot_seqno := ss,
               Dcp_snapshot_end_seqno := se, Target_vb_opaque := obj, Target_Seqno := tq\<rparr>)))) }"

text \<open>Decoding a slot: \<open>null\<close> leaves the pointer nil.\<close>

definition unmarshal_slot :: "json \<Rightarrow> (unit + CheckpointRecord option) option" where
  "unmarshal_slot j =
     (case j of
        JNull \<Rightarrow> Some (Inr None)
      | JObject fm \<Rightarrow> map_option (map_sum id Some) (UnmarshalJSON_record fm empty_record)
      | _ \<Rightarrow> Some (Inl ()))"

fun unmarshal_slots :: "json list \<Rightarrow> (unit + CheckpointRecord option list) option" where
  "unmarshal_slots [] = Some (Inr [])"
| "unmarshal_slots (j # js) = do {
     r \<leftarrow> unmarshal_slot j;
     rs \<leftarrow> unmarshal_slots js;
     Some (case r of Inl e \<Rightarrow> Inl e | Inr x \<Rightarrow> map_sum id (Cons x) rs) }"

text \<open>
  The standard decoder on the document's own tagged fields, which it reads
  exactly: an absent field or \<open>null\<close> leaves the zero value, a number out of range
  or a value of another kind is an error.
\<close>

definition dec_uint64 :: "json option \<Rightarrow> unit + uint64" where
  "dec_uint64 j =
     (case j of None \<Rightarrow> Inr 0 | Some JNull \<Rightarrow> Inr 0
      | Some (JNumber n) \<Rightarrow> if 0 \<le> n \<and> n < 2 ^ 64 then Inr (word_of_int n) else Inl ()
      | Some _ \<Rightarrow> Inl ())"

definition dec_int :: "json option \<Rightarrow> unit + int" where
  "dec_int j =
     (case j of None \<Rightarrow> Inr 0 | Some JNull \<Rightarrow> Inr 0
      | Some (JNumber n) \<Rightarrow> if - (2 ^ 63) \<le> n \<and> n < 2 ^ 63 then Inr n else Inl ()
      | Some _ \<Rightarrow> Inl ())"

definition dec_string :: "json option \<Rightarrow> unit + string" where
  "dec_string j =
     (case j of None \<Rightarrow> Inr [] | Some JNull \<Rightarrow> Inr [] | Some (JString s) \<Rightarrow> Inr s | Some _ \<Rightarrow> Inl ())"

definition dec_slots :: "json option \<Rightarrow> (unit + CheckpointRecord option list) option" where
  "dec_slots j =
     (case j of None \<Rightarrow> Some (Inr []) | Some JNull \<Rightarrow> Some (Inr [])
      | Some (JArray js) \<Rightarrow> unmarshal_slots js | Some _ \<Rightarrow> Some (Inl ()))"

definition unmarshal_doc :: "json \<Rightarrow> (unit + CheckpointsDoc) option" where
  "unmarshal_doc j =
     (case j of
        JObject fm \<Rightarrow> do {
          rs \<leftarrow> dec_slots (map_of fm ''checkpoints'');
          Some (case (rs, dec_uint64 (map_of fm ''xattrSeqno''),
                      dec_int (map_of fm ''targetClusterVersion''),
                      dec_string (map_of fm ''specInternalId'')) of
                  (Inr r, Inr x, Inr v, Inr i) \<Rightarrow>
                    Inr \<lparr>Checkpoint_records = r, XattrSeqno = x, TargetClusterVersion = v,
                         SpecInternalId = i\<rparr>
                | _ \<Rightarrow> Inl ()) }
      | JNull \<Rightarrow> Some (Inr \<lparr>Checkpoint_records = [], XattrSeqno = 0, TargetClusterVersion = 0,
                         SpecInternalId = []\<rparr>)
      | _ \<Rightarrow> Some (Inl ()))"

text \<open>Numbers below two to the 53 survive the detour through \<open>float64\<close>.\<close>

definition exact_u64 :: "uint64 \<Rightarrow> bool" where
  "exact_u64 w \<longleftrightarrow> unat w < 2 ^ 53"

definition exact_record :: "CheckpointRecord \<Rightarrow> bool" where
  "exact_record a \<longleftrightarrow>
     exact_u64 (Failover_uuid a) \<and> exact_u64 (Seqno a) \<and> exact_u64 (Dcp_snapshot_seqno a) \<and>
     exact_u64 (Dcp_snapshot_end_seqno a) \<and> exact_u64 (Target_Seqno a) \<and>
     (case Target_vb_opaque a of Some (TargetVBUuid u) \<Rightarrow> exact_u64 u | _ \<Rightarrow> True)"

lemma uint64_of_number_exact: "exact_u64 w \<Longrightarrow> uint64_of_number (uint w) = w"
proof -
  assume "exact_u64 w"
  then have "float64_of (unat w) = unat w" by (simp add: exact_u64_def float64_of_def)
  moreover have "nat (uint w) = unat w" by simp
  moreover have "unat w < 2 ^ 64" using unsigned_less[of w] by simp
  ultimately show ?thesis by (simp add: uint64_of_number_def)
qed

lemma unmarshal_opaque_roundtrip:
  assumes "case opq of Some (TargetVBUuid u) \<Rightarrow> exact_u64 u | _ \<Rightarrow> True"
  shows "UnmarshalTargetVBOpaque (marshal_opaque opq) = Inr opq"
  using assms
  by (auto simp: marshal_opaque_def UnmarshalTargetVBOpaque_def uint64_of_number_exact
      split: option.splits TargetVBOpaque.splits)

lemma unmarshal_slot_roundtrip:
  assumes "case r of None \<Rightarrow> True | Some a \<Rightarrow> exact_record a"
  shows "unmarshal_slot (marshal_record r) = Some (Inr r)"
proof (cases r)
  case (Some a)
  with assms show ?thesis
    by (cases a)
       (simp add: unmarshal_slot_def marshal_record_def UnmarshalJSON_record_def field_uint64_def
         exact_record_def uint64_of_number_exact unmarshal_opaque_roundtrip empty_record_def)
qed (simp add: unmarshal_slot_def marshal_record_def)

lemma unmarshal_slots_roundtrip:
  assumes "\<forall>r\<in>set rs. case r of None \<Rightarrow> True | Some a \<Rightarrow> exact_record a"
  shows "unmarshal_slots (map marshal_record rs) = Some (Inr rs)"
  using assms by (induction rs) (auto simp: unmarshal_slot_roundtrip)

lemma unmarshal_doc_roundtrip:
  assumes "\<forall>r\<in>set (Checkpoint_records d). case r of None \<Rightarrow> True | Some a \<Rightarrow> exact_record a"
    "- (2 ^ 63) \<le> TargetClusterVersion d" "TargetClusterVersion d < 2 ^ 63"
  shows "unmarshal_doc (marshal_doc d) = Some (Inr d)"
proof -
  have "0 \<le> uint (XattrSeqno d) \<and> uint (XattrSeqno d) < 2 ^ 64"
    using unsigned_less[of "XattrSeqno d"] by simp
  then have "dec_uint64 (Some (JNumber (uint (XattrSeqno d)))) = Inr (XattrSeqno d)"
    by (simp add: dec_uint64_def)
  then show ?thesis
    using assms unmarshal_slots_roundtrip[OF assms(1)]
    by (cases d) (simp add: unmarshal_doc_def marshal_doc_def dec_slots_def dec_int_def dec_string_def)
qed


section \<open>Properties of checkpoint documents\<close>

text \<open>C10. Adding checkpoint records one after the other to a new document keeps exactly the
  newest ones, newest first, without those equal to their predecessor, padded with empty
  slots to the configured number: the in-place shift implements a bounded history.\<close>

theorem checkpoint_history:
  assumes "0 < n" "\<forall>r\<in>set rs. Target_vb_opaque r \<noteq> None"
  shows "\<exists>doc. add_all n rs (NewCheckpointsDoc n spec) = Some doc \<and>
           Checkpoint_records doc =
             take n (map Some (squeeze (rev rs))) @ replicate (n - length (squeeze (rev rs))) None"
  using add_all_refines[OF assms(1), of "NewCheckpointsDoc n spec" "[]" rs] assms(2)
  by (simp add: NewCheckpointsDoc_def doc_of_def fit_def)

definition example_record :: "uint64 \<Rightarrow> CheckpointRecord" where
  "example_record s = empty_record\<lparr>Seqno := s, Target_vb_opaque := Some (TargetVBUuid 9)\<rparr>"

theorem checkpoint_history_witness:
  "\<exists>doc. add_all 3 [example_record 5, example_record 5, example_record 8] (NewCheckpointsDoc 3 ''id'') = Some doc \<and>
     Checkpoint_records doc = [Some (example_record 8), Some (example_record 5), None]"
proof -
  have ne: "example_record 8 \<noteq> example_record 5" by (simp add: example_record_def empty_record_def)
  show ?thesis
    using checkpoint_history[of 3 "[example_record 5, example_record 5, example_record 8]" "''id''"] ne
    by (simp add: example_record_def)
qed

text \<open>C11. A document written and read back is unchanged as long as the sequence numbers and
  uuids in its records are below two to the 53; the record decoder reads them as floating
  point numbers.\<close>

theorem checkpoint_json_roundtrip:
  assumes "\<forall>r\<in>set (Checkpoint_records d). case r of None \<Rightarrow> True | Some a \<Rightarrow> exact_record a"
    "- (2 ^ 63) \<le> TargetClusterVersion d" "TargetClusterVersion d < 2 ^ 63"
  shows "unmarshal_doc (marshal_doc d) = Some (Inr d)"
  using assms by (rule unmarshal_doc_roundtrip)

theorem checkpoint_json_roundtrip_witness:
  "unmarshal_doc (marshal_doc (NewCheckpointsDoc 2 ''x''\<lparr>Checkpoint_records := [Some (example_record 7), None]\<rparr>)) =
     Some (Inr (NewCheckpointsDoc 2 ''x''\<lparr>Checkpoint_records := [Some (example_record 7), None]\<rparr>))"
  by (rule checkpoint_json_roundtrip)
     (simp_all add: NewCheckpointsDoc_def example_record_def empty_record_def exact_record_def exact_u64_def)


end
