(* ===== verification/Meta_KV.thy ===== *)
theory Meta_KV
  imports Go_Strings
begin

text \<open>
  The metadata service over metakv, \<open>metadata_svc/metakv_metadata_service.go\<close>, with
  the retry executor of \<open>utils/utils.go\<close> and the error classification of
  \<open>service_def/metadata_svc.go\<close>.

  metakv itself is a package outside the repository: it is the parameter \<open>mk\<close>, a
  record of its calls over a world \<open>'s\<close> that also decides which calls fail.  What
  the service relies on is the locale \<open>metakv_store\<close>; the contract the service
  offers its own clients is the locale \<open>metadata_store\<close>, and the \<open>sublocale\<close>
  between them is the correctness of the wrappers.
\<close>

record ('s, 'v, 'r) metakv =
  mk_Get :: "string \<Rightarrow> 's \<Rightarrow> ('v option \<times> 'r option \<times> goerror option) \<times> 's"
  mk_Add :: "string \<Rightarrow> 'v \<Rightarrow> bool \<Rightarrow> 's \<Rightarrow> goerror option \<times> 's"
  mk_Set :: "string \<Rightarrow> 'v \<Rightarrow> 'r option \<Rightarrow> bool \<Rightarrow> 's \<Rightarrow> goerror option \<times> 's"
  mk_Delete :: "string \<Rightarrow> 'r option \<Rightarrow> 's \<Rightarrow> goerror option \<times> 's"
  mk_RecursiveDelete :: "string \<Rightarrow> 's \<Rightarrow> goerror option \<times> 's"
  mk_ListAllChildren :: "string \<Rightarrow> 's \<Rightarrow> ((string \<times> 'v \<times> 'r) list \<times> goerror option) \<times> 's"
  mk_ErrRevMismatch :: goerror


section \<open>The retry executor\<close>

text \<open>
  The operation is a state transformer with an error result; the loop returns
  the last error, the state and the waits between the attempts.
\<close>

fun backoff_loop ::
  "nat \<Rightarrow> int \<Rightarrow> int \<Rightarrow> ('s \<Rightarrow> goerror option \<times> 's) \<Rightarrow> 's \<Rightarrow> goerror option \<times> 's \<times> int list" where
  "backoff_loop 0 waitTime factor op s = (case op s of (e, s') \<Rightarrow> (e, s', []))"
| "backoff_loop (Suc k) waitTime factor op s =
     (case op s of
        (None, s') \<Rightarrow> (None, s', [])
      | (Some _, s') \<Rightarrow>
          (case backoff_loop k (waitTime * factor) factor op s' of
             (e, s2, ws) \<Rightarrow> (e, s2, waitTime # ws)))"

definition ErrorFailedAfterRetry :: goerror where
  "ErrorFailedAfterRetry = Sentinel ''Operation failed after max retries. ''"

definition ExponentialBackoffExecutor ::
  "string \<Rightarrow> int \<Rightarrow> nat \<Rightarrow> int \<Rightarrow> ('s \<Rightarrow> goerror option \<times> 's) \<Rightarrow> 's \<Rightarrow> goerror option \<times> 's \<times> int list" where
  "ExponentialBackoffExecutor name initialWait maxRetries factor op s =
     (case backoff_loop maxRetries initialWait factor op s of
        (None, s', ws) \<Rightarrow> (None, s', ws)
      | (Some e, s', ws) \<Rightarrow>
          (Some (Formatted (name @ '' '' @ Error ErrorFailedAfterRetry @ '' Last error: '' @ Error e)), s', ws))"

text \<open>The state after \<open>k\<close> attempts, whatever they return.\<close>

fun attempts :: "nat \<Rightarrow> ('s \<Rightarrow> goerror option \<times> 's) \<Rightarrow> 's \<Rightarrow> 's" where
  "attempts 0 op s = s"
| "attempts (Suc k) op s = attempts k op (snd (op s))"

lemma backoff_loop_spec:
  "backoff_loop n w f op s =
     (if \<exists>k\<le>n. fst (op (attempts k op s)) = None
      then let k = LEAST k. fst (op (attempts k op s)) = None
           in (None, attempts (Suc k) op s, map (\<lambda>i. w * f ^ i) [0..<k])
      else (fst (op (attempts n op s)), attempts (Suc n) op s, map (\<lambda>i. w * f ^ i) [0..<n]))"
proof (induction n w f op s rule: backoff_loop.induct)
  case (1 w f op s)
  show ?case
  proof (cases "fst (op s)")
    case None
    then have "(LEAST k. fst (op (attempts k op s)) = None) = 0"
      by (intro Least_equality) auto
    with None show ?thesis by (auto simp: split_def)
  qed (auto simp: split_def)
next
  case (2 n w f op s)
  obtain e s' where es: "op s = (e, s')" by (cases "op s")
  show ?case
  proof (cases e)
    case None
    then have "(LEAST k. fst (op (attempts k op s)) = None) = 0"
      using es by (intro Least_equality) auto
    with None es show ?thesis by auto
  next
    case (Some x)
    have sh: "attempts (Suc k) op s = attempts k op s'" for k using es by simp
    have ex: "(\<exists>k\<le>Suc n. fst (op (attempts k op s)) = None) \<longleftrightarrow>
              (\<exists>k\<le>n. fst (op (attempts k op s')) = None)"
      using Some es by (metis attempts.simps(1) fst_conv not0_implies_Suc not_less_eq_eq option.distinct(1) sh)
    have least: "(LEAST k. fst (op (attempts k op s)) = None) = Suc (LEAST k. fst (op (attempts k op s')) = None)"
      if some: "\<exists>k\<le>n. fst (op (attempts k op s')) = None"
    proof -
      obtain k where k: "fst (op (attempts k op s')) = None" using some by blast
      have "(LEAST m. fst (op (attempts m op s)) = None) =
          Suc (LEAST m. fst (op (attempts (Suc m) op s)) = None)"
        using k Some es by (intro Least_Suc[of _ "Suc k"]) (simp_all only: sh attempts.simps(1), auto)
      then show ?thesis by (simp only: sh)
    qed
    have ws: "w # map (\<lambda>i. w * f * f ^ i) [0..<k] = map (\<lambda>i. w * f ^ i) [0..<Suc k]" for k
      by (simp add: map_upt_Suc mult.assoc del: upt_Suc)
    show ?thesis
      using "2.IH"[OF es[symmetric] Some] es Some ex least
      by (auto simp: Let_def sh ws simp del: attempts.simps upt_Suc)
  qed
qed


text \<open>An invariant of every attempt holds at the end.\<close>

lemma backoff_loop_invariant:
  assumes "\<And>s e s'. I s \<Longrightarrow> op s = (e, s') \<Longrightarrow> (if e = None then Q s' else I s')"
    "I s" "backoff_loop n w f op s = (e, s', ws)"
  shows "if e = None then Q s' else I s'"
  using assms(2,3)
proof (induction n arbitrary: w s ws)
  case 0
  then show ?case using assms(1)[of s] by (cases "op s") auto
next
  case (Suc n)
  obtain x t where xt: "op s = (x, t)" by (cases "op s")
  show ?case
  proof (cases x)
    case None
    with xt Suc.prems assms(1)[OF Suc.prems(1) xt] show ?thesis by auto
  next
    case (Some y)
    obtain ws' where "backoff_loop n (w * f) f op t = (e, s', ws')"
      using Suc.prems(2) xt Some by (auto split: prod.splits)
    moreover have "I t" using assms(1)[OF Suc.prems(1) xt] Some by simp
    ultimately show ?thesis by (intro Suc.IH)
  qed
qed

lemma executor_invariant:
  assumes "\<And>s e s'. I s \<Longrightarrow> op s = (e, s') \<Longrightarrow> (if e = None then Q s' else I s')" "I s"
    "ExponentialBackoffExecutor name w n f op s = (e, s', ws)"
  shows "if e = None then Q s' else I s'"
proof -
  obtain e0 where l: "backoff_loop n w f op s = (e0, s', ws)" "e = None \<longleftrightarrow> e0 = None"
    using assms(3) by (auto simp: ExponentialBackoffExecutor_def split: prod.splits option.splits)
  from backoff_loop_invariant[of I op Q, OF assms(1,2) l(1)] l(2) show ?thesis by auto
qed


section \<open>The service\<close>

definition MetadataNotFoundErr :: goerror where
  "MetadataNotFoundErr = Sentinel ''key not found''"

definition ErrorKeyAlreadyExist :: goerror where
  "ErrorKeyAlreadyExist = Sentinel ''key being added already exists''"

definition ErrorRevisionMismatch :: goerror where
  "ErrorRevisionMismatch = Sentinel ''revision number does not match''"

definition MetaKVFailedAfterMaxTriesBaseString :: string where
  "MetaKVFailedAfterMaxTriesBaseString = ''metakv failed for max number of retries''"

definition DelOpConsideredPass :: "goerror option \<Rightarrow> bool" where
  "DelOpConsideredPass err =
     (if err = Some ErrorRevisionMismatch \<or>
         (case err of None \<Rightarrow> False
          | Some e \<Rightarrow> strings_Contains (Error e) MetaKVFailedAfterMaxTriesBaseString)
      then False else True)"

text \<open>The configurable retry settings.\<close>

record retry_settings =
  RetryIntervalMetakv :: int
  MaxNumOfMetakvRetries :: nat
  MetaKvBackoffFactor :: int

definition getPathFromKey :: "string \<Rightarrow> string" where
  "getPathFromKey key = ''/'' @ key"

definition GetCatalogPathFromCatalogKey :: "string \<Rightarrow> string" where
  "GetCatalogPathFromCatalogKey catalogKey = ''/'' @ catalogKey @ ''/''"

text \<open>\<open>None\<close> is the panic on a path without the leading delimiter.\<close>

definition GetKeyFromPath :: "string \<Rightarrow> string option" where
  "GetKeyFromPath path = (if strings_HasPrefix path ''/'' then Some (drop 1 path) else None)"

definition run_op ::
  "retry_settings \<Rightarrow> string \<Rightarrow> ('c \<times> 's \<Rightarrow> goerror option \<times> 'c \<times> 's) \<Rightarrow> 'c \<Rightarrow> 's \<Rightarrow> goerror option \<times> 'c \<times> 's" where
  "run_op rs name op c s =
     (case ExponentialBackoffExecutor name (RetryIntervalMetakv rs) (MaxNumOfMetakvRetries rs)
             (MetaKvBackoffFactor rs) op (c, s) of (e, (c', s'), _) \<Rightarrow> (e, c', s'))"

definition Meta_Get ::
  "('s, 'v, 'r) metakv \<Rightarrow> retry_settings \<Rightarrow> string \<Rightarrow> 's \<Rightarrow> ('v option \<times> 'r option \<times> goerror option) \<times> 's" where
  "Meta_Get mk rs key s =
     (let metakvOpGetFunc = (\<lambda>(c, s).
            case mk_Get mk (getPathFromKey key) s of ((value, rv, err), s') \<Rightarrow>
              if value = None \<and> rv = None \<and> err = None
              then (None, (value, rv, Some MetadataNotFoundErr), s')
              else if err = None then (None, (value, rv, err), s')
              else (err, (value, rv, err), s'))
      in case run_op rs ''metakv_svc_getOp'' metakvOpGetFunc (None, None, None) s of
           (expOpErr, (value, rv, err), s') \<Rightarrow>
             ((value, rv, if expOpErr \<noteq> None then expOpErr else err), s'))"

definition Meta_add ::
  "('s, 'v, 'r) metakv \<Rightarrow> retry_settings \<Rightarrow> string \<Rightarrow> 'v \<Rightarrow> bool \<Rightarrow> 's \<Rightarrow> goerror option \<times> 's" where
  "Meta_add mk rs key value sensitive s =
     (let metakvOpAddFunc = (\<lambda>(c, s).
            case mk_Add mk (getPathFromKey key) value sensitive s of (err, s') \<Rightarrow>
              if err = Some (mk_ErrRevMismatch mk) then (None, Some ErrorKeyAlreadyExist, s')
              else if err = None then (None, err, s')
              else (err, err, s'))
      in case run_op rs ''metakv_svc_addOp'' metakvOpAddFunc None s of
           (expOpErr, err, s') \<Rightarrow> (if expOpErr \<noteq> None then expOpErr else err, s'))"

definition Meta_set ::
  "('s, 'v, 'r) metakv \<Rightarrow> retry_settings \<Rightarrow> string \<Rightarrow> 'v \<Rightarrow> 'r option \<Rightarrow> bool \<Rightarrow> 's \<Rightarrow> goerror option \<times> 's" where
  "Meta_set mk rs key value rv sensitive s =
     (let metakvOpSetFunc = (\<lambda>(c, s).
            case mk_Set mk (getPathFromKey key) value rv sensitive s of (err, s') \<Rightarrow>
              if err = Some (mk_ErrRevMismatch mk) then (None, Some ErrorRevisionMismatch, s')
              else if err = None then (None, err, s')
              else (err, err, s'))
      in case run_op rs ''metakv_svc_setOp'' metakvOpSetFunc None s of
           (expOpErr, err, s') \<Rightarrow> (if expOpErr \<noteq> None then expOpErr else err, s'))"

definition Meta_Del ::
  "('s, 'v, 'r) metakv \<Rightarrow> retry_settings \<Rightarrow> string \<Rightarrow> 'r option \<Rightarrow> 's \<Rightarrow> goerror option \<times> 's" where
  "Meta_Del mk rs key rv s =
     (let metakvOpDelFunc = (\<lambda>(c, s).
            case mk_Delete mk (getPathFromKey key) rv s of (err, s') \<Rightarrow>
              if err = Some (mk_ErrRevMismatch mk) then (None, Some ErrorRevisionMismatch, s')
              else if err = None then (None, err, s')
              else (err, err, s'))
      in case run_op rs ''metakv_svc_delOp'' metakvOpDelFunc None s of
           (expOpErr, err, s') \<Rightarrow> (if expOpErr \<noteq> None then expOpErr else err, s'))"

text \<open>
  The exported variants.  The catalogue key of the three \<open>WithCatalog\<close> calls is
  unused: metakv keeps the catalogue by path.
\<close>

definition Meta_Add :: "('s, 'v, 'r) metakv \<Rightarrow> retry_settings \<Rightarrow> string \<Rightarrow> 'v \<Rightarrow> 's \<Rightarrow> goerror option \<times> 's" where
  "Meta_Add mk rs key value s = Meta_add mk rs key value False s"

definition Meta_AddSensitive :: "('s, 'v, 'r) metakv \<Rightarrow> retry_settings \<Rightarrow> string \<Rightarrow> 'v \<Rightarrow> 's \<Rightarrow> goerror option \<times> 's" where
  "Meta_AddSensitive mk rs key value s = Meta_add mk rs key value True s"

definition AddWithCatalog :: "('s, 'v, 'r) metakv \<Rightarrow> retry_settings \<Rightarrow> string \<Rightarrow> string \<Rightarrow> 'v \<Rightarrow> 's \<Rightarrow> goerror option \<times> 's" where
  "AddWithCatalog mk rs catalogKey key value s = Meta_Add mk rs key value s"

definition AddSensitiveWithCatalog :: "('s, 'v, 'r) metakv \<Rightarrow> retry_settings \<Rightarrow> string \<Rightarrow> string \<Rightarrow> 'v \<Rightarrow> 's \<Rightarrow> goerror option \<times> 's" where
  "AddSensitiveWithCatalog mk rs catalogKey key value s = Meta_AddSensitive mk rs key value s"

definition Meta_Set :: "('s, 'v, 'r) metakv \<Rightarrow> retry_settings \<Rightarrow> string \<Rightarrow> 'v \<Rightarrow> 'r option \<Rightarrow> 's \<Rightarrow> goerror option \<times> 's" where
  "Meta_Set mk rs key value rv s = Meta_set mk rs key value rv False s"

definition Meta_SetSensitive :: "('s, 'v, 'r) metakv \<Rightarrow> retry_settings \<Rightarrow> string \<Rightarrow> 'v \<Rightarrow> 'r option \<Rightarrow> 's \<Rightarrow> goerror option \<times> 's" where
  "Meta_SetSensitive mk rs key value rv s = Meta_set mk rs key value rv True s"

definition DelWithCatalog :: "('s, 'v, 'r) metakv \<Rightarrow> retry_settings \<Rightarrow> string \<Rightarrow> string \<Rightarrow> 'r option \<Rightarrow> 's \<Rightarrow> goerror option \<times> 's" where
  "DelWithCatalog mk rs catalogKey key rv s = Meta_Del mk rs key rv s"

definition DelAllFromCatalog ::
  "('s, 'v, 'r) metakv \<Rightarrow> retry_settings \<Rightarrow> string \<Rightarrow> 's \<Rightarrow> goerror option \<times> 's" where
  "DelAllFromCatalog mk rs catalogKey s =
     (let metakvOpDelRFunc = (\<lambda>(c, s).
            case mk_RecursiveDelete mk (GetCatalogPathFromCatalogKey catalogKey) s of (err, s') \<Rightarrow> (err, c, s'))
      in case run_op rs ''metakv_svc_delROp'' metakvOpDelRFunc () s of (expOpErr, _, s') \<Rightarrow> (expOpErr, s'))"

text \<open>
  The entries found, their paths turned into keys (\<open>None\<close> in the first component
  is the panic of \<open>GetKeyFromPath\<close>).
\<close>

definition GetAllMetadataFromCatalog ::
  "('s, 'v, 'r) metakv \<Rightarrow> retry_settings \<Rightarrow> string \<Rightarrow> 's \<Rightarrow>
     ((string \<times> 'v \<times> 'r) list option \<times> goerror option) \<times> 's" where
  "GetAllMetadataFromCatalog mk rs catalogKey s =
     (let op = (\<lambda>(entries, s).
            case mk_ListAllChildren mk (GetCatalogPathFromCatalogKey catalogKey) s of ((kvEntries, err), s') \<Rightarrow>
              if err = None
              then (None, do { es \<leftarrow> entries;
                              new \<leftarrow> those (map (\<lambda>(p, v, r). map_option (\<lambda>k. (k, v, r)) (GetKeyFromPath p)) kvEntries);
                              Some (es @ new) }, s')
              else (err, entries, s'))
      in case run_op rs ''metakv_svc_getAllMetaOp'' op (Some []) s of
           (expOpErr, entries, s') \<Rightarrow> ((entries, expOpErr), s'))"

definition GetAllKeysFromCatalog ::
  "('s, 'v, 'r) metakv \<Rightarrow> retry_settings \<Rightarrow> string \<Rightarrow> 's \<Rightarrow> (string list option \<times> goerror option) \<times> 's" where
  "GetAllKeysFromCatalog mk rs catalogKey s =
     (case GetAllMetadataFromCatalog mk rs catalogKey s of ((entries, err), s') \<Rightarrow>
        if err \<noteq> None then ((Some [], err), s')
        else ((map_option (map fst) entries, None), s'))"



section \<open>What metakv promises and what the service makes of it\<close>

text \<open>
  The documented behaviour of metakv the service relies on: a successful call
  has its effect, a revision mismatch none, and any other failed call either
  had its effect or none (a time-out leaves both open).  \<open>kv\<close> is the content of
  the store.
\<close>

locale metakv_store =
  fixes mk :: "('s, 'v, 'r) metakv" and kv :: "'s \<Rightarrow> string \<Rightarrow> ('v \<times> 'r) option"
  assumes mk_get_frame: "mk_Get mk p s = (res, s') \<Longrightarrow> kv s' = kv s"
    and mk_get_ok: "mk_Get mk p s = ((ov, ort, None), s') \<Longrightarrow>
          (case kv s p of None \<Rightarrow> ov = None \<and> ort = None | Some (x, y) \<Rightarrow> ov = Some x \<and> ort = Some y)"
    and mk_set_ok: "mk_Set mk p v r b s = (None, s') \<Longrightarrow> \<exists>r'. kv s' = (kv s)(p \<mapsto> (v, r'))"
    and mk_set_mismatch: "mk_Set mk p v r b s = (Some (mk_ErrRevMismatch mk), s') \<Longrightarrow> kv s' = kv s"
    and mk_set_err: "mk_Set mk p v r b s = (Some e, s') \<Longrightarrow>
          kv s' = kv s \<or> (\<exists>r'. kv s' = (kv s)(p \<mapsto> (v, r')))"
    and mk_del_ok: "mk_Delete mk p r s = (None, s') \<Longrightarrow> kv s' = (kv s)(p := None)"
    and mk_del_mismatch: "mk_Delete mk p r s = (Some (mk_ErrRevMismatch mk), s') \<Longrightarrow> kv s' = kv s"
    and mk_del_err: "mk_Delete mk p r s = (Some e, s') \<Longrightarrow> kv s' = kv s \<or> kv s' = (kv s)(p := None)"
    and mk_rdel_ok: "mk_RecursiveDelete mk p s = (None, s') \<Longrightarrow>
          kv s' = (\<lambda>q. if prefix p q then None else kv s q)"
    and mk_rdel_err: "mk_RecursiveDelete mk p s = (Some e, s') \<Longrightarrow> \<forall>q. kv s' q = kv s q \<or> prefix p q"

text \<open>
  The contract of a metadata service: \<open>store\<close> is its content by key.  A read
  never changes it; an error-free read returns the entry, \<open>MetadataNotFoundErr\<close>
  means there is none; an error-free write has happened.
\<close>

locale metadata_store =
  fixes get :: "string \<Rightarrow> 's \<Rightarrow> ('v option \<times> 'r option \<times> goerror option) \<times> 's"
    and set_kv :: "string \<Rightarrow> 'v \<Rightarrow> 'r option \<Rightarrow> bool \<Rightarrow> 's \<Rightarrow> goerror option \<times> 's"
    and del :: "string \<Rightarrow> 'r option \<Rightarrow> 's \<Rightarrow> goerror option \<times> 's"
    and store :: "'s \<Rightarrow> string \<Rightarrow> ('v \<times> 'r) option"
  assumes get_frame: "get k s = (x, s') \<Longrightarrow> store s' = store s"
    and get_ok: "get k s = ((ov, ort, None), s') \<Longrightarrow>
          \<exists>a b. ov = Some a \<and> ort = Some b \<and> store s k = Some (a, b)"
    and get_not_found: "get k s = ((ov, ort, Some MetadataNotFoundErr), s') \<Longrightarrow> store s k = None"
    and set_ok: "set_kv k v r b s = (None, s') \<Longrightarrow> \<exists>r'. store s' = (store s)(k \<mapsto> (v, r'))"
    and del_ok: "del k r s = (None, s') \<Longrightarrow> store s' = (store s)(k := None)"
begin

lemma read_back:
  assumes "set_kv k v r b s = (None, s1)" "get k s1 = ((v', r', None), s2)"
  shows "v' = Some v"
  using set_ok[OF assms(1)] get_ok[OF assms(2)] by auto

lemma read_other:
  assumes "set_kv k v r b s = (None, s1)" "k' \<noteq> k"
  shows "store s1 k' = store s k'"
  using set_ok[OF assms(1)] assms(2) by auto

end

definition path_store :: "('s \<Rightarrow> string \<Rightarrow> 'x option) \<Rightarrow> 's \<Rightarrow> string \<Rightarrow> 'x option" where
  "path_store kv s k = kv s (getPathFromKey k)"

lemma getPathFromKey_inj [simp]: "getPathFromKey k = getPathFromKey k' \<longleftrightarrow> k = k'"
  by (simp add: getPathFromKey_def)

lemma path_store_upd: "path_store kv s' = (path_store kv s)(k := x)"
  if "kv s' = (kv s)(getPathFromKey k := x)"
  using that by (auto simp: path_store_def fun_eq_iff)

lemma run_op_invariant:
  assumes "\<And>c s e c' s'. I c s \<Longrightarrow> op (c, s) = (e, c', s') \<Longrightarrow> (if e = None then Q c' s' else I c' s')" "I c s"
    "run_op rs name op c s = (e, c', s')"
  shows "if e = None then Q c' s' else I c' s'"
proof -
  obtain ws where run: "ExponentialBackoffExecutor name (RetryIntervalMetakv rs) (MaxNumOfMetakvRetries rs)
             (MetaKvBackoffFactor rs) op (c, s) = (e, (c', s'), ws)"
    using assms(3) by (auto simp: run_op_def split: prod.splits)
  have "if e = None then case_prod Q (c', s') else case_prod I (c', s')"
  proof (rule executor_invariant[OF _ _ run])
    fix p e p' assume "case_prod I p" "op p = (e, p')"
    then show "if e = None then case_prod Q p' else case_prod I p'"
      using assms(1)[of "fst p" "snd p" e "fst p'" "snd p'"] by (simp add: split_def)
  qed (use assms(2) in simp)
  then show ?thesis by (simp only: case_prod_conv)
qed

lemma run_op_error: "run_op rs name op c s = (Some e, c', s') \<Longrightarrow> \<exists>m. e = Formatted m"
  by (auto simp: run_op_def ExponentialBackoffExecutor_def split: prod.splits option.splits)

context metakv_store
begin

lemma Meta_Get_correct:
  assumes "Meta_Get mk rs k s = ((v, r, e), s')"
  shows "kv s' = kv s \<and>
         (e = None \<longrightarrow> (\<exists>a b. v = Some a \<and> r = Some b \<and> kv s (getPathFromKey k) = Some (a, b))) \<and>
         (e = Some MetadataNotFoundErr \<longrightarrow> kv s (getPathFromKey k) = None)"
proof -
  let ?op = "\<lambda>(c, s). case mk_Get mk (getPathFromKey k) s of ((value, rv, err), s') \<Rightarrow>
              if value = None \<and> rv = None \<and> err = None
              then (None, (value, rv, Some MetadataNotFoundErr), s')
              else if err = None then (None, (value, rv, err), s')
              else (err, (value, rv, err), s')"
  obtain ee v0 r0 e0 where run: "run_op rs ''metakv_svc_getOp'' ?op (None, None, None) s = (ee, (v0, r0, e0), s')"
    and res: "v = v0" "r = r0" "e = (if ee \<noteq> None then ee else e0)"
    using assms unfolding Meta_Get_def Let_def by (auto split: prod.splits)
  let ?Q = "\<lambda>(v, r, e) t. kv t = kv s \<and>
      (e = None \<longrightarrow> (\<exists>a b. v = Some a \<and> r = Some b \<and> kv s (getPathFromKey k) = Some (a, b))) \<and>
      (e = None \<or> e = Some MetadataNotFoundErr) \<and>
      (e = Some MetadataNotFoundErr \<longrightarrow> kv s (getPathFromKey k) = None)"
  have "if ee = None then ?Q (v0, r0, e0) s' else kv s' = kv s"
  proof (rule run_op_invariant[where I = "\<lambda>c t. kv t = kv s" and Q = ?Q, OF _ _ run])
    fix c t ee c' t'
    assume I: "kv t = kv s" and op: "?op (c, t) = (ee, c', t')"
    obtain v1 r1 e1 where g: "mk_Get mk (getPathFromKey k) t = ((v1, r1, e1), t')"
      using op by (auto split: prod.splits if_splits)
    have f: "kv t' = kv s" using mk_get_frame[OF g] I by simp
    show "if ee = None then ?Q c' t' else kv t' = kv s"
    proof (cases e1)
      case None
      have "case kv s (getPathFromKey k) of None \<Rightarrow> v1 = None \<and> r1 = None | Some (a, b) \<Rightarrow> v1 = Some a \<and> r1 = Some b"
        using mk_get_ok[of "getPathFromKey k" t v1 r1 t'] g None I by simp
      with op g None f show ?thesis by (auto split: option.splits)
    qed (use op g f in auto)
  qed simp
  with res run_op_error[of rs "''metakv_svc_getOp''" ?op "(None, None, None)" s _ "(v0, r0, e0)" s'] run
  show ?thesis by (auto simp: MetadataNotFoundErr_def split: if_splits)
qed

lemma Meta_set_correct:
  assumes "Meta_set mk rs k v r b s = (e, s')"
  shows "(e = None \<longrightarrow> (\<exists>r'. kv s' = (kv s)(getPathFromKey k \<mapsto> (v, r')))) \<and>
         (kv s' = kv s \<or> (\<exists>r'. kv s' = (kv s)(getPathFromKey k \<mapsto> (v, r'))))"
proof -
  let ?p = "getPathFromKey k"
  let ?I = "\<lambda>c t. kv t = kv s \<or> (\<exists>r'. kv t = (kv s)(?p \<mapsto> (v, r')))"
  let ?Q = "\<lambda>c t. ?I c t \<and> (c = None \<longrightarrow> (\<exists>r'. kv t = (kv s)(?p \<mapsto> (v, r'))))"
  let ?op = "\<lambda>(c, s). case mk_Set mk ?p v r b s of (err, s') \<Rightarrow>
              if err = Some (mk_ErrRevMismatch mk) then (None, Some ErrorRevisionMismatch, s')
              else if err = None then (None, err, s')
              else (err, err, s')"
  obtain ee e0 where run: "run_op rs ''metakv_svc_setOp'' ?op None s = (ee, e0, s')"
    and res: "e = (if ee \<noteq> None then ee else e0)"
    using assms unfolding Meta_set_def Let_def by (auto split: prod.splits)
  have "if ee = None then ?Q e0 s' else ?I e0 s'"
  proof (rule run_op_invariant[where I = ?I and Q = ?Q, OF _ _ run])
    fix c t ee c' t'
    assume I: "?I c t" and op: "?op (c, t) = (ee, c', t')"
    obtain e1 where g: "mk_Set mk ?p v r b t = (e1, t')"
      using op by (auto split: prod.splits if_splits)
    have one: "kv t' = kv t \<or> (\<exists>r'. kv t' = (kv t)(?p \<mapsto> (v, r')))"
      using g mk_set_ok mk_set_err by (cases e1) blast+
    have I': "?I c' t'" using I one by (auto simp: fun_upd_upd)
    have Q': "e1 = None \<Longrightarrow> \<exists>r'. kv t' = (kv s)(?p \<mapsto> (v, r'))"
      using I mk_set_ok[of ?p v r b t t'] g by (auto simp: fun_upd_upd)
    show "if ee = None then ?Q c' t' else ?I c' t'"
      using op g I' Q' by (auto split: if_splits)
  qed simp
  with res show ?thesis by (auto split: if_splits)
qed

lemma Meta_Del_correct:
  assumes "Meta_Del mk rs k r s = (e, s')"
  shows "(e = None \<longrightarrow> kv s' = (kv s)(getPathFromKey k := None)) \<and>
         (kv s' = kv s \<or> kv s' = (kv s)(getPathFromKey k := None))"
proof -
  let ?p = "getPathFromKey k"
  let ?I = "\<lambda>c t. kv t = kv s \<or> kv t = (kv s)(?p := None)"
  let ?Q = "\<lambda>c t. ?I c t \<and> (c = None \<longrightarrow> kv t = (kv s)(?p := None))"
  let ?op = "\<lambda>(c, s). case mk_Delete mk ?p r s of (err, s') \<Rightarrow>
              if err = Some (mk_ErrRevMismatch mk) then (None, Some ErrorRevisionMismatch, s')
              else if err = None then (None, err, s')
              else (err, err, s')"
  obtain ee e0 where run: "run_op rs ''metakv_svc_delOp'' ?op None s = (ee, e0, s')"
    and res: "e = (if ee \<noteq> None then ee else e0)"
    using assms unfolding Meta_Del_def Let_def by (auto split: prod.splits)
  have "if ee = None then ?Q e0 s' else ?I e0 s'"
  proof (rule run_op_invariant[where I = ?I and Q = ?Q, OF _ _ run])
    fix c t ee c' t'
    assume I: "?I c t" and op: "?op (c, t) = (ee, c', t')"
    obtain e1 where g: "mk_Delete mk ?p r t = (e1, t')"
      using op by (auto split: prod.splits if_splits)
    have one: "kv t' = kv t \<or> kv t' = (kv t)(?p := None)"
      using g mk_del_ok mk_del_err by (cases e1) blast+
    have I': "?I c' t'" using I one by (auto simp: fun_upd_upd)
    have Q': "e1 = None \<Longrightarrow> kv t' = (kv s)(?p := None)"
      using I mk_del_ok[of ?p r t t'] g by (auto simp: fun_upd_upd)
    show "if ee = None then ?Q c' t' else ?I c' t'"
      using op g I' Q' by (auto split: if_splits)
  qed simp
  with res show ?thesis by (auto split: if_splits)
qed

end

sublocale metakv_store \<subseteq> svc: metadata_store
    "Meta_Get mk rs" "Meta_set mk rs" "Meta_Del mk rs" "path_store kv" for rs
proof
  show "path_store kv s' = path_store kv s" if g: "Meta_Get mk rs k s = (x, s')" for k s x s'
  proof -
    obtain v r e where "x = (v, r, e)" by (cases x)
    with g have "kv s' = kv s" using Meta_Get_correct by blast
    then show ?thesis by (simp add: path_store_def fun_eq_iff)
  qed
  show "\<exists>a b. ov = Some a \<and> ort = Some b \<and> path_store kv s k = Some (a, b)"
    if "Meta_Get mk rs k s = ((ov, ort, None), s')" for k s ov ort s'
    using Meta_Get_correct[OF that] by (simp add: path_store_def)
  show "path_store kv s k = None"
    if "Meta_Get mk rs k s = ((ov, ort, Some MetadataNotFoundErr), s')" for k s ov ort s'
    using Meta_Get_correct[OF that] by (simp add: path_store_def)
  show "\<exists>r'. path_store kv s' = (path_store kv s)(k \<mapsto> (v, r'))"
    if st: "Meta_set mk rs k v r b s = (None, s')" for k v r b s s'
  proof -
    obtain r' where "kv s' = (kv s)(getPathFromKey k \<mapsto> (v, r'))"
      using Meta_set_correct[OF st] by blast
    then have "path_store kv s' = (path_store kv s)(k \<mapsto> (v, r'))" by (rule path_store_upd)
    then show ?thesis by blast
  qed
  show "path_store kv s' = (path_store kv s)(k := None)"
    if "Meta_Del mk rs k r s = (None, s')" for k r s s'
    using Meta_Del_correct[OF that] by (intro path_store_upd) blast
qed


text \<open>
  A store in memory whose first calls time out: the number of calls still to
  fail and the content, with revisions counting the writes.
\<close>

type_synonym 'v mem = "nat \<times> (string \<rightharpoonup> 'v \<times> nat)"

definition mem_fail :: "'a \<Rightarrow> ('v mem \<Rightarrow> 'a \<times> 'v mem) \<Rightarrow> 'v mem \<Rightarrow> 'a \<times> 'v mem" where
  "mem_fail e f s = (if fst s > 0 then (e, (fst s - 1, snd s)) else f s)"

definition mem_err :: goerror where
  "mem_err = Sentinel ''timeout''"

definition mem_mismatch :: goerror where
  "mem_mismatch = Sentinel ''rev mismatch''"

definition mem_rev_ok :: "(string \<rightharpoonup> 'v \<times> nat) \<Rightarrow> string \<Rightarrow> nat option \<Rightarrow> bool" where
  "mem_rev_ok m p r = (case r of None \<Rightarrow> True | Some n \<Rightarrow> (case m p of None \<Rightarrow> False | Some (_, n') \<Rightarrow> n = n'))"

definition mem_metakv :: "('v mem, 'v, nat) metakv" where
  "mem_metakv = \<lparr>
     mk_Get = (\<lambda>p. mem_fail (None, None, Some mem_err)
        (\<lambda>s. ((map_option fst (snd s p), map_option snd (snd s p), None), s))),
     mk_Add = (\<lambda>p v b. mem_fail (Some mem_err)
        (\<lambda>s. if snd s p \<noteq> None then (Some mem_mismatch, s) else (None, (0, (snd s)(p \<mapsto> (v, 0)))))),
     mk_Set = (\<lambda>p v r b. mem_fail (Some mem_err)
        (\<lambda>s. if mem_rev_ok (snd s) p r
             then (None, (0, (snd s)(p \<mapsto> (v, case snd s p of None \<Rightarrow> 0 | Some (_, n) \<Rightarrow> Suc n))))
             else (Some mem_mismatch, s))),
     mk_Delete = (\<lambda>p r. mem_fail (Some mem_err)
        (\<lambda>s. if mem_rev_ok (snd s) p r then (None, (0, (snd s)(p := None))) else (Some mem_mismatch, s))),
     mk_RecursiveDelete = (\<lambda>p. mem_fail (Some mem_err)
        (\<lambda>s. (None, (0, \<lambda>q. if prefix p q then None else snd s q)))),
     mk_ListAllChildren = (\<lambda>p. mem_fail ([], Some mem_err) (\<lambda>s. (([], None), s))),
     mk_ErrRevMismatch = mem_mismatch\<rparr>"

interpretation mem: metakv_store mem_metakv snd
  by unfold_locales
     (auto simp: mem_metakv_def mem_fail_def mem_err_def mem_mismatch_def split: if_splits option.splits)


section \<open>Properties of the metadata service\<close>

context metakv_store
begin

lemma service_contract: "metadata_store (Meta_Get mk rs) (Meta_set mk rs) (Meta_Del mk rs) (path_store kv)"
  by (rule svc.metadata_store_axioms)

end


text \<open>C14. Over a metakv that behaves as documented, a value the service has set without error
  is what a later error-free read returns, and no other key is affected, however many of
  the underlying calls had to be retried.\<close>

theorem metadata_read_back:
  assumes "metakv_store mk kv" "Meta_set mk rs k v r b s = (None, s1)"
    "Meta_Get mk rs k s1 = ((v', r', None), s2)"
  shows "v' = Some v \<and> (\<forall>k'. k' \<noteq> k \<longrightarrow> path_store kv s2 k' = path_store kv s k')"
proof -
  note contract = metakv_store.service_contract[OF assms(1), of rs]
  show ?thesis
    using metadata_store.read_back[OF contract assms(2,3)] metadata_store.read_other[OF contract assms(2)]
      metadata_store.get_frame[OF contract assms(3)] by simp
qed

theorem metadata_read_back_witness:
  defines "rs \<equiv> \<lparr>RetryIntervalMetakv = 5, MaxNumOfMetakvRetries = 2, MetaKvBackoffFactor = 2\<rparr>"
  defines "run \<equiv> Meta_set mem_metakv rs ''a'' (7::nat) None False (1, [''/b'' \<mapsto> (3, 0)])"
  shows "fst run = None \<and> fst (Meta_Get mem_metakv rs ''a'' (snd run)) = (Some 7, Some 0, None) \<and>
     path_store snd (snd (Meta_Get mem_metakv rs ''a'' (snd run))) ''b'' = Some (3, 0)"
proof -
  have run: "run = (None, (0, [''/b'' \<mapsto> (3, 0), ''/a'' \<mapsto> (7, 0)]))"
    by (simp add: run_def rs_def Meta_set_def run_op_def ExponentialBackoffExecutor_def mem_metakv_def mem_fail_def
        mem_err_def mem_mismatch_def mem_rev_ok_def getPathFromKey_def numeral_2_eq_2)
  have get: "Meta_Get mem_metakv rs ''a'' (snd run) = ((Some 7, Some 0, None), snd run)"
    by (simp add: run rs_def Meta_Get_def run_op_def ExponentialBackoffExecutor_def mem_metakv_def mem_fail_def
        getPathFromKey_def numeral_2_eq_2)
  show ?thesis
    using metadata_read_back[OF mem.metakv_store_axioms run[unfolded run_def] get[unfolded run, simplified]]
    by (simp add: run get[unfolded run, simplified] path_store_def getPathFromKey_def)
qed

text \<open>The text of an exhausted retry contains the marker only if the last error's text does.\<close>

lemma backoff_loop_all_fail:
  "(\<And>s. fst (op s) = Some e) \<Longrightarrow> fst (backoff_loop n w f op s) = Some e"
proof (induction n arbitrary: w s)
  case 0
  then show ?case by (simp add: split_def)
next
  case (Suc n)
  obtain t where "op s = (Some e, t)" using Suc.prems[of s] by (cases "op s") auto
  then show ?case using Suc.IH[OF Suc.prems, of "w * f" t] by (simp add: split_def)
qed

lemma suffix_colon_space:
  assumes "suffix xs (p @ '': '')" "xs \<noteq> []"
  shows "xs = '' '' \<or> CHR '':'' \<in> set xs"
proof -
  obtain ys where ys: "xs = ys @ '' ''" "suffix ys (p @ '':'')"
    using assms suffix_snoc[of xs "p @ '':''" "CHR '' ''"] by auto
  with suffix_snoc[of ys p "CHR '':''"] show ?thesis by auto
qed

lemma executor_text_contains:
  assumes "strings_Contains (''metakv_svc_delOp'' @ '' '' @ Error ErrorFailedAfterRetry @ '' Last error: '' @ m)
             MetaKVFailedAfterMaxTriesBaseString"
  shows "strings_Contains m MetaKVFailedAfterMaxTriesBaseString"
proof -
  let ?b = MetaKVFailedAfterMaxTriesBaseString
  let ?p = "''metakv_svc_delOp Operation failed after max retries.  Last error''"
  have "sublist ?b ((?p @ '': '') @ m)"
    using assms by (simp add: strings_Contains_def ErrorFailedAfterRetry_def)
  then consider "sublist ?b (?p @ '': '')" | "sublist ?b m"
    | xs1 xs2 where "?b = xs1 @ xs2" "suffix xs1 (?p @ '': '')" "prefix xs2 m"
    unfolding sublist_append[of ?b "?p @ '': ''" m] by blast
  then show ?thesis
  proof cases
    case 1
    then have False by (simp add: MetaKVFailedAfterMaxTriesBaseString_def sublist_Cons_right)
    then show ?thesis ..
  next
    case 2
    then show ?thesis by (simp add: strings_Contains_def)
  next
    case (3 xs1 xs2)
    have b: "CHR '':'' \<notin> set ?b" "hd ?b \<noteq> CHR '' ''"
      by (simp_all add: MetaKVFailedAfterMaxTriesBaseString_def)
    have "xs1 = []"
    proof (rule ccontr)
      assume ne: "xs1 \<noteq> []"
      have "CHR '':'' \<notin> set xs1" using b(1) unfolding 3(1) set_append by blast
      then have "xs1 = '' ''" using suffix_colon_space[OF 3(2) ne] by blast
      then have "hd ?b = CHR '' ''" unfolding 3(1) by (simp only: append_Cons list.sel)
      with b(2) show False ..
    qed
    then show ?thesis using 3 by (simp add: strings_Contains_def prefix_imp_sublist)
  qed
qed

text \<open>C15. A deletion whose every attempt fails at metakv, so that its retries are exhausted, is
  reported with an error that the classification of delete errors counts as passed: the
  text it looks for is not the text the retry executor puts in its error.\<close>

theorem exhausted_delete_considered_pass:
  assumes "\<And>s. fst (mk_Delete mk (getPathFromKey k) r s) = Some em"
    "mk_ErrRevMismatch mk \<noteq> em" "\<not> strings_Contains (Error em) MetaKVFailedAfterMaxTriesBaseString"
  shows "\<exists>e. fst (Meta_Del mk rs k r s) = Some e \<and> DelOpConsideredPass (Some e)"
proof -
  let ?op = "\<lambda>(c :: goerror option, s). case mk_Delete mk (getPathFromKey k) r s of (err, s') \<Rightarrow>
              if err = Some (mk_ErrRevMismatch mk) then (None, Some ErrorRevisionMismatch, s')
              else if err = None then (None, err, s')
              else (err, err, s')"
  have "fst (?op p) = Some em" for p
    using assms(1)[of "snd p"] assms(2) by (auto simp: split_def)
  then have "fst (backoff_loop n w f ?op p) = Some em" for n w f p
    by (rule backoff_loop_all_fail)
  then have "fst (Meta_Del mk rs k r s) =
      Some (Formatted (''metakv_svc_delOp'' @ '' '' @ Error ErrorFailedAfterRetry @ '' Last error: '' @ Error em))"
    unfolding Meta_Del_def Let_def run_op_def ExponentialBackoffExecutor_def
    by (simp add: split_def)
  moreover have "Formatted x \<noteq> ErrorRevisionMismatch" for x by (simp add: ErrorRevisionMismatch_def)
  ultimately show ?thesis
    using assms(3) executor_text_contains[of "Error em"] by (auto simp: DelOpConsideredPass_def)
qed

theorem exhausted_delete_considered_pass_witness:
  "\<exists>e. fst (Meta_Del ((mem_metakv :: (nat mem, nat, nat) metakv)
              \<lparr>mk_Delete := \<lambda>p r s. (Some mem_err, s)\<rparr>)
              \<lparr>RetryIntervalMetakv = 5, MaxNumOfMetakvRetries = 2, MetaKvBackoffFactor = 2\<rparr> ''a'' None (0, Map.empty)) = Some e \<and>
       DelOpConsideredPass (Some e)"
  by (rule exhausted_delete_considered_pass[where em = mem_err])
     (simp_all add: mem_metakv_def mem_err_def mem_mismatch_def strings_Contains_def
        MetaKVFailedAfterMaxTriesBaseString_def sublist_Cons_right)

end
