(* ===== verification/Checkpoint_Service.thy ===== *)
theory Checkpoint_Service
  imports Checkpoint Meta_KV
begin

text \<open>
  The checkpoints service, \<open>metadata_svc/checkpoints_service.go\<close>, over the metadata
  service: one checkpoint document per vbucket of a replication, stored under a
  key that ends in the vbucket number.

  Stored bytes are a \<open>content\<close>: empty, not JSON, or a parsed JSON value.  The
  document's \<open>Revision\<close> field, which no code reads, is left out.
\<close>

datatype content = NoBytes | Malformed | Json json

type_synonym ('s, 'r) ckpt_metakv = "('s, content, 'r) metakv"


section \<open>Keys\<close>

definition getCheckpointCatalogKey :: "string \<Rightarrow> string" where
  "getCheckpointCatalogKey replicationId = ''ckpt'' @ ''/'' @ replicationId"

definition getCheckpointDocKey :: "string \<Rightarrow> vbno \<Rightarrow> string" where
  "getCheckpointDocKey replicationId vb = ''ckpt'' @ ''/'' @ replicationId @ ''/'' @ itoa (unat vb)"

text \<open>\<open>None\<close> is the error of \<open>Atoi\<close>; the number is cut to 16 bits.\<close>

definition decodeVbnoFromCkptDocKey :: "string \<Rightarrow> vbno option" where
  "decodeVbnoFromCkptDocKey ckptDocKey =
     (case strconv_Atoi (last (strings_Split (CHR ''/'') ckptDocKey)) of
        None \<Rightarrow> None | Some v \<Rightarrow> Some (word_of_int v))"

lemma decode_docKey [simp]: "decodeVbnoFromCkptDocKey (getCheckpointDocKey rid vb) = Some vb"
proof -
  have "unat vb < 2 ^ 16" using unsigned_less[of vb] by simp
  then have "unat vb < 2 ^ 63" by simp
  moreover have "last (strings_Split (CHR ''/'') (getCheckpointDocKey rid vb)) = itoa (unat vb)"
    using last_Split[OF itoa_no_delim(2), of "''ckpt/'' @ rid" "unat vb"]
    by (simp add: getCheckpointDocKey_def)
  ultimately show ?thesis by (simp add: decodeVbnoFromCkptDocKey_def Atoi_itoa)
qed

lemma docKey_vb_inj: "getCheckpointDocKey rid vb = getCheckpointDocKey rid' vb' \<Longrightarrow> vb = vb'"
  using decode_docKey[of rid vb] decode_docKey[of rid' vb'] by simp

lemma docKey_inj: "getCheckpointDocKey rid vb = getCheckpointDocKey rid' vb' \<longleftrightarrow> rid = rid' \<and> vb = vb'"
  using docKey_vb_inj[of rid vb rid' vb'] by (auto simp: getCheckpointDocKey_def)

lemma docKey_path_catalog:
  "prefix (GetCatalogPathFromCatalogKey (getCheckpointCatalogKey rid)) (getPathFromKey (getCheckpointDocKey rid vb))"
  by (simp add: GetCatalogPathFromCatalogKey_def getCheckpointCatalogKey_def getPathFromKey_def getCheckpointDocKey_def)


section \<open>Documents\<close>

text \<open>
  The results of the service are errors or documents; the outer \<open>None\<close> is the
  panic of the record decoder on a field of the wrong type.
\<close>

definition constructCheckpointDoc :: "content option \<Rightarrow> (goerror + CheckpointsDoc) option" where
  "constructCheckpointDoc content =
     (case content of
        None \<Rightarrow> Some (Inl MetadataNotFoundErr)
      | Some NoBytes \<Rightarrow> Some (Inl MetadataNotFoundErr)
      | Some Malformed \<Rightarrow> Some (Inl (Formatted ''invalid JSON''))
      | Some (Json j) \<Rightarrow> map_option (map_sum (\<lambda>_. Formatted ''cannot unmarshal'') id) (unmarshal_doc j))"

definition CheckpointsDoc_get ::
  "('s, 'r) ckpt_metakv \<Rightarrow> retry_settings \<Rightarrow> string \<Rightarrow> vbno \<Rightarrow> 's \<Rightarrow> (goerror + CheckpointsDoc) option \<times> 's" where
  "CheckpointsDoc_get mk rs replicationId vb s =
     (case Meta_Get mk rs (getCheckpointDocKey replicationId vb) s of
        ((result, rv, Some err), s') \<Rightarrow> (Some (Inl err), s')
      | ((result, rv, None), s') \<Rightarrow> (constructCheckpointDoc result, s'))"

definition DelCheckpointsDocs ::
  "('s, 'r) ckpt_metakv \<Rightarrow> retry_settings \<Rightarrow> string \<Rightarrow> 's \<Rightarrow> goerror option \<times> 's" where
  "DelCheckpointsDocs mk rs replicationId s = DelAllFromCatalog mk rs (getCheckpointCatalogKey replicationId) s"

definition DelCheckpointsDoc ::
  "('s, 'r) ckpt_metakv \<Rightarrow> retry_settings \<Rightarrow> string \<Rightarrow> vbno \<Rightarrow> 's \<Rightarrow> goerror option \<times> 's" where
  "DelCheckpointsDoc mk rs replicationId vb s =
     (let key = getCheckpointDocKey replicationId vb in
      case Meta_Get mk rs key s of
        ((_, rv, Some err), s') \<Rightarrow> (Some err, s')
      | ((_, rv, None), s') \<Rightarrow> DelWithCatalog mk rs (getCheckpointCatalogKey replicationId) key rv s')"

text \<open>The updates of the two document-wide fields.\<close>

definition update_doc_fields :: "uint64 \<Rightarrow> int \<Rightarrow> CheckpointsDoc \<Rightarrow> CheckpointsDoc" where
  "update_doc_fields xattr_seqno targetClusterVersion doc =
     (let doc1 = (if xattr_seqno > 0 \<and> (XattrSeqno doc = 0 \<or> XattrSeqno doc > xattr_seqno)
                  then doc\<lparr>XattrSeqno := xattr_seqno\<rparr> else doc)
      in if TargetClusterVersion doc1 < targetClusterVersion
         then doc1\<lparr>TargetClusterVersion := targetClusterVersion\<rparr> else doc1)"

text \<open>
  The error of the final \<open>Set\<close> is assigned to a variable declared in the inner
  block, so the call returns the outer one, which is nil there.
\<close>

definition UpsertCheckpoints ::
  "('s, 'r) ckpt_metakv \<Rightarrow> retry_settings \<Rightarrow> nat \<Rightarrow> string \<Rightarrow> string \<Rightarrow> vbno \<Rightarrow> CheckpointRecord option \<Rightarrow>
     uint64 \<Rightarrow> int \<Rightarrow> 's \<Rightarrow> goerror option option \<times> 's" where
  "UpsertCheckpoints mk rs maxToKeep replicationId specInternalId vb ckpt_record xattr_seqno targetClusterVersion s =
     (if ckpt_record = None then (Some (Some (Formatted ''nil checkpoint record'')), s)
      else
        case CheckpointsDoc_get mk rs replicationId vb s of
          (None, s1) \<Rightarrow> (None, s1)
        | (Some res, s1) \<Rightarrow>
            (case (if res = Inl MetadataNotFoundErr then Inr (NewCheckpointsDoc maxToKeep specInternalId) else res) of
               Inl err \<Rightarrow> (Some (Some err), s1)
             | Inr ckpt_doc \<Rightarrow>
                 (case AddRecord maxToKeep ckpt_record (update_doc_fields xattr_seqno targetClusterVersion ckpt_doc) of
                    None \<Rightarrow> (None, s1)
                  | Some (_, False) \<Rightarrow> (Some None, s1)
                  | Some (doc', True) \<Rightarrow>
                      (case Meta_Set mk rs (getCheckpointDocKey replicationId vb) (Json (marshal_doc doc')) None s1 of
                         (err, s2) \<Rightarrow> (Some None, s2)))))"

fun docs_loop ::
  "(string \<times> content \<times> 'r) list \<Rightarrow> (vbno \<rightharpoonup> CheckpointsDoc) \<Rightarrow> (goerror + (vbno \<rightharpoonup> CheckpointsDoc)) option" where
  "docs_loop [] m = Some (Inr m)"
| "docs_loop ((k, v, r) # es) m =
     (case decodeVbnoFromCkptDocKey k of
        None \<Rightarrow> Some (Inl (Formatted ''Atoi''))
      | Some vb \<Rightarrow>
          (case constructCheckpointDoc (Some v) of
             None \<Rightarrow> None
           | Some (Inl err) \<Rightarrow> if err = MetadataNotFoundErr then docs_loop es m else Some (Inl err)
           | Some (Inr doc) \<Rightarrow> docs_loop es (m(vb \<mapsto> doc))))"

definition CheckpointsDocs ::
  "('s, 'r) ckpt_metakv \<Rightarrow> retry_settings \<Rightarrow> string \<Rightarrow> 's \<Rightarrow> (goerror + (vbno \<rightharpoonup> CheckpointsDoc)) option \<times> 's" where
  "CheckpointsDocs mk rs replicationId s =
     (case GetAllMetadataFromCatalog mk rs (getCheckpointCatalogKey replicationId) s of
        ((_, Some err), s') \<Rightarrow> (Some (Inl err), s')
      | ((None, None), s') \<Rightarrow> (None, s')
      | ((Some es, None), s') \<Rightarrow> (docs_loop es Map.empty, s'))"

fun vbnos_loop :: "(string \<times> content \<times> 'r) list \<Rightarrow> goerror + vbno list" where
  "vbnos_loop [] = Inr []"
| "vbnos_loop ((k, v, r) # es) =
     (case decodeVbnoFromCkptDocKey k of
        None \<Rightarrow> Inl (Formatted ''Atoi'')
      | Some vb \<Rightarrow> map_sum id (Cons vb) (vbnos_loop es))"

definition GetVbnosFromCheckpointDocs ::
  "('s, 'r) ckpt_metakv \<Rightarrow> retry_settings \<Rightarrow> string \<Rightarrow> 's \<Rightarrow> (goerror + vbno list) option \<times> 's" where
  "GetVbnosFromCheckpointDocs mk rs replicationId s =
     (case GetAllMetadataFromCatalog mk rs (getCheckpointCatalogKey replicationId) s of
        ((_, Some err), s') \<Rightarrow> (Some (Inl err), s')
      | ((None, None), s') \<Rightarrow> (None, s')
      | ((Some es, None), s') \<Rightarrow> (Some (vbnos_loop es), s'))"



section \<open>Library\<close>

context metakv_store
begin

lemma DelAllFromCatalog_correct:
  assumes "DelAllFromCatalog mk rs c s = (e, s')"
  shows "(\<forall>q. kv s' q = kv s q \<or> prefix (GetCatalogPathFromCatalogKey c) q) \<and>
         (e = None \<longrightarrow> (\<forall>q. prefix (GetCatalogPathFromCatalogKey c) q \<longrightarrow> kv s' q = None))"
proof -
  let ?p = "GetCatalogPathFromCatalogKey c"
  let ?op = "\<lambda>(c :: unit, s). case mk_RecursiveDelete mk ?p s of (err, s') \<Rightarrow> (err, c, s')"
  let ?I = "\<lambda>(c :: unit) t. \<forall>q. kv t q = kv s q \<or> prefix ?p q"
  let ?Q = "\<lambda>(c :: unit) t. ?I c t \<and> (\<forall>q. prefix ?p q \<longrightarrow> kv t q = None)"
  obtain c' where run: "run_op rs ''metakv_svc_delROp'' ?op () s = (e, c', s')"
    using assms unfolding DelAllFromCatalog_def Let_def by (auto split: prod.splits)
  have "if e = None then ?Q c' s' else ?I c' s'"
  proof (rule run_op_invariant[where I = ?I and Q = ?Q, OF _ _ run])
    fix c1 t e1 c1' t'
    assume I: "?I c1 t" and op: "?op (c1, t) = (e1, c1', t')"
    from op have g: "mk_RecursiveDelete mk ?p t = (e1, t')" by (auto split: prod.splits)
    show "if e1 = None then ?Q c1' t' else ?I c1' t'"
    proof (cases e1)
      case None
      with g have "kv t' = (\<lambda>q. if prefix ?p q then None else kv t q)" using mk_rdel_ok by blast
      with I None show ?thesis by auto
    next
      case (Some x)
      with g have "\<forall>q. kv t' q = kv t q \<or> prefix ?p q" using mk_rdel_err by blast
      then have "\<forall>q. kv t' q = kv s q \<or> prefix ?p q" using I by metis
      with Some show ?thesis by simp
    qed
  qed simp
  then show ?thesis by (auto split: if_splits)
qed

lemma Meta_Get_cases:
  assumes "Meta_Get mk rs k s = ((v, r, e), s')"
  shows "path_store kv s' = path_store kv s \<and>
     (e = None \<longrightarrow> (\<exists>a b. v = Some a \<and> path_store kv s k = Some (a, b))) \<and>
     (e = Some MetadataNotFoundErr \<longrightarrow> path_store kv s k = None)"
  using Meta_Get_correct[OF assms] by (auto simp: path_store_def fun_eq_iff)

end

text \<open>A document the code reads back as it was written.\<close>

definition exact_doc :: "CheckpointsDoc \<Rightarrow> bool" where
  "exact_doc d \<longleftrightarrow>
     (\<forall>r\<in>set (Checkpoint_records d). case r of None \<Rightarrow> True | Some a \<Rightarrow> exact_record a \<and> Target_vb_opaque a \<noteq> None) \<and>
     - (2 ^ 63) \<le> TargetClusterVersion d \<and> TargetClusterVersion d < 2 ^ 63"

lemma exact_doc_roundtrip: "exact_doc d \<Longrightarrow> unmarshal_doc (marshal_doc d) = Some (Inr d)"
  by (rule unmarshal_doc_roundtrip) (auto simp: exact_doc_def split: option.splits)

lemma exact_doc_new: "exact_doc (NewCheckpointsDoc n i)"
  by (auto simp: exact_doc_def NewCheckpointsDoc_def)

lemma exact_doc_update:
  "exact_doc d \<Longrightarrow> - (2 ^ 63) \<le> v \<Longrightarrow> v < 2 ^ 63 \<Longrightarrow> exact_doc (update_doc_fields x v d)"
  by (auto simp: exact_doc_def update_doc_fields_def Let_def)

lemma AddRecord_exact:
  assumes "exact_doc d" "exact_record r" "Target_vb_opaque r \<noteq> None" "0 < n"
  shows "\<exists>d' b. AddRecord n (Some r) d = Some (d', b) \<and>
     (if b then exact_doc d' \<and> hd (Checkpoint_records d') = Some r \<and> Checkpoint_records d' \<noteq> [] \<and>
        set (Checkpoint_records d') \<subseteq> insert (Some r) (insert None (set (Checkpoint_records d)))
      else d' = d)"
proof (cases "Checkpoint_records d = []")
  case True
  then show ?thesis using assms by (auto simp: AddRecord_def exact_doc_def)
next
  case False
  let ?recs = "Checkpoint_records d"
  have "?recs ! 0 \<in> set ?recs" using False by simp
  then have "complete (?recs ! 0)" using assms(1) by (auto simp: exact_doc_def complete_def split: option.splits)
  then have same: "IsSame (?recs ! 0) (Some r) = Some (?recs ! 0 = Some r)" by (rule IsSame_complete)
  show ?thesis
  proof (cases "?recs ! 0 = Some r")
    case True
    then show ?thesis using False same by (intro exI[of _ d] exI[of _ False]) (simp add: AddRecord_def)
  next
    case ne: False
    define recs1 where "recs1 = (if length ?recs > n then take n ?recs
        else if length ?recs < n then ?recs @ replicate (n - length ?recs) None else ?recs)"
    have r1: "recs1 \<noteq> []" using False assms(4) by (auto simp: recs1_def)
    have sub: "set recs1 \<subseteq> insert None (set ?recs)"
      using set_take_subset[of n ?recs] by (auto simp: recs1_def)
    have sh: "shift_down (length recs1 - 1) recs1 \<noteq> []"
      using r1 by (metis length_0_conv length_shift_down)
    have res: "AddRecord n (Some r) d = Some (d\<lparr>Checkpoint_records := Some r # butlast recs1\<rparr>, True)"
      using False same ne sh shift_down_butlast[OF r1, of "Some r"]
      by (simp add: AddRecord_def Let_def flip: recs1_def)
    have "exact_doc (d\<lparr>Checkpoint_records := Some r # butlast recs1\<rparr>)"
      using assms sub by (auto simp: exact_doc_def split: option.splits dest!: in_set_butlastD)
    moreover have "set (Some r # butlast recs1) \<subseteq> insert (Some r) (insert None (set ?recs))"
      using sub by (auto dest!: in_set_butlastD)
    ultimately show ?thesis using res by auto
  qed
qed

lemma docKey_not_in_catalog:
  assumes "\<not> prefix (rid @ ''/'') (rid' @ ''/'')"
  shows "\<not> prefix (GetCatalogPathFromCatalogKey (getCheckpointCatalogKey rid))
            (getPathFromKey (getCheckpointDocKey rid' vb))"
proof
  assume "prefix (GetCatalogPathFromCatalogKey (getCheckpointCatalogKey rid))
            (getPathFromKey (getCheckpointDocKey rid' vb))"
  then have "prefix (rid @ ''/'') ((rid' @ ''/'') @ itoa (unat vb))"
    by (simp add: GetCatalogPathFromCatalogKey_def getCheckpointCatalogKey_def getPathFromKey_def getCheckpointDocKey_def)
  then obtain D where D: "rid @ ''/'' = (rid' @ ''/'') @ D" "prefix D (itoa (unat vb))"
    using assms unfolding prefix_append by blast
  have "D \<noteq> []" using D(1) assms by auto
  then have "last D = CHR ''/''" using D(1) by (metis last_appendR last_snoc)
  with \<open>D \<noteq> []\<close> have "CHR ''/'' \<in> set D" by (metis last_in_set)
  with D(2) have "CHR ''/'' \<in> set (itoa (unat vb))" by (meson set_mono_prefix subsetD)
  with itoa_no_delim(2) show False by blast
qed


section \<open>The service over a metakv\<close>

text \<open>
  The checkpoints service of one replication over a metakv that behaves as
  documented; \<open>n\<close> is the number of records a document keeps and \<open>ver\<close> the version of
  the target cluster.  A vbucket is well-formed in the store when it has no
  document or one that reads back as it was written.
\<close>

locale checkpoint_metakv = metakv_store mk kv
  for mk :: "('s, content, 'r) metakv" and kv :: "'s \<Rightarrow> string \<Rightarrow> (content \<times> 'r) option" +
  fixes rs :: retry_settings and n :: nat and rid :: string and ver :: int
  assumes n_pos: "0 < n" and ver_int: "- (2 ^ 63) \<le> ver" "ver < 2 ^ 63"
begin

definition stored :: "'s \<Rightarrow> vbno \<Rightarrow> CheckpointsDoc \<Rightarrow> bool" where
  "stored s vb d \<longleftrightarrow> exact_doc d \<and> (\<exists>rv. path_store kv s (getCheckpointDocKey rid vb) = Some (Json (marshal_doc d), rv))"

definition doc_wf :: "'s \<Rightarrow> vbno \<Rightarrow> bool" where
  "doc_wf s vb \<longleftrightarrow> path_store kv s (getCheckpointDocKey rid vb) = None \<or> (\<exists>d. stored s vb d)"

lemma CheckpointsDoc_get_effect:
  assumes "CheckpointsDoc_get mk rs rid vb s = (res, s')"
  shows "path_store kv s' = path_store kv s \<and>
    (doc_wf s vb \<longrightarrow> (\<exists>err. res = Some (Inl err)) \<or> (\<exists>d. res = Some (Inr d) \<and> stored s vb d))"
proof -
  obtain v r0 e s1 where g: "Meta_Get mk rs (getCheckpointDocKey rid vb) s = ((v, r0, e), s1)" by (metis prod.exhaust)
  then have "(res, s') = (case e of Some err \<Rightarrow> Some (Inl err) | None \<Rightarrow> constructCheckpointDoc v, s1)"
    using assms by (simp add: CheckpointsDoc_get_def split: option.splits)
  then show ?thesis using Meta_Get_cases[OF g]
    by (cases e; auto simp: doc_wf_def stored_def constructCheckpointDoc_def exact_doc_roundtrip; blast)
qed

lemma Meta_Set_effect:
  assumes "Meta_Set mk rs k v None s = (e, s')"
  shows "path_store kv s' = path_store kv s \<or> (\<exists>r'. path_store kv s' = (path_store kv s)(k \<mapsto> (v, r')))"
proof -
  have "kv s' = kv s \<or> (\<exists>r'. kv s' = (kv s)(getPathFromKey k \<mapsto> (v, r')))"
    using Meta_set_correct[OF assms[unfolded Meta_Set_def]] by blast
  then show ?thesis using path_store_upd[of kv s' s k] by (metis path_store_def ext)
qed

lemma UpsertCheckpoints_frame:
  assumes "UpsertCheckpoints mk rs n rid spec vb r xs ver' s = (res, s')" "k \<noteq> getCheckpointDocKey rid vb"
  shows "path_store kv s' k = path_store kv s k"
proof (cases "r = None")
  case True
  then show ?thesis using assms by (simp add: UpsertCheckpoints_def)
next
  case False
  obtain rd s1 where g: "CheckpointsDoc_get mk rs rid vb s = (rd, s1)" by (metis prod.exhaust)
  have "path_store kv s' = path_store kv s1 \<or> (\<exists>v e. Meta_Set mk rs (getCheckpointDocKey rid vb) v None s1 = (e, s'))"
    using assms(1) g False by (auto simp: UpsertCheckpoints_def split: option.splits sum.splits prod.splits bool.splits if_splits)
  then show ?thesis
    using CheckpointsDoc_get_effect[OF g] Meta_Set_effect assms(2) by fastforce
qed

lemma UpsertCheckpoints_effect:
  assumes "doc_wf s vb" "exact_record r" "Target_vb_opaque r \<noteq> None"
    and run: "UpsertCheckpoints mk rs n rid spec vb (Some r) xs ver s = (res, s')"
  shows "res \<noteq> None \<and>
    (path_store kv s' (getCheckpointDocKey rid vb) = path_store kv s (getCheckpointDocKey rid vb) \<or>
     (\<exists>d. stored s' vb d \<and> hd (Checkpoint_records d) = Some r \<and>
        (\<forall>a. Some a \<in> set (Checkpoint_records d) \<longrightarrow>
           a = r \<or> (\<exists>d0. stored s vb d0 \<and> Some a \<in> set (Checkpoint_records d0)))))"
proof -
  let ?k = "getCheckpointDocKey rid vb"
  obtain rd s1 where g: "CheckpointsDoc_get mk rs rid vb s = (rd, s1)" by (metis prod.exhaust)
  note ge = CheckpointsDoc_get_effect[OF g]
  consider (err) err where "rd = Some (Inl err)" "err \<noteq> MetadataNotFoundErr"
    | (doc) d0 where "(if rd = Some (Inl MetadataNotFoundErr) then d0 = NewCheckpointsDoc n spec else rd = Some (Inr d0))"
        "exact_doc d0" "\<forall>a. Some a \<in> set (Checkpoint_records d0) \<longrightarrow> stored s vb d0"
    using ge assms(1) exact_doc_new[of n spec]
    by (cases "rd = Some (Inl MetadataNotFoundErr)") (auto simp: stored_def NewCheckpointsDoc_def)
  then show ?thesis
  proof cases
    case err
    then have "s' = s1" "res \<noteq> None" using run g by (auto simp: UpsertCheckpoints_def)
    then show ?thesis using ge by simp
  next
    case doc
    let ?d1 = "update_doc_fields xs ver d0"
    obtain d2 b where add: "AddRecord n (Some r) ?d1 = Some (d2, b)"
      and d2: "b \<Longrightarrow> exact_doc d2 \<and> hd (Checkpoint_records d2) = Some r \<and>
        set (Checkpoint_records d2) \<subseteq> insert (Some r) (insert None (set (Checkpoint_records d0)))"
      using AddRecord_exact[OF exact_doc_update[OF doc(2) ver_int, of xs] assms(2,3) n_pos]
      by (auto simp: update_doc_fields_def Let_def split: if_splits)
    obtain e2 s2 where st: "Meta_Set mk rs ?k (Json (marshal_doc d2)) None s1 = (e2, s2)" by (metis prod.exhaust)
    have "(res, s') = (if b then (Some None, s2) else (Some None, s1))"
      using run g doc(1) add st by (auto simp: UpsertCheckpoints_def split: if_splits)
    then have res: "res = Some None" "s' = (if b then s2 else s1)" by (auto split: if_splits)
    show ?thesis
    proof (cases b)
      case False
      then show ?thesis using res ge by simp
    next
      case True
      from Meta_Set_effect[OF st] show ?thesis
      proof (elim disjE exE)
        assume "path_store kv s2 = path_store kv s1"
        then show ?thesis using True res ge by simp
      next
        fix r' assume "path_store kv s2 = (path_store kv s1)(?k \<mapsto> (Json (marshal_doc d2), r'))"
        then have "stored s' vb d2" using True res d2 by (simp add: stored_def)
        then show ?thesis using True res d2 doc(3) by blast
      qed
    qed
  qed
qed

end

interpretation ckmem: checkpoint_metakv mem_metakv snd rs "Suc n" rid 0 for rs n rid
  by unfold_locales simp_all


section \<open>Properties of the checkpoints service\<close>

text \<open>A document key determines the replication and the vbucket, and the decoder recovers
  the vbucket from it, whatever characters the replication id contains.\<close>

theorem checkpoint_key_roundtrip:
  "decodeVbnoFromCkptDocKey (getCheckpointDocKey rid vb) = Some vb \<and>
   (getCheckpointDocKey rid vb = getCheckpointDocKey rid' vb' \<longleftrightarrow> rid = rid' \<and> vb = vb')"
  by (simp add: docKey_inj)

text \<open>C16. Upserting a checkpoint over a metakv that behaves as documented does not panic, leaves
  every other key alone, and leaves under the key of the vbucket either the old content or
  a document that reads back exactly and has the new record in front.\<close>

theorem upsert_atomic:
  fixes kv :: "'s \<Rightarrow> string \<Rightarrow> (content \<times> 'r) option"
  assumes "metakv_store mk kv" "0 < n" "exact_record r" "Target_vb_opaque r \<noteq> None"
    "- (2 ^ 63) \<le> ver" "ver < 2 ^ 63"
    and old: "path_store kv s (getCheckpointDocKey rid vb) = None \<or>
      (\<exists>d0 rv. path_store kv s (getCheckpointDocKey rid vb) = Some (Json (marshal_doc d0), rv) \<and> exact_doc d0)"
    and run: "UpsertCheckpoints mk rs n rid spec vb (Some r) xs ver s = (res, s')"
  shows "res \<noteq> None \<and>
    (\<forall>k. k \<noteq> getCheckpointDocKey rid vb \<longrightarrow> path_store kv s' k = path_store kv s k) \<and>
    (path_store kv s' (getCheckpointDocKey rid vb) = path_store kv s (getCheckpointDocKey rid vb) \<or>
     (\<exists>d rv. path_store kv s' (getCheckpointDocKey rid vb) = Some (Json (marshal_doc d), rv) \<and>
        unmarshal_doc (marshal_doc d) = Some (Inr d) \<and> hd (Checkpoint_records d) = Some r))"
proof -
  have ck: "checkpoint_metakv mk kv n ver"
    using assms(1,2,5,6) by (simp add: checkpoint_metakv_def checkpoint_metakv_axioms_def)
  have wf: "checkpoint_metakv.doc_wf kv rid s vb"
    using old by (auto simp: checkpoint_metakv.doc_wf_def[OF ck] checkpoint_metakv.stored_def[OF ck])
  from checkpoint_metakv.UpsertCheckpoints_effect[OF ck wf assms(3,4) run]
    checkpoint_metakv.UpsertCheckpoints_frame[OF ck run]
  show ?thesis by (auto simp: checkpoint_metakv.stored_def[OF ck] exact_doc_roundtrip)
qed

definition example_settings :: retry_settings where
  "example_settings = \<lparr>RetryIntervalMetakv = 5, MaxNumOfMetakvRetries = 1, MetaKvBackoffFactor = 2\<rparr>"

lemmas mem_eval =
  Meta_Get_def Meta_set_def Meta_Set_def Meta_Del_def run_op_def ExponentialBackoffExecutor_def
  mem_metakv_def mem_fail_def mem_err_def mem_mismatch_def mem_rev_ok_def getPathFromKey_def example_settings_def
  MetadataNotFoundErr_def

theorem upsert_atomic_witness:
  "\<exists>s' d rv. UpsertCheckpoints mem_metakv example_settings 2 ''r'' ''i'' 3 (Some (example_record 7)) 0 0
        (1, Map.empty) = (Some None, s') \<and>
     path_store snd s' (getCheckpointDocKey ''r'' 3) = Some (Json (marshal_doc d), rv) \<and>
     hd (Checkpoint_records d) = Some (example_record 7)"
proof -
  let ?k = "getCheckpointDocKey ''r'' 3"
  let ?s = "(1 :: nat, Map.empty :: string \<rightharpoonup> content \<times> nat)"
  obtain res s' where run: "UpsertCheckpoints mem_metakv example_settings 2 ''r'' ''i'' 3 (Some (example_record 7)) 0 0 ?s = (res, s')"
    by (metis prod.exhaust)
  have same: "IsSame None (Some x) = Some False" for x by (simp add: IsSame_def)
  have set: "path_store snd s' ?k \<noteq> None \<and> res = Some None"
    using run
    by (auto simp: UpsertCheckpoints_def CheckpointsDoc_get_def NewCheckpointsDoc_def mem_eval AddRecord_def same
        update_doc_fields_def numeral_2_eq_2 Let_def path_store_def split: prod.splits option.splits if_splits)
  have "exact_record (example_record 7)" "Target_vb_opaque (example_record 7) \<noteq> None"
    by (simp_all add: example_record_def empty_record_def exact_record_def exact_u64_def)
  then show ?thesis
    using upsert_atomic[OF mem.metakv_store_axioms _ _ _ _ _ _ run] set run
    by (fastforce simp: path_store_def)
qed



text \<open>C18. Reading all checkpoint documents of a replication from a listing of the stored ones gives
  each vbucket the document that was stored for it.\<close>

theorem checkpoint_docs_listing:
  assumes "distinct (map fst ds)" "\<forall>(vb, d, rv)\<in>set ds. exact_doc d"
  shows "docs_loop (map (\<lambda>(vb, d, rv). (getCheckpointDocKey rid vb, Json (marshal_doc d), rv)) ds) Map.empty =
           Some (Inr (map_of (map (\<lambda>(vb, d, rv). (vb, d)) ds)))"
proof -
  have "docs_loop (map (\<lambda>(vb, d, rv). (getCheckpointDocKey rid vb, Json (marshal_doc d), rv)) ds) m =
          Some (Inr (m ++ map_of (map (\<lambda>(vb, d, rv). (vb, d)) ds)))" for m
    using assms
  proof (induction ds arbitrary: m)
    case (Cons x ds)
    obtain vb d rv where x: "x = (vb, d, rv)" by (cases x)
    have "vb \<notin> dom (map_of (map (\<lambda>(vb, d, rv). (vb, d)) ds))"
      using Cons.prems(1) x by (auto simp: dom_map_of_conv_image_fst image_iff)
    then have "m(vb \<mapsto> d) ++ map_of (map (\<lambda>(vb, d, rv). (vb, d)) ds) =
        m ++ (map_of (map (\<lambda>(vb, d, rv). (vb, d)) ds))(vb \<mapsto> d)"
      by (simp add: map_add_upd_left)
    with Cons x show ?case
      by (auto simp: constructCheckpointDoc_def exact_doc_roundtrip fun_eq_iff map_add_def split: option.splits)
  qed simp
  then show ?thesis by simp
qed

theorem checkpoint_docs_listing_witness:
  "docs_loop [(getCheckpointDocKey ''r'' 4, Json (marshal_doc (NewCheckpointsDoc 2 ''i'')), 0 :: nat)] Map.empty =
     Some (Inr [4 \<mapsto> NewCheckpointsDoc 2 ''i''])"
  using checkpoint_docs_listing[of "[(4, NewCheckpointsDoc 2 ''i'', 0 :: nat)]" "''r''"] exact_doc_new[of 2 "''i''"]
  by simp

text \<open>C19. Deleting the checkpoint documents of a replication without error removes the documents of
  all its vbuckets, and no document of a replication whose id does not continue its id.\<close>

theorem delete_docs_exactly:
  assumes "metakv_store mk kv" "DelCheckpointsDocs mk rs rid s = (None, s')"
    "\<not> prefix (rid @ ''/'') (rid' @ ''/'')"
  shows "path_store kv s' (getCheckpointDocKey rid vb) = None \<and>
     path_store kv s' (getCheckpointDocKey rid' vb) = path_store kv s (getCheckpointDocKey rid' vb)"
  using metakv_store.DelAllFromCatalog_correct[OF assms(1) assms(2)[unfolded DelCheckpointsDocs_def]]
    docKey_path_catalog[of rid vb] docKey_not_in_catalog[OF assms(3), of vb]
  by (auto simp: path_store_def)

theorem delete_docs_exactly_witness:
  "let s = (1 :: nat, [getPathFromKey (getCheckpointDocKey ''a'' 1) \<mapsto> (NoBytes, 0 :: nat),
                       getPathFromKey (getCheckpointDocKey ''b'' 1) \<mapsto> (NoBytes, 5)]);
       s' = snd (DelCheckpointsDocs mem_metakv example_settings ''a'' s)
   in path_store snd s' (getCheckpointDocKey ''a'' 1) = None \<and>
      path_store snd s' (getCheckpointDocKey ''b'' 1) = Some (NoBytes, 5)"
proof -
  let ?s = "(1 :: nat, [getPathFromKey (getCheckpointDocKey ''a'' 1) \<mapsto> (NoBytes, 0 :: nat),
                       getPathFromKey (getCheckpointDocKey ''b'' 1) \<mapsto> (NoBytes, 5)])"
  obtain s' where s': "DelCheckpointsDocs mem_metakv example_settings ''a'' ?s = (None, s')"
    by (simp add: DelCheckpointsDocs_def DelAllFromCatalog_def mem_eval)
  show ?thesis
    using delete_docs_exactly[OF mem.metakv_store_axioms s', of "''b''" 1] s' by (simp add: path_store_def Let_def)
qed

end
