(* ===== verification/Base_Utils.thy ===== *)
theory Base_Utils
  imports Prelude
begin

text \<open>
  The pure helpers of \<open>base/simple_utils.go\<close> that the components share: searches
  and insertions in sorted lists, list differences, load balancing, version
  encoding, host addresses, error maps and the in-place byte-slice insertions.

  A Go map that a function ranges over is an association list in the iteration
  order of that run (the order is arbitrary, the keys are distinct); a map that
  is only read by key is an option-valued function.
\<close>


section \<open>Sorted lists of vbuckets and sequence numbers\<close>

definition SortUint16List :: "vbno list \<Rightarrow> vbno list" where
  "SortUint16List l = sort l"

definition SortUint64List :: "seqno list \<Rightarrow> seqno list" where
  "SortUint64List l = sort l"

definition SearchUint64List :: "seqno list \<Rightarrow> seqno \<Rightarrow> nat \<times> bool" where
  "SearchUint64List seqno_list s = 
     (let index = sort_Search (length seqno_list) (\<lambda>i. seqno_list ! i \<ge> s) in
        if index < length seqno_list \<and> seqno_list ! index = s then (index, True)
        else (index, False))"

definition SearchVBInSortedList :: "vbno \<Rightarrow> vbno list \<Rightarrow> nat \<times> bool" where
  "SearchVBInSortedList v vb_list =
     (let index = sort_Search (length vb_list) (\<lambda>i. vb_list ! i \<ge> v) in
        if index < length vb_list \<and> vb_list ! index = v then (index, True)
        else (index, False))"

definition AddVbToSortedList :: "vbno \<Rightarrow> vbno list \<Rightarrow> vbno list" where
  "AddVbToSortedList v vb_list =
     (let (index, found) = SearchVBInSortedList v vb_list in
        if found then vb_list
        else take index vb_list @ [v] @ drop index vb_list)"

fun IsVbInList :: "vbno \<Rightarrow> vbno list \<Rightarrow> bool" where
  "IsVbInList v [] = False"
| "IsVbInList v (w # ws) = (if w = v then True else IsVbInList v ws)"

fun same_elements :: "vbno list \<Rightarrow> vbno list \<Rightarrow> bool" where
  "same_elements (x # xs) (y # ys) = (if x \<noteq> y then False else same_elements xs ys)"
| "same_elements _ _ = True"

definition AreSortedUint16ListsTheSame :: "vbno list \<Rightarrow> vbno list \<Rightarrow> bool" where
  "AreSortedUint16ListsTheSame l1 l2 =
     (if length l1 \<noteq> length l2 then False
      else if length l1 = 0 then True
      else same_elements l1 l2)"

text \<open>The two cursors \<open>i\<close> and \<open>j\<close> of the merge loop are the remaining suffixes.\<close>

fun delta_loop :: "vbno list \<Rightarrow> vbno list \<Rightarrow> vbno list \<times> vbno list" where
  "delta_loop [] ys = ([], ys)"
| "delta_loop xs [] = (xs, [])"
| "delta_loop (x # xs) (y # ys) =
     (if x = y then delta_loop xs ys
      else if x > y then
        (let (removed, new) = delta_loop (x # xs) ys in (removed, y # new))
      else
        (let (removed, new) = delta_loop xs (y # ys) in (x # removed, new)))"

definition ComputeDeltaOfUint16Lists ::
  "vbno list \<Rightarrow> vbno list \<Rightarrow> bool \<Rightarrow> vbno list \<times> vbno list" where
  "ComputeDeltaOfUint16Lists l1 l2 need_sort =
     (if need_sort then delta_loop (SortUint16List l1) (SortUint16List l2)
      else delta_loop l1 l2)"

definition GetVbListFromKvVbMap :: "(string \<times> vbno list) list \<Rightarrow> vbno list" where
  "GetVbListFromKvVbMap kv_vb_map = concat (map snd kv_vb_map)"

definition map_read :: "(vbno \<times> string) list \<Rightarrow> vbno \<Rightarrow> string" where
  "map_read m v = (case map_of m v of Some s \<Rightarrow> s | None \<Rightarrow> [])"

definition GetDiffVBList ::
  "vbno list \<Rightarrow> (vbno \<times> string) list \<Rightarrow> (vbno \<times> string) list \<Rightarrow> vbno list" where
  "GetDiffVBList vbList m1 m2 =
     SortUint16List (filter (\<lambda>vb. map_read m1 vb \<noteq> map_read m2 vb) vbList)"

definition AreVBServerMapsTheSame ::
  "(vbno \<times> string) list \<Rightarrow> (vbno \<times> string) list \<Rightarrow> bool" where
  "AreVBServerMapsTheSame m1 m2 =
     (if length m1 \<noteq> length m2 then False
      else list_all (\<lambda>(vb, server). server = map_read m2 vb) m1)"

definition ConstructVbServerMap ::
  "vbno list \<Rightarrow> (string \<times> vbno list) list \<Rightarrow> (vbno \<rightharpoonup> string)" where
  "ConstructVbServerMap vbList serverVbMap =
     foldl (\<lambda>acc (server, vbs).
        foldl (\<lambda>a vb. if snd (SearchVBInSortedList vb vbList) then a(vb \<mapsto> server) else a) acc vbs)
       Map.empty serverVbMap"

text \<open>
  The in-place shuffles: \<open>rnd\<close> stands for the successive results of
  \<open>Intn\<close>, whose argument bounds them.
\<close>

definition swap_at :: "'a list \<Rightarrow> nat \<Rightarrow> nat \<Rightarrow> 'a list" where
  "swap_at xs i j = (if j \<noteq> i then xs[i := xs ! j, j := xs ! i] else xs)"

fun randomize_from :: "nat \<Rightarrow> (nat \<Rightarrow> nat) \<Rightarrow> nat \<Rightarrow> vbno list \<Rightarrow> vbno list" where
  "randomize_from 0 rnd i xs = xs"
| "randomize_from (Suc k) rnd i xs = randomize_from k rnd (Suc i) (swap_at xs i (rnd (Suc k) + i))"

definition RandomizeUint16List :: "(nat \<Rightarrow> nat) \<Rightarrow> vbno list \<Rightarrow> vbno list" where
  "RandomizeUint16List rnd l = randomize_from (length l) rnd 0 l"

fun shuffle_from :: "nat \<Rightarrow> (nat \<Rightarrow> nat) \<Rightarrow> 'a list \<Rightarrow> 'a list" where
  "shuffle_from (Suc (Suc k)) rnd xs = shuffle_from (Suc k) rnd (swap_at xs (Suc k) (rnd (Suc (Suc k))))"
| "shuffle_from _ rnd xs = xs"

definition ShuffleVbList :: "(nat \<Rightarrow> nat) \<Rightarrow> vbno list \<Rightarrow> vbno list" where
  "ShuffleVbList rnd l = shuffle_from (length l) rnd l"

definition ShuffleStringsList :: "(nat \<Rightarrow> nat) \<Rightarrow> string list \<Rightarrow> string list" where
  "ShuffleStringsList rnd l = shuffle_from (length l) rnd l"

text \<open>
  The contract of a list search: on a list split at the key it returns the
  number of smaller elements and whether the key is present.
\<close>

locale sorted_search =
  fixes search :: "'a::linorder list \<Rightarrow> 'a \<Rightarrow> nat \<times> bool"
  assumes search_split:
    "split_at x xs \<Longrightarrow> search xs x = (length (filter (\<lambda>a. a < x) xs), x \<in> set xs)"
begin

lemma search_sorted:
  "sorted xs \<Longrightarrow> search xs x = (length (filter (\<lambda>a. a < x) xs), x \<in> set xs)"
  by (simp add: search_split sorted_split_at)

lemma search_found_nth:
  assumes "split_at x xs" "x \<in> set xs"
  shows "fst (search xs x) < length xs \<and> xs ! fst (search xs x) = x"
  using split_at_mem_nth[OF assms] split_at_takeWhile_filter[OF assms(1)]
  by (simp add: search_split[OF assms(1)])

lemma drop_search_found:
  assumes "split_at x xs" "distinct xs" "x \<in> set xs"
  shows "drop (Suc (fst (search xs x))) xs = filter (\<lambda>a. x < a) xs"
proof -
  have "drop (fst (search xs x)) xs = x # filter (\<lambda>a. x < a) xs"
    using assms
    by (simp add: search_split drop_length_filter_split filter_le_distinct_found)
  then show ?thesis by (metis drop_Suc list.sel(3) tl_drop)
qed

lemma drop_search_not_found:
  assumes "split_at x xs" "x \<notin> set xs"
  shows "drop (fst (search xs x)) xs = filter (\<lambda>a. x < a) xs"
proof -
  have "drop (fst (search xs x)) xs = filter (\<lambda>a. x \<le> a) xs"
    using assms(1) by (simp add: search_split drop_length_filter_split)
  also have "\<dots> = filter (\<lambda>a. x < a) xs"
    using assms(2) by (intro filter_cong) (auto simp: order_less_le)
  finally show ?thesis .
qed

lemma take_search:
  assumes "split_at x xs"
  shows "take (fst (search xs x)) xs = filter (\<lambda>a. a < x) xs"
  using split_at_takeWhile_filter[OF assms] takeWhile_eq_take[of "\<lambda>a. a < x" xs]
  by (simp add: search_split[OF assms])

lemma insert_at_search:
  assumes "sorted xs" "x \<notin> set xs"
  defines "i \<equiv> fst (search xs x)"
  shows "sorted (take i xs @ [x] @ drop i xs) \<and>
         mset (take i xs @ [x] @ drop i xs) = add_mset x (mset xs)"
proof -
  have t: "take i xs = filter (\<lambda>a. a < x) xs" and d: "drop i xs = filter (\<lambda>a. x < a) xs"
    using assms by (simp_all add: i_def take_search drop_search_not_found sorted_split_at)
  have "sorted (take i xs @ [x] @ drop i xs)"
    using assms(1) unfolding t d by (auto simp: sorted_append sorted_wrt_filter)
  moreover have "mset (take i xs @ [x] @ drop i xs) = add_mset x (mset (take i xs @ drop i xs))"
    by (simp del: append_take_drop_id)
  ultimately show ?thesis by (simp only: append_take_drop_id)
qed

end

lemma SearchUint64List_geq: "SearchUint64List = search_geq"
  by (simp add: fun_eq_iff SearchUint64List_def search_geq_def)

lemma SearchVBInSortedList_geq: "SearchVBInSortedList v l = search_geq l v"
  by (simp add: SearchVBInSortedList_def search_geq_def)

interpretation u64: sorted_search SearchUint64List
  by unfold_locales (simp add: SearchUint64List_geq search_geq_split)

interpretation u16: sorted_search "\<lambda>l v. SearchVBInSortedList v l"
  by unfold_locales (simp add: SearchVBInSortedList_geq search_geq_split)


subsection \<open>What the list helpers compute\<close>

lemma AddVbToSortedList_sorted:
  "sorted l \<Longrightarrow> sorted (AddVbToSortedList v l)"
  using u16.insert_at_search[of l v]
  by (auto simp: AddVbToSortedList_def u16.search_sorted)

lemma AddVbToSortedList_set:
  assumes "sorted l"
  shows "set (AddVbToSortedList v l) = insert v (set l)"
proof (cases "v \<in> set l")
  case False
  then have "set_mset (mset (AddVbToSortedList v l)) = insert v (set l)"
    using u16.insert_at_search[OF assms False] assms
    by (simp add: AddVbToSortedList_def u16.search_sorted)
  then show ?thesis by simp
qed (auto simp: AddVbToSortedList_def u16.search_sorted[OF assms])

lemma AddVbToSortedList_distinct:
  assumes "sorted l" "distinct l"
  shows "distinct (AddVbToSortedList v l)"
proof (cases "v \<in> set l")
  case False
  then have "mset (AddVbToSortedList v l) = add_mset v (mset l)"
    using u16.insert_at_search[OF assms(1) False] assms
    by (simp add: AddVbToSortedList_def u16.search_sorted)
  moreover have "add_mset v (mset l) = mset (v # l)" by simp
  ultimately show ?thesis using False assms(2) by (metis distinct.simps(2) mset_eq_imp_distinct_iff)
qed (use assms in \<open>auto simp: AddVbToSortedList_def u16.search_sorted\<close>)

lemma IsVbInList_iff: "IsVbInList v l \<longleftrightarrow> v \<in> set l"
  by (induction v l rule: IsVbInList.induct) auto

lemma same_elements_eq: "length l1 = length l2 \<Longrightarrow> same_elements l1 l2 \<longleftrightarrow> l1 = l2"
  by (induction l1 l2 rule: list_induct2) auto

lemma AreSortedUint16ListsTheSame_iff: "AreSortedUint16ListsTheSame l1 l2 \<longleftrightarrow> l1 = l2"
  using same_elements_eq[of l1 l2] by (auto simp: AreSortedUint16ListsTheSame_def)

lemma delta_loop_correct:
  assumes "sorted xs" "sorted ys" "distinct xs" "distinct ys"
  shows "delta_loop xs ys = (filter (\<lambda>x. x \<notin> set ys) xs, filter (\<lambda>y. y \<notin> set xs) ys)"
  using assms
proof (induction xs ys rule: delta_loop.induct)
  case (3 x xs y ys)
  consider "x = y" | "x > y" | "x < y" by fastforce
  then show ?case
  proof cases
    case 1
    with "3.prems" have "x \<notin> set xs" "x \<notin> set ys" by auto
    with 1 3 show ?thesis by (auto intro!: filter_cong)
  next
    case 2
    with "3.prems" have "y \<notin> set (x # xs)" by auto
    with 2 3 show ?thesis by (auto intro!: filter_cong)
  next
    case 3
    with "3.prems" have "x \<notin> set (y # ys)" by auto
    with 3 "3.IH"(3) "3.prems" show ?thesis by (auto intro!: filter_cong)
  qed
qed auto

lemma ComputeDelta_correct:
  assumes "distinct l1" "distinct l2" "need_sort \<or> sorted l1 \<and> sorted l2"
    "ComputeDeltaOfUint16Lists l1 l2 need_sort = (removed, new)"
  shows "set removed = set l1 - set l2" "set new = set l2 - set l1"
    "sorted removed" "sorted new" "distinct removed" "distinct new"
  using assms
  by (auto simp: ComputeDeltaOfUint16Lists_def SortUint16List_def delta_loop_correct
      sorted_wrt_filter split: if_splits)

lemma AreVBServerMapsTheSame_iff:
  assumes "distinct (map fst m1)" "distinct (map fst m2)" "[] \<notin> snd ` set m1"
  shows "AreVBServerMapsTheSame m1 m2 \<longleftrightarrow> map_of m1 = map_of m2"
proof
  assume "AreVBServerMapsTheSame m1 m2"
  then have len: "length m1 = length m2"
    and rd: "\<forall>(vb, s)\<in>set m1. s = map_read m2 vb"
    by (auto simp: AreVBServerMapsTheSame_def list_all_iff split: if_splits)
  have sub: "set m1 \<subseteq> set m2"
  proof
    fix p assume p: "p \<in> set m1"
    obtain vb s where [simp]: "p = (vb, s)" by (cases p)
    with p rd have "s = map_read m2 vb" by auto
    moreover have "s \<noteq> []" using p assms(3) by force
    ultimately show "p \<in> set m2"
      by (auto simp: map_read_def dest: map_of_SomeD split: option.splits)
  qed
  have "card (set m1) = card (set m2)"
    using len assms(1,2) by (metis distinct_card distinct_map)
  with sub have "set m1 = set m2" by (simp add: card_subset_eq)
  with assms(1,2) show "map_of m1 = map_of m2" by (simp add: map_of_inject_set)
next
  assume eq: "map_of m1 = map_of m2"
  with assms(1,2) have "set m1 = set m2" by (simp add: map_of_inject_set)
  then have "length m1 = length m2" using assms(1,2) by (metis distinct_card distinct_map)
  moreover have "\<forall>(vb, s)\<in>set m1. s = map_read m2 vb"
    using assms(1) by (auto simp: map_read_def simp flip: eq)
  ultimately show "AreVBServerMapsTheSame m1 m2"
    by (simp add: AreVBServerMapsTheSame_def list_all_iff)
qed

lemma mset_swap_at:
  assumes "i < length xs" "j < length xs"
  shows "mset (swap_at xs i j) = mset xs"
  using assms by (simp add: swap_at_def mset_swap)

lemma length_swap_at [simp]: "length (swap_at xs i j) = length xs"
  by (simp add: swap_at_def)

lemma mset_randomize_from:
  assumes "\<forall>m>0. rnd m < m" "length xs = i + k"
  shows "mset (randomize_from k rnd i xs) = mset xs"
  using assms
proof (induction k rnd i xs rule: randomize_from.induct)
  case (2 k rnd i xs)
  then have "rnd (Suc k) + i < length xs"
    by (metis add.commute add_less_cancel_left zero_less_Suc)
  with 2 show ?case by (simp add: mset_swap_at)
qed simp

lemma mset_shuffle_from:
  assumes "\<forall>m>0. rnd m < m" "k \<le> length xs"
  shows "mset (shuffle_from k rnd xs) = mset xs"
  using assms
proof (induction k rnd xs rule: shuffle_from.induct)
  case (1 k rnd xs)
  then have "rnd (Suc (Suc k)) < length xs"
    by (meson less_le_trans zero_less_Suc)
  with 1 show ?case by (simp add: mset_swap_at)
qed auto


section \<open>Load balancing and versions\<close>

text \<open>
  \<open>BalanceLoad\<close>: the ceiling of the float quotient is the integer ceiling for the
  sizes in use (vbucket counts); \<open>None\<close> is the final panic.
\<close>

fun balance_loop :: "int \<Rightarrow> int \<Rightarrow> int \<Rightarrow> int \<Rightarrow> nat \<Rightarrow> (int \<times> int) list \<times> int" where
  "balance_loop max_load with_max i index 0 = ([], index)"
| "balance_loop max_load with_max i index (Suc k) =
     (let per = (if i < with_max then max_load else max_load - 1);
          (rest, final) = balance_loop max_load with_max (i + 1) (index + per) k
      in ((index, index + per) # rest, final))"

definition BalanceLoad :: "int \<Rightarrow> int \<Rightarrow> (int \<times> int) list option" where
  "BalanceLoad num_of_worker num_of_load =
     (let max_load = (num_of_load + num_of_worker - 1) div num_of_worker;
          with_max = num_of_load - (max_load - 1) * num_of_worker;
          (dist, index) = balance_loop max_load with_max 0 0 (nat num_of_worker)
      in if index \<noteq> num_of_load then None else Some dist)"

text \<open>A chain of half-open intervals from \<open>a\<close> to \<open>b\<close>.\<close>

fun interval_chain :: "int \<Rightarrow> (int \<times> int) list \<Rightarrow> int \<Rightarrow> bool" where
  "interval_chain a [] b \<longleftrightarrow> a = b"
| "interval_chain a ((l, r) # is) b \<longleftrightarrow> l = a \<and> l \<le> r \<and> interval_chain r is b"

lemma balance_loop_final:
  assumes "0 \<le> i"
  shows "snd (balance_loop m w i index k) =
         index + (m - 1) * int k + max 0 (min (int k) (w - i))"
  using assms
proof (induction m w i index k rule: balance_loop.induct)
  case (2 m w i index k)
  then show ?case
    by (auto simp: Let_def split_def algebra_simps max_def min_def)
qed simp

lemma balance_loop_chain:
  assumes "0 < m \<or> (m = 0 \<and> i + int k \<le> w)"
  shows "interval_chain index (fst (balance_loop m w i index k)) (snd (balance_loop m w i index k))"
  using assms
  by (induction m w i index k rule: balance_loop.induct) (auto simp: Let_def split_def)

lemma balance_loop_sizes:
  "\<forall>(l, r)\<in>set (fst (balance_loop m w i index k)). r - l = m \<or> r - l = m - 1"
  by (induction m w i index k rule: balance_loop.induct) (auto simp: Let_def split_def)

lemma length_balance_loop: "length (fst (balance_loop m w i index k)) = k"
  by (induction m w i index k rule: balance_loop.induct) (auto simp: Let_def split_def)

lemma balance_max_load_bounds:
  fixes w n :: int
  assumes "0 < w" "0 \<le> n"
  defines "m \<equiv> (n + w - 1) div w"
  shows "0 < n - (m - 1) * w" "n - (m - 1) * w \<le> w" "0 \<le> m" "m = 0 \<longleftrightarrow> n = 0"
proof -
  have eq: "n + w - 1 = m * w + (n + w - 1) mod w" by (simp add: m_def)
  have r: "0 \<le> (n + w - 1) mod w" "(n + w - 1) mod w < w" using assms by auto
  have d: "n - (m - 1) * w = (n + w - 1) mod w + 1"
    using eq by (simp add: algebra_simps)
  then show "0 < n - (m - 1) * w" "n - (m - 1) * w \<le> w" using r by auto
  show "0 \<le> m" using assms by (simp add: m_def pos_imp_zdiv_nonneg_iff)
  show "m = 0 \<longleftrightarrow> n = 0"
  proof
    assume "m = 0"
    then show "n = 0" using eq r assms by simp
  next
    assume "n = 0"
    then show "m = 0" using assms by (simp add: m_def div_pos_pos_trivial)
  qed
qed

lemma BalanceLoad_correct:
  assumes "0 < w" "0 \<le> n"
  shows "\<exists>dist. BalanceLoad w n = Some dist \<and> int (length dist) = w \<and>
           interval_chain 0 dist n \<and>
           (\<exists>m. \<forall>(l, r)\<in>set dist. r - l = m \<or> r - l = m - 1)"
proof -
  define m where "m = (n + w - 1) div w"
  define wm where "wm = n - (m - 1) * w"
  define res where "res = balance_loop m wm 0 0 (nat w)"
  note b = balance_max_load_bounds[OF assms, folded m_def, folded wm_def]
  have fin: "snd res = n"
    unfolding res_def by (subst balance_loop_final) (use b assms in \<open>auto simp: wm_def algebra_simps\<close>)
  have "interval_chain 0 (fst res) (snd res)"
    unfolding res_def
    by (rule balance_loop_chain) (use b assms in \<open>auto simp: wm_def\<close>)
  moreover have "BalanceLoad w n = Some (fst res)"
    using fin by (simp add: BalanceLoad_def Let_def split_def res_def wm_def m_def)
  moreover have "int (length (fst res)) = w"
    using assms by (simp add: res_def length_balance_loop)
  moreover have "\<forall>(l, r)\<in>set (fst res). r - l = m \<or> r - l = m - 1"
    unfolding res_def by (rule balance_loop_sizes)
  ultimately show ?thesis using fin by auto
qed

definition EncodeVersionToEffectiveVersion :: "int list \<Rightarrow> int" where
  "EncodeVersionToEffectiveVersion version =
     (let majorVersion = (if length version > 0 then version ! 0 else 0);
          minorVersion = (if length version > 1 then version ! 1 else 0)
      in majorVersion * 0x10000 + minorVersion)"

definition IsClusterCompatible :: "int \<Rightarrow> int list \<Rightarrow> bool" where
  "IsClusterCompatible clusterCompatibility version =
     (clusterCompatibility \<ge> EncodeVersionToEffectiveVersion version)"

lemma IsClusterCompatible_lex:
  assumes "0 \<le> min1" "min1 < 0x10000" "0 \<le> min2" "min2 < 0x10000"
  shows "IsClusterCompatible (EncodeVersionToEffectiveVersion [maj1, min1]) [maj2, min2] \<longleftrightarrow>
         maj2 < maj1 \<or> maj1 = maj2 \<and> min2 \<le> min1"
  using assms by (auto simp: IsClusterCompatible_def EncodeVersionToEffectiveVersion_def)

end
