(* ===== verification/Through_Seqno.thy ===== *)
theory Through_Seqno
  imports Base_Utils
begin

text \<open>
  The through-sequence-number tracker, \<open>service_impl/through_seqno_tracker_service.go\<close>.

  For every vbucket the tracker keeps the last sequence number such that every
  mutation up to it has been sent, filtered or rejected by conflict resolution;
  checkpoints are taken at that number.  The definitions follow the Go file:
  the lock-protected lists, the service with one map per list, the event
  handler and \<open>GetThroughSeqno\<close>.  The locks are the atomicity of the steps of
  the interleaved system at the end of the theory.
\<close>


section \<open>The lock-protected lists\<close>

type_synonym SortedSeqnoList = "seqno list"

text \<open>Returns the copy handed out and the list left in the object.\<close>

definition getSortedSeqnoList :: "bool \<Rightarrow> SortedSeqnoList \<Rightarrow> seqno list \<times> SortedSeqnoList" where
  "getSortedSeqnoList needToSort l =
     (if needToSort then (let l' = SortUint64List l in (l', l')) else (l, l))"

definition appendSeqno :: "seqno \<Rightarrow> SortedSeqnoList \<Rightarrow> SortedSeqnoList" where
  "appendSeqno s l = l @ [s]"

definition truncateSeqnos :: "seqno \<Rightarrow> SortedSeqnoList \<Rightarrow> SortedSeqnoList" where
  "truncateSeqnos through_seqno l =
     (let (index, found) = SearchUint64List l through_seqno in
        if found then drop (index + 1) l
        else if index > 0 then drop index l
        else l)"

record DualSortedSeqnoList =
  seqno_list_1 :: "seqno list"
  seqno_list_2 :: "seqno list"

definition newDualSortedSeqnoList :: DualSortedSeqnoList where
  "newDualSortedSeqnoList = \<lparr>seqno_list_1 = [], seqno_list_2 = []\<rparr>"

definition getSortedSeqnoLists :: "DualSortedSeqnoList \<Rightarrow> (seqno list \<times> seqno list) option" where
  "getSortedSeqnoLists d =
     (if length (seqno_list_1 d) \<noteq> length (seqno_list_2 d) then None
      else Some (seqno_list_1 d, seqno_list_2 d))"

definition appendSeqnos :: "seqno \<Rightarrow> seqno \<Rightarrow> DualSortedSeqnoList \<Rightarrow> DualSortedSeqnoList" where
  "appendSeqnos s1 s2 d =
     d\<lparr>seqno_list_1 := seqno_list_1 d @ [s1], seqno_list_2 := seqno_list_2 d @ [s2]\<rparr>"

definition truncateGapSeqnoList :: "seqno \<Rightarrow> seqno list \<Rightarrow> seqno list option" where
  "truncateGapSeqnoList through_seqno l =
     (let (index, found) = SearchUint64List l through_seqno in
        if found then None
        else if index > 0 then Some (drop index l)
        else Some l)"

definition truncateDualSeqnos :: "seqno \<Rightarrow> DualSortedSeqnoList \<Rightarrow> DualSortedSeqnoList option" where
  "truncateDualSeqnos through_seqno d = do {
     l1 \<leftarrow> truncateGapSeqnoList through_seqno (seqno_list_1 d);
     l2 \<leftarrow> truncateGapSeqnoList through_seqno (seqno_list_2 d);
     Some (d\<lparr>seqno_list_1 := l1, seqno_list_2 := l2\<rparr>)
   }"


section \<open>The service\<close>

text \<open>
  \<open>raised\<close> collects the error events handed to the pipeline supervisor by
  \<open>handleGeneralError\<close>; a read of a missing key of the pointer maps yields nil and
  its use panics.
\<close>

record ThroughSeqnoTrackerSvc =
  vb_map :: "vbno \<rightharpoonup> bool"
  through_seqno_map :: "vbno \<rightharpoonup> seqno"
  vb_sent_seqno_list_map :: "vbno \<rightharpoonup> SortedSeqnoList"
  vb_filtered_seqno_list_map :: "vbno \<rightharpoonup> SortedSeqnoList"
  vb_failed_cr_seqno_list_map :: "vbno \<rightharpoonup> SortedSeqnoList"
  vb_gap_seqno_list_map :: "vbno \<rightharpoonup> DualSortedSeqnoList"
  vb_last_seen_seqno_map :: "vbno \<rightharpoonup> seqno"
  raised :: "vbno list"

definition NewThroughSeqnoTrackerSvc :: ThroughSeqnoTrackerSvc where
  "NewThroughSeqnoTrackerSvc =
     \<lparr>vb_map = Map.empty, through_seqno_map = Map.empty,
      vb_sent_seqno_list_map = Map.empty, vb_filtered_seqno_list_map = Map.empty,
      vb_failed_cr_seqno_list_map = Map.empty, vb_gap_seqno_list_map = Map.empty,
      vb_last_seen_seqno_map = Map.empty, raised = []\<rparr>"

fun initialize_vbs :: "vbno list \<Rightarrow> ThroughSeqnoTrackerSvc \<Rightarrow> ThroughSeqnoTrackerSvc" where
  "initialize_vbs [] ts = ts"
| "initialize_vbs (v # vs) ts = initialize_vbs vs
     (ts\<lparr>vb_map := (vb_map ts)(v \<mapsto> True),
         through_seqno_map := (through_seqno_map ts)(v \<mapsto> 0),
         vb_last_seen_seqno_map := (vb_last_seen_seqno_map ts)(v \<mapsto> 0),
         vb_sent_seqno_list_map := (vb_sent_seqno_list_map ts)(v \<mapsto> []),
         vb_filtered_seqno_list_map := (vb_filtered_seqno_list_map ts)(v \<mapsto> []),
         vb_failed_cr_seqno_list_map := (vb_failed_cr_seqno_list_map ts)(v \<mapsto> []),
         vb_gap_seqno_list_map := (vb_gap_seqno_list_map ts)(v \<mapsto> newDualSortedSeqnoList)\<rparr>)"

definition validateVbno :: "vbno \<Rightarrow> ThroughSeqnoTrackerSvc \<Rightarrow> ThroughSeqnoTrackerSvc" where
  "validateVbno v ts =
     (case vb_map ts v of Some _ \<Rightarrow> ts | None \<Rightarrow> ts\<lparr>raised := raised ts @ [v]\<rparr>)"

definition addSentSeqno ::
  "vbno \<Rightarrow> seqno \<Rightarrow> ThroughSeqnoTrackerSvc \<Rightarrow> ThroughSeqnoTrackerSvc option" where
  "addSentSeqno v sent_seqno ts0 = (let ts = validateVbno v ts0 in do {
     l \<leftarrow> vb_sent_seqno_list_map ts v;
     Some (ts\<lparr>vb_sent_seqno_list_map :=
                (vb_sent_seqno_list_map ts)(v \<mapsto> appendSeqno sent_seqno l)\<rparr>)
   })"

definition addFilteredSeqno ::
  "vbno \<Rightarrow> seqno \<Rightarrow> ThroughSeqnoTrackerSvc \<Rightarrow> ThroughSeqnoTrackerSvc option" where
  "addFilteredSeqno v filtered_seqno ts0 = (let ts = validateVbno v ts0 in do {
     l \<leftarrow> vb_filtered_seqno_list_map ts v;
     Some (ts\<lparr>vb_filtered_seqno_list_map :=
                (vb_filtered_seqno_list_map ts)(v \<mapsto> appendSeqno filtered_seqno l)\<rparr>)
   })"

definition addFailedCRSeqno ::
  "vbno \<Rightarrow> seqno \<Rightarrow> ThroughSeqnoTrackerSvc \<Rightarrow> ThroughSeqnoTrackerSvc option" where
  "addFailedCRSeqno v failed_cr_seqno ts0 = (let ts = validateVbno v ts0 in do {
     l \<leftarrow> vb_failed_cr_seqno_list_map ts v;
     Some (ts\<lparr>vb_failed_cr_seqno_list_map :=
                (vb_failed_cr_seqno_list_map ts)(v \<mapsto> appendSeqno failed_cr_seqno l)\<rparr>)
   })"

definition processGapSeqnos ::
  "vbno \<Rightarrow> seqno \<Rightarrow> ThroughSeqnoTrackerSvc \<Rightarrow> ThroughSeqnoTrackerSvc option" where
  "processGapSeqnos v current_seqno ts0 = (let ts = validateVbno v ts0 in do {
     seen \<leftarrow> vb_last_seen_seqno_map ts v;
     last_seen \<leftarrow> (if seen = 0 then through_seqno_map ts v else Some seen);
     let ts1 = ts\<lparr>vb_last_seen_seqno_map :=
                    (vb_last_seen_seqno_map ts)(v \<mapsto> current_seqno)\<rparr>;
     if last_seen < current_seqno - 1 then do {
       d \<leftarrow> vb_gap_seqno_list_map ts1 v;
       Some (ts1\<lparr>vb_gap_seqno_list_map :=
                   (vb_gap_seqno_list_map ts1)
                     (v \<mapsto> appendSeqnos (last_seen + 1) (current_seqno - 1) d)\<rparr>)
     } else Some ts1
   })"

text \<open>
  The events the tracker is registered for.  A \<open>nil\<close> upr event is \<open>None\<close>; the
  filter error of \<open>DataUnableToFilter\<close> is represented by the answer of
  \<open>FilterErrorIsRecoverable\<close> (the error equals \<open>ErrorCompressionUnableToInflate\<close>).
\<close>

datatype filter_error = ErrorCompressionUnableToInflate | OtherFilterError

definition FilterErrorIsRecoverable :: "filter_error \<Rightarrow> bool" where
  "FilterErrorIsRecoverable err = (err = ErrorCompressionUnableToInflate)"

datatype tracker_event =
    DataSent vbno seqno
  | DataFiltered "(vbno \<times> seqno) option"
  | DataUnableToFilter filter_error "(vbno \<times> seqno) option"
  | DataFailedCRSource vbno seqno
  | DataReceived "(vbno \<times> seqno) option"
  | OtherEvent

definition markUprEventAsFiltered ::
  "(vbno \<times> seqno) option \<Rightarrow> ThroughSeqnoTrackerSvc \<Rightarrow> ThroughSeqnoTrackerSvc option" where
  "markUprEventAsFiltered uprEvent ts =
     (case uprEvent of None \<Rightarrow> Some ts | Some (v, s) \<Rightarrow> addFilteredSeqno v s ts)"

fun ProcessEvent :: "tracker_event \<Rightarrow> ThroughSeqnoTrackerSvc \<Rightarrow> ThroughSeqnoTrackerSvc option" where
  "ProcessEvent (DataSent v s) ts = addSentSeqno v s ts"
| "ProcessEvent (DataFiltered e) ts = markUprEventAsFiltered e ts"
| "ProcessEvent (DataUnableToFilter err e) ts =
     (if \<not> FilterErrorIsRecoverable err then markUprEventAsFiltered e ts else Some ts)"
| "ProcessEvent (DataFailedCRSource v s) ts = addFailedCRSeqno v s ts"
| "ProcessEvent (DataReceived None) ts = None"
| "ProcessEvent (DataReceived (Some (v, s))) ts = processGapSeqnos v s ts"
| "ProcessEvent OtherEvent ts = Some ts"

definition SetStartSeqno ::
  "vbno \<Rightarrow> seqno \<Rightarrow> ThroughSeqnoTrackerSvc \<Rightarrow> ThroughSeqnoTrackerSvc option" where
  "SetStartSeqno v s ts0 = (let ts = validateVbno v ts0 in
     (case through_seqno_map ts v of None \<Rightarrow> None
      | Some _ \<Rightarrow> Some (ts\<lparr>through_seqno_map := (through_seqno_map ts)(v \<mapsto> s)\<rparr>)))"


section \<open>Truncation\<close>

text \<open>
  \<open>truncateSeqnoLists\<close> runs in a goroutine of its own and locks the four lists
  one after the other; each list is a stage.
\<close>

datatype trunc_stage = TruncSent | TruncFiltered | TruncFailedCR | TruncGap

fun truncate_stage ::
  "trunc_stage \<Rightarrow> vbno \<Rightarrow> seqno \<Rightarrow> ThroughSeqnoTrackerSvc \<Rightarrow> ThroughSeqnoTrackerSvc option" where
  "truncate_stage TruncSent v t ts = do {
     l \<leftarrow> vb_sent_seqno_list_map ts v;
     Some (ts\<lparr>vb_sent_seqno_list_map :=
                (vb_sent_seqno_list_map ts)(v \<mapsto> truncateSeqnos t l)\<rparr>) }"
| "truncate_stage TruncFiltered v t ts = do {
     l \<leftarrow> vb_filtered_seqno_list_map ts v;
     Some (ts\<lparr>vb_filtered_seqno_list_map :=
                (vb_filtered_seqno_list_map ts)(v \<mapsto> truncateSeqnos t l)\<rparr>) }"
| "truncate_stage TruncFailedCR v t ts = do {
     l \<leftarrow> vb_failed_cr_seqno_list_map ts v;
     Some (ts\<lparr>vb_failed_cr_seqno_list_map :=
                (vb_failed_cr_seqno_list_map ts)(v \<mapsto> truncateSeqnos t l)\<rparr>) }"
| "truncate_stage TruncGap v t ts = do {
     d \<leftarrow> vb_gap_seqno_list_map ts v;
     d' \<leftarrow> truncateDualSeqnos t d;
     Some (ts\<lparr>vb_gap_seqno_list_map := (vb_gap_seqno_list_map ts)(v \<mapsto> d')\<rparr>) }"

definition truncateSeqnoLists ::
  "vbno \<Rightarrow> seqno \<Rightarrow> ThroughSeqnoTrackerSvc \<Rightarrow> ThroughSeqnoTrackerSvc option" where
  "truncateSeqnoLists v t ts = do {
     ts1 \<leftarrow> truncate_stage TruncSent v t ts;
     ts2 \<leftarrow> truncate_stage TruncFiltered v t ts1;
     ts3 \<leftarrow> truncate_stage TruncFailedCR v t ts2;
     truncate_stage TruncGap v t ts3 }"


section \<open>Computing the through sequence number\<close>

definition maxSeqno :: "seqno list \<Rightarrow> seqno" where
  "maxSeqno l = (if length l > 0 then l ! (length l - 1) else 0)"

text \<open>\<open>None\<close> is an index out of range of \<open>gap_seqno_list_2\<close>.\<close>

definition isSeqnoGapSeqno :: "seqno list \<Rightarrow> seqno list \<Rightarrow> seqno \<Rightarrow> (bool \<times> seqno) option" where
  "isSeqnoGapSeqno l1 l2 s =
     (if length l1 = 0 then Some (False, 0)
      else
        let (index, is_start_gap_seqno) = SearchUint64List l1 s in
          if is_start_gap_seqno then
            (if index < length l2 then Some (True, l2 ! index) else None)
          else if index = 0 then Some (False, 0)
          else if index - 1 \<ge> length l2 then None
          else if l2 ! (index - 1) \<ge> s then Some (True, l2 ! (index - 1))
          else Some (False, 0))"

datatype seqno_type = SeqnoTypeSent | SeqnoTypeFiltered | SeqnoTypeFailedCR

record found_state =
  last_sent_index :: "nat option"
  last_filtered_index :: "nat option"
  last_failed_cr_index :: "nat option"
  found_seqno_type :: "seqno_type option"

definition nothing_found :: found_state where
  "nothing_found = \<lparr>last_sent_index = None, last_filtered_index = None,
     last_failed_cr_index = None, found_seqno_type = None\<rparr>"

record seqno_lists =
  sent_list :: "seqno list"
  filtered_list :: "seqno list"
  failed_cr_list :: "seqno list"
  gap_list_1 :: "seqno list"
  gap_list_2 :: "seqno list"

text \<open>
  One iteration after \<open>iter_seqno++\<close>: continue with a new cursor and record, or
  stop.  The outer option is the panic of \<open>isSeqnoGapSeqno\<close>.
\<close>

definition through_iter ::
  "seqno_lists \<Rightarrow> seqno \<Rightarrow> found_state \<Rightarrow> (seqno \<times> found_state) option option" where
  "through_iter ls iter_seqno fs =
     (if iter_seqno \<le> maxSeqno (sent_list ls) \<and> snd (SearchUint64List (sent_list ls) iter_seqno)
      then Some (Some (iter_seqno,
             fs\<lparr>last_sent_index := Some (fst (SearchUint64List (sent_list ls) iter_seqno)),
                found_seqno_type := Some SeqnoTypeSent\<rparr>))
      else if iter_seqno \<le> maxSeqno (filtered_list ls) \<and>
              snd (SearchUint64List (filtered_list ls) iter_seqno)
      then Some (Some (iter_seqno,
             fs\<lparr>last_filtered_index := Some (fst (SearchUint64List (filtered_list ls) iter_seqno)),
                found_seqno_type := Some SeqnoTypeFiltered\<rparr>))
      else if iter_seqno \<le> maxSeqno (failed_cr_list ls) \<and>
              snd (SearchUint64List (failed_cr_list ls) iter_seqno)
      then Some (Some (iter_seqno,
             fs\<lparr>last_failed_cr_index := Some (fst (SearchUint64List (failed_cr_list ls) iter_seqno)),
                found_seqno_type := Some SeqnoTypeFailedCR\<rparr>))
      else if iter_seqno \<le> maxSeqno (gap_list_2 ls) then
        (case isSeqnoGapSeqno (gap_list_1 ls) (gap_list_2 ls) iter_seqno of
           None \<Rightarrow> None
         | Some (gap_found, end_gap_seqno) \<Rightarrow>
             if gap_found then Some (Some (end_gap_seqno, fs)) else Some None)
      else Some None)"

partial_function (option) through_loop ::
  "seqno_lists \<Rightarrow> seqno \<Rightarrow> found_state \<Rightarrow> found_state option" where
  "through_loop ls iter_seqno fs =
     Option.bind (through_iter ls (iter_seqno + 1) fs)
       (\<lambda>r. case r of None \<Rightarrow> Some fs | Some (iter', fs') \<Rightarrow> through_loop ls iter' fs')"

definition nth_opt :: "'a list \<Rightarrow> nat option \<Rightarrow> 'a option" where
  "nth_opt xs i = (case i of None \<Rightarrow> None | Some k \<Rightarrow> if k < length xs then Some (xs ! k) else None)"

text \<open>
  The value read from the list found last (\<open>None\<close>: the list index is \<open>-1\<close> or out
  of range, or the type is unexpected, all of which panic); no entry found at
  all leaves \<open>last_through_seqno\<close>.
\<close>

definition through_result :: "seqno_lists \<Rightarrow> seqno \<Rightarrow> found_state \<Rightarrow> (seqno \<times> bool) option" where
  "through_result ls last_through_seqno fs =
     (if last_sent_index fs \<noteq> None \<or> last_filtered_index fs \<noteq> None \<or> last_failed_cr_index fs \<noteq> None
      then map_option (\<lambda>s. (s, True))
        (case found_seqno_type fs of
           Some SeqnoTypeSent \<Rightarrow> nth_opt (sent_list ls) (last_sent_index fs)
         | Some SeqnoTypeFiltered \<Rightarrow> nth_opt (filtered_list ls) (last_filtered_index fs)
         | Some SeqnoTypeFailedCR \<Rightarrow> nth_opt (failed_cr_list ls) (last_failed_cr_index fs)
         | None \<Rightarrow> None)
      else Some (last_through_seqno, False))"

definition compute_through :: "seqno_lists \<Rightarrow> seqno \<Rightarrow> (seqno \<times> bool) option" where
  "compute_through ls last_through_seqno = do {
     fs \<leftarrow> through_loop ls last_through_seqno nothing_found;
     through_result ls last_through_seqno fs }"

text \<open>
  The whole method without interference: the result, the service after it and
  the truncation it spawns.
\<close>

definition GetThroughSeqno ::
  "vbno \<Rightarrow> ThroughSeqnoTrackerSvc \<Rightarrow> (seqno \<times> ThroughSeqnoTrackerSvc \<times> seqno option) option" where
  "GetThroughSeqno v ts0 = (let ts = validateVbno v ts0 in do {
     last_through_seqno \<leftarrow> through_seqno_map ts v;
     sent0 \<leftarrow> vb_sent_seqno_list_map ts v;
     let (sent, sent') = getSortedSeqnoList True sent0;
     filtered0 \<leftarrow> vb_filtered_seqno_list_map ts v;
     let (filtered, _) = getSortedSeqnoList False filtered0;
     failed_cr0 \<leftarrow> vb_failed_cr_seqno_list_map ts v;
     let (failed_cr, _) = getSortedSeqnoList False failed_cr0;
     gap \<leftarrow> vb_gap_seqno_list_map ts v;
     (g1, g2) \<leftarrow> getSortedSeqnoLists gap;
     let ls = \<lparr>sent_list = sent, filtered_list = filtered, failed_cr_list = failed_cr,
               gap_list_1 = g1, gap_list_2 = g2\<rparr>;
     (through, found) \<leftarrow> compute_through ls last_through_seqno;
     let ts1 = ts\<lparr>vb_sent_seqno_list_map := (vb_sent_seqno_list_map ts)(v \<mapsto> sent')\<rparr>;
     Some (through,
       if found then ts1\<lparr>through_seqno_map := (through_seqno_map ts1)(v \<mapsto> through)\<rparr> else ts1,
       if found then Some through else None) })"

text \<open>
  \<open>getThroughSeqnos\<close> on one executor's share of the vbuckets, the truncations
  it spawns left aside, and the split of the list in shares of twenty.
\<close>

fun getThroughSeqnos_worker ::
  "vbno list \<Rightarrow> ThroughSeqnoTrackerSvc \<Rightarrow> ((vbno \<rightharpoonup> seqno) \<times> ThroughSeqnoTrackerSvc) option" where
  "getThroughSeqnos_worker [] ts = Some (Map.empty, ts)"
| "getThroughSeqnos_worker (v # vs) ts = do {
     (s, ts1, _) \<leftarrow> GetThroughSeqno v ts;
     (m, ts2) \<leftarrow> getThroughSeqnos_worker vs ts1;
     Some (if v \<in> set vs then m else m(v \<mapsto> s), ts2) }"

function vb_shares :: "nat \<Rightarrow> 'a list \<Rightarrow> 'a list list" where
  "vb_shares vb_per_worker l =
     (if vb_per_worker = 0 \<or> length l \<le> vb_per_worker then [l]
      else take vb_per_worker l # vb_shares vb_per_worker (drop vb_per_worker l))"
  by pat_completeness auto
termination by (relation "measure (\<lambda>(n, l). length l)") auto


section \<open>Correctness of the computation\<close>

definition covered :: "seqno_lists \<Rightarrow> seqno \<Rightarrow> bool" where
  "covered ls x \<longleftrightarrow> x \<in> set (sent_list ls) \<union> set (filtered_list ls) \<union> set (failed_cr_list ls)"

definition in_gap :: "(seqno \<times> seqno) list \<Rightarrow> seqno \<Rightarrow> bool" where
  "in_gap ps x \<longleftrightarrow> (\<exists>(a, b)\<in>set ps. a \<le> x \<and> x \<le> b)"

definition gaps :: "seqno_lists \<Rightarrow> (seqno \<times> seqno) list" where
  "gaps ls = zip (gap_list_1 ls) (gap_list_2 ls)"

text \<open>Ranges in increasing order, none empty, none overlapping.\<close>

definition gaps_ok :: "(seqno \<times> seqno) list \<Rightarrow> bool" where
  "gaps_ok ps \<longleftrightarrow> sorted_wrt (\<lambda>p q. snd p < fst q) ps \<and> (\<forall>(a, b)\<in>set ps. a \<le> b)"

definition lists_ok :: "seqno_lists \<Rightarrow> bool" where
  "lists_ok ls \<longleftrightarrow>
     sorted (sent_list ls) \<and> sorted (filtered_list ls) \<and> sorted (failed_cr_list ls) \<and>
     length (gap_list_1 ls) = length (gap_list_2 ls) \<and> gaps_ok (gaps ls) \<and>
     (\<forall>x. covered ls x \<longrightarrow> \<not> in_gap (gaps ls) x) \<and>
     \<not> covered ls 0 \<and> \<not> in_gap (gaps ls) 0"

lemma gaps_ok_Nil [simp]: "gaps_ok []" by (simp add: gaps_ok_def)

lemma in_gap_Nil [simp]: "\<not> in_gap [] x" by (simp add: in_gap_def)

lemma gaps_ok_Cons:
  "gaps_ok (p # ps) \<longleftrightarrow> fst p \<le> snd p \<and> (\<forall>q\<in>set ps. snd p < fst q) \<and> gaps_ok ps"
  by (auto simp: gaps_ok_def split_def)

lemma gaps_ok_range: "gaps_ok ps \<Longrightarrow> (a, b) \<in> set ps \<Longrightarrow> a \<le> b"
  by (auto simp: gaps_ok_def)

lemma gaps_ok_nth: "gaps_ok ps \<Longrightarrow> i < length ps \<Longrightarrow> fst (ps ! i) \<le> snd (ps ! i)"
  using gaps_ok_range[of ps "fst (ps ! i)" "snd (ps ! i)"] by simp

lemma gaps_ok_sorted:
  "gaps_ok ps \<Longrightarrow> sorted (map fst ps) \<and> sorted (map snd ps)"
proof (induction ps)
  case (Cons p ps)
  then have "\<forall>q\<in>set ps. fst p \<le> fst q \<and> snd p \<le> snd q"
    using gaps_ok_range by (fastforce simp: gaps_ok_Cons intro: less_imp_le order_trans)
  with Cons show ?case by (auto simp: gaps_ok_Cons)
qed simp

lemma maxSeqno_upper:
  assumes "sorted l" "x \<in> set l"
  shows "x \<le> maxSeqno l"
  using assms by (auto simp: in_set_conv_nth maxSeqno_def intro!: sorted_nth_mono)

lemma found_iff:
  assumes "sorted l"
  shows "x \<le> maxSeqno l \<and> snd (SearchUint64List l x) \<longleftrightarrow> x \<in> set l"
  using maxSeqno_upper[OF assms] by (auto simp: u64.search_sorted[OF assms])

lemma nth_found:
  assumes "sorted l" "x \<in> set l"
  shows "nth_opt l (Some (fst (SearchUint64List l x))) = Some x"
  using u64.search_found_nth[OF sorted_split_at[OF assms(1)] assms(2)] by (simp add: nth_opt_def)

text \<open>Searching the starts of the ranges finds the only range that can hold the number.\<close>

lemma filter_less_gap_index:
  assumes "gaps_ok ps" "i < length ps" "fst (ps ! i) \<le> x" "x \<le> snd (ps ! i)"
  shows "length (filter (\<lambda>a. a < x) (map fst ps)) = (if fst (ps ! i) = x then i else Suc i)"
  using assms
proof (induction ps arbitrary: i)
  case (Cons p ps)
  show ?case
  proof (cases i)
    case 0
    with Cons.prems have "filter (\<lambda>a. a < x) (map fst ps) = []"
      by (fastforce simp: gaps_ok_Cons filter_empty_conv)
    with 0 Cons.prems show ?thesis by auto
  next
    case (Suc j)
    with Cons.prems have a: "snd p < fst (ps ! j)" "fst p \<le> snd p" "fst (ps ! j) \<le> x"
      by (auto simp: gaps_ok_Cons)
    from a(2) a(1) have "fst p < fst (ps ! j)" by (rule le_less_trans)
    then have "fst p < x" using a(3) by (rule less_le_trans)
    with Suc Cons show ?thesis by (auto simp: gaps_ok_Cons)
  qed
qed simp

lemma in_gap_nth: "in_gap ps x \<longleftrightarrow> (\<exists>i<length ps. fst (ps ! i) \<le> x \<and> x \<le> snd (ps ! i))"
  unfolding in_gap_def by (force simp: in_set_conv_nth split_def)

lemma gap_search_pred:
  fixes ps :: "(seqno \<times> seqno) list"
  assumes "sorted (map fst ps)" "k < length (filter (\<lambda>a. a < x) (map fst ps))"
  shows "k < length ps \<and> fst (ps ! k) < x"
proof -
  let ?f = "filter (\<lambda>a. a < x) (map fst ps)"
  have eq: "?f = take (length ?f) (map fst ps)"
    using u64.take_search[OF sorted_split_at[OF assms(1)], of x]
    by (simp add: u64.search_sorted[OF assms(1)])
  have len: "length ?f \<le> length ps" by (metis length_filter_le length_map)
  have "?f ! k < x" using nth_mem[OF assms(2)] by auto
  moreover have "?f ! k = fst (ps ! k)"
  proof -
    have "?f ! k = take (length ?f) (map fst ps) ! k" using eq by (rule arg_cong)
    also have "\<dots> = map fst ps ! k" using assms(2) by (rule nth_take)
    also have "\<dots> = fst (ps ! k)" using assms(2) len by (intro nth_map) linarith
    finally show ?thesis .
  qed
  moreover have "k < length ps" using assms(2) len by (rule less_le_trans)
  ultimately show ?thesis by simp
qed

lemma isSeqnoGapSeqno_correct:
  assumes "gaps_ok ps"
  shows "\<exists>e. isSeqnoGapSeqno (map fst ps) (map snd ps) x = Some (in_gap ps x, e) \<and>
             (in_gap ps x \<longrightarrow> x \<le> e \<and> (\<forall>y. x \<le> y \<and> y \<le> e \<longrightarrow> in_gap ps y))"
proof (cases "in_gap ps x")
  case True
  then obtain i where i: "i < length ps" "fst (ps ! i) \<le> x" "x \<le> snd (ps ! i)"
    by (auto simp: in_gap_nth)
  have idx: "length (filter (\<lambda>a. a < x) (map fst ps)) = (if fst (ps ! i) = x then i else Suc i)"
    by (rule filter_less_gap_index[OF assms i])
  have mem: "x \<in> fst ` set ps \<longleftrightarrow> fst (ps ! i) = x"
  proof
    assume "x \<in> fst ` set ps"
    then obtain j where j: "j < length ps" "fst (ps ! j) = x"
      by (auto simp: in_set_conv_nth)
    have "x \<le> snd (ps ! j)"
      using gaps_ok_nth[OF assms j(1)] j(2) by simp
    then have "length (filter (\<lambda>a. a < x) (map fst ps)) = j"
      using filter_less_gap_index[OF assms j(1), of x] j(2) by simp
    moreover have "snd (ps ! i) < fst (ps ! Suc i)" if "Suc i < length ps"
      using assms that sorted_wrt_nth_less[of _ ps i "Suc i"] by (auto simp: gaps_ok_def)
    ultimately show "fst (ps ! i) = x"
      using idx i j by (auto split: if_splits)
  qed (use i in auto)
  have "isSeqnoGapSeqno (map fst ps) (map snd ps) x = Some (True, snd (ps ! i))"
    using i idx mem gaps_ok_sorted[OF assms]
    by (auto simp: isSeqnoGapSeqno_def u64.search_sorted Let_def)
  moreover have "\<forall>y. x \<le> y \<and> y \<le> snd (ps ! i) \<longrightarrow> in_gap ps y"
    using i by (auto simp: in_gap_nth intro: order_trans)
  ultimately show ?thesis using i True by auto
next
  case False
  let ?n = "length (filter (\<lambda>a. a < x) (map fst ps))"
  have srt: "sorted (map fst ps)" using gaps_ok_sorted[OF assms] by simp
  have "x \<notin> set (map fst ps)"
    using False gaps_ok_range[OF assms] by (force simp: in_gap_def)
  moreover have "snd (ps ! (?n - 1)) < x \<and> ?n - 1 < length ps" if "?n \<noteq> 0"
    using gap_search_pred[OF srt, of "?n - 1" x] that False
    by (simp add: in_gap_nth) (meson less_imp_le not_le)
  ultimately have "isSeqnoGapSeqno (map fst ps) (map snd ps) x = Some (False, 0)"
    by (auto simp: isSeqnoGapSeqno_def u64.search_sorted[OF srt] not_le)
  with False show ?thesis by simp
qed


subsection \<open>One iteration and the loop\<close>

lemma lists_ok_gap_lists:
  "lists_ok ls \<Longrightarrow> gap_list_1 ls = map fst (gaps ls) \<and> gap_list_2 ls = map snd (gaps ls)"
  by (simp add: lists_ok_def gaps_def)

lemma through_iter_covered:
  assumes "lists_ok ls" "covered ls x"
  shows "\<exists>fs'. through_iter ls x fs = Some (Some (x, fs')) \<and>
               (\<forall>l. through_result ls l fs' = Some (x, True))"
proof -
  have srt: "sorted (sent_list ls)" "sorted (filtered_list ls)" "sorted (failed_cr_list ls)"
    using assms(1) by (simp_all add: lists_ok_def)
  consider "x \<in> set (sent_list ls)"
    | "x \<notin> set (sent_list ls)" "x \<in> set (filtered_list ls)"
    | "x \<notin> set (sent_list ls)" "x \<notin> set (filtered_list ls)" "x \<in> set (failed_cr_list ls)"
    using assms(2) by (auto simp: covered_def)
  then show ?thesis
    by cases (simp_all add: through_iter_def found_iff srt through_result_def nth_found)
qed

lemma through_iter_not_covered:
  assumes "lists_ok ls" "\<not> covered ls x"
  shows "through_iter ls x fs =
     (if x \<le> maxSeqno (gap_list_2 ls) then
        (case isSeqnoGapSeqno (gap_list_1 ls) (gap_list_2 ls) x of
           None \<Rightarrow> None
         | Some (g, e) \<Rightarrow> if g then Some (Some (e, fs)) else Some None)
      else Some None)"
  using assms by (simp add: through_iter_def found_iff lists_ok_def covered_def)

lemma in_gap_maxSeqno:
  assumes "lists_ok ls" "in_gap (gaps ls) x"
  shows "x \<le> maxSeqno (gap_list_2 ls)"
proof -
  obtain a b where ab: "(a, b) \<in> set (gaps ls)" "x \<le> b" using assms(2) by (auto simp: in_gap_def)
  have "b \<le> maxSeqno (gap_list_2 ls)"
    using ab(1) lists_ok_gap_lists[OF assms(1)] gaps_ok_sorted[of "gaps ls"] assms(1)
    by (intro maxSeqno_upper) (force simp: lists_ok_def)+
  with ab show ?thesis by simp
qed

lemma through_iter_gap:
  assumes "lists_ok ls" "in_gap (gaps ls) x"
  shows "\<exists>e. through_iter ls x fs = Some (Some (e, fs)) \<and> x \<le> e \<and>
             (\<forall>y. x \<le> y \<and> y \<le> e \<longrightarrow> in_gap (gaps ls) y)"
proof -
  have ok: "gaps_ok (gaps ls)" and nc: "\<not> covered ls x"
    using assms by (auto simp: lists_ok_def)
  show ?thesis
    using isSeqnoGapSeqno_correct[OF ok, of x] assms(2)
    by (auto simp: through_iter_not_covered[OF assms(1) nc] in_gap_maxSeqno[OF assms]
        simp flip: lists_ok_gap_lists[OF assms(1), THEN conjunct1]
          lists_ok_gap_lists[OF assms(1), THEN conjunct2])
qed

lemma through_iter_stop:
  assumes "lists_ok ls" "\<not> covered ls x" "\<not> in_gap (gaps ls) x"
  shows "through_iter ls x fs = Some None"
proof -
  have ok: "gaps_ok (gaps ls)" using assms by (auto simp: lists_ok_def)
  show ?thesis
    using isSeqnoGapSeqno_correct[OF ok, of x] assms(3)
    by (auto simp: through_iter_not_covered[OF assms(1,2)]
        simp flip: lists_ok_gap_lists[OF assms(1), THEN conjunct1]
          lists_ok_gap_lists[OF assms(1), THEN conjunct2])
qed

text \<open>
  The loop state \<open>fs\<close> at cursor \<open>i\<close> stands for \<open>r\<close>: everything between \<open>l\<close> and
  the cursor is accounted for and \<open>r\<close> is the last number found in a list.
\<close>

definition loop_inv :: "seqno_lists \<Rightarrow> seqno \<Rightarrow> seqno \<Rightarrow> found_state \<Rightarrow> seqno \<Rightarrow> bool" where
  "loop_inv ls l i fs r \<longleftrightarrow>
     l \<le> r \<and> r \<le> i \<and>
     (\<forall>x. l < x \<and> x \<le> i \<longrightarrow> covered ls x \<or> in_gap (gaps ls) x) \<and>
     (\<forall>x. r < x \<and> x \<le> i \<longrightarrow> in_gap (gaps ls) x) \<and>
     (fs = nothing_found \<and> r = l \<or> through_result ls l fs = Some (r, True) \<and> covered ls r \<and> l < r)"

lemma through_loop_unfold:
  "through_loop ls i fs = (case through_iter ls (i + 1) fs of None \<Rightarrow> None
     | Some None \<Rightarrow> Some fs | Some (Some (i', fs')) \<Rightarrow> through_loop ls i' fs')"
  by (subst through_loop.simps) (auto split: option.splits)

lemma loop_inv_covered:
  assumes "loop_inv ls l i fs r" "covered ls (i + 1)" "i \<noteq> - 1"
    "\<forall>m. through_result ls m fs' = Some (i + 1, True)"
  shows "loop_inv ls l (i + 1) fs' (i + 1)"
proof -
  have i: "i < i + 1" using assms(3) by (rule word_less_inc_self)
  moreover have "l \<le> i" using assms(1) by (auto simp: loop_inv_def)
  ultimately have "l < i + 1" by simp
  moreover have "x \<le> i" if "x \<le> i + 1" "x \<noteq> i + 1" for x
    using that by (simp add: less_inc_imp_less_eq)
  ultimately show ?thesis using assms(1,2,4) unfolding loop_inv_def
    by (metis leD less_imp_le order_refl)
qed

lemma loop_inv_gap:
  assumes "loop_inv ls l i fs r" "i \<noteq> - 1" "i + 1 \<le> e"
    "\<forall>y. i + 1 \<le> y \<and> y \<le> e \<longrightarrow> in_gap (gaps ls) y"
  shows "loop_inv ls l e fs r"
proof -
  have "i < e" using word_less_inc_self[OF assms(2)] assms(3) by simp
  moreover have "x \<le> i \<or> i + 1 \<le> x" for x using inc_le[of i x] by fastforce
  ultimately show ?thesis using assms(1,4) unfolding loop_inv_def
    by (meson less_imp_le order_trans)
qed

theorem through_loop_correct:
  assumes "lists_ok ls" "loop_inv ls l i fs r"
  shows "\<exists>fs' i' r'. through_loop ls i fs = Some fs' \<and> loop_inv ls l i' fs' r' \<and>
           (i' = - 1 \<or> \<not> covered ls (i' + 1) \<and> \<not> in_gap (gaps ls) (i' + 1))"
  using assms(2)
proof (induction "unat (- 1 - i)" arbitrary: i fs r rule: less_induct)
  case less
  have dec: "unat (- 1 - j) < unat (- 1 - i)" if "i < j" for j
  proof -
    have "unat j \<le> unat (- 1 :: seqno)" by (simp flip: word_le_nat_alt)
    with that show ?thesis by (simp add: unat_sub word_less_nat_alt word_order.extremum)
  qed
  show ?case
  proof (cases "i = - 1")
    case True
    then have "through_iter ls (i + 1) fs = Some None"
      using assms(1) by (intro through_iter_stop) (auto simp: lists_ok_def)
    then have "through_loop ls i fs = Some fs" by (simp add: through_loop_unfold[of ls i])
    with True less.prems show ?thesis by blast
  next
    case False
    then have i: "i < i + 1" by (rule word_less_inc_self)
    consider "covered ls (i + 1)" | "in_gap (gaps ls) (i + 1)"
      | "\<not> covered ls (i + 1)" "\<not> in_gap (gaps ls) (i + 1)" by blast
    then show ?thesis
    proof cases
      case 1
      then obtain fs1 where fs1: "through_iter ls (i + 1) fs = Some (Some (i + 1, fs1))"
        "\<forall>m. through_result ls m fs1 = Some (i + 1, True)"
        using through_iter_covered[OF assms(1)] by blast
      with less.hyps[OF dec[OF i] loop_inv_covered[OF less.prems 1 False fs1(2)]]
      show ?thesis by (simp add: through_loop_unfold[of ls i])
    next
      case 2
      then obtain e where e: "through_iter ls (i + 1) fs = Some (Some (e, fs))" "i + 1 \<le> e"
        "\<forall>y. i + 1 \<le> y \<and> y \<le> e \<longrightarrow> in_gap (gaps ls) y"
        using through_iter_gap[OF assms(1)] by blast
      have "i < e" using i e(2) by simp
      with less.hyps[OF dec loop_inv_gap[OF less.prems False e(2,3)]] e(1)
      show ?thesis by (simp add: through_loop_unfold[of ls i])
    next
      case 3
      then have "through_loop ls i fs = Some fs"
        using through_iter_stop[OF assms(1)] by (simp add: through_loop_unfold[of ls i])
      with 3 less.prems show ?thesis by blast
    qed
  qed
qed


text \<open>
  What one computation returns: a number no smaller than the previous one, up
  to which everything is accounted for, taken from one of the lists, and such
  that a number missing from lists and gaps separates it from every later entry.
\<close>

definition is_through :: "seqno_lists \<Rightarrow> seqno \<Rightarrow> seqno \<Rightarrow> bool \<Rightarrow> bool" where
  "is_through ls l r found \<longleftrightarrow>
     l \<le> r \<and> (if found then covered ls r \<and> l < r else r = l) \<and>
     (\<forall>x. l < x \<and> x \<le> r \<longrightarrow> covered ls x \<or> in_gap (gaps ls) x) \<and>
     (\<forall>y. r < y \<and> covered ls y \<longrightarrow>
        (\<exists>x. r < x \<and> x < y \<and> \<not> covered ls x \<and> \<not> in_gap (gaps ls) x))"

lemma through_result_nothing: "through_result ls l nothing_found = Some (l, False)"
  by (simp add: through_result_def nothing_found_def)

lemma compute_through_correct:
  assumes "lists_ok ls"
  shows "\<exists>r found. compute_through ls l = Some (r, found) \<and> is_through ls l r found"
proof -
  have "loop_inv ls l l nothing_found l" by (auto simp: loop_inv_def)
  from through_loop_correct[OF assms this]
  obtain fs i r where fs: "through_loop ls l nothing_found = Some fs" and inv: "loop_inv ls l i fs r"
    and stop: "i = - 1 \<or> \<not> covered ls (i + 1) \<and> \<not> in_gap (gaps ls) (i + 1)" by blast
  have sep: "\<exists>x. r < x \<and> x < y \<and> \<not> covered ls x \<and> \<not> in_gap (gaps ls) x"
    if y: "r < y" "covered ls y" for y
  proof -
    have "\<not> y \<le> i" using y inv assms by (auto simp: loop_inv_def lists_ok_def)
    then have "i < y" by simp
    then have "i \<noteq> - 1" by (rule word_less_imp_not_max)
    with stop have st: "\<not> covered ls (i + 1)" "\<not> in_gap (gaps ls) (i + 1)" by auto
    have "r < i + 1" using inv word_less_inc_self[OF \<open>i \<noteq> - 1\<close>] by (auto simp: loop_inv_def)
    moreover have "i + 1 < y" using inc_le[OF \<open>i < y\<close>] y(2) st(1) by (metis order_less_le)
    ultimately show ?thesis using st by blast
  qed
  define found where "found \<longleftrightarrow> fs \<noteq> nothing_found"
  have "through_result ls l fs = Some (r, found) \<and> (if found then covered ls r \<and> l < r else r = l)"
    using inv by (auto simp: loop_inv_def found_def through_result_nothing)
  then show ?thesis
    using inv sep fs by (auto simp: compute_through_def is_through_def loop_inv_def)
qed


section \<open>One vbucket's share of the service\<close>

record vb_view =
  v_through :: seqno
  v_seen :: seqno
  v_sent :: "seqno list"
  v_filtered :: "seqno list"
  v_failed :: "seqno list"
  v_gap :: DualSortedSeqnoList

definition view :: "vbno \<Rightarrow> ThroughSeqnoTrackerSvc \<Rightarrow> vb_view option" where
  "view v ts = do {
     _ \<leftarrow> vb_map ts v;
     t \<leftarrow> through_seqno_map ts v;
     n \<leftarrow> vb_last_seen_seqno_map ts v;
     s \<leftarrow> vb_sent_seqno_list_map ts v;
     f \<leftarrow> vb_filtered_seqno_list_map ts v;
     c \<leftarrow> vb_failed_cr_seqno_list_map ts v;
     g \<leftarrow> vb_gap_seqno_list_map ts v;
     Some \<lparr>v_through = t, v_seen = n, v_sent = s, v_filtered = f, v_failed = c, v_gap = g\<rparr> }"

lemma view_Some_iff:
  "view v ts = Some w \<longleftrightarrow>
     vb_map ts v \<noteq> None \<and> through_seqno_map ts v = Some (v_through w) \<and>
     vb_last_seen_seqno_map ts v = Some (v_seen w) \<and>
     vb_sent_seqno_list_map ts v = Some (v_sent w) \<and>
     vb_filtered_seqno_list_map ts v = Some (v_filtered w) \<and>
     vb_failed_cr_seqno_list_map ts v = Some (v_failed w) \<and>
     vb_gap_seqno_list_map ts v = Some (v_gap w)"
  by (cases w) (auto simp: view_def bind_eq_Some_conv)

lemma validateVbno_known: "view v ts = Some w \<Longrightarrow> validateVbno v ts = ts"
  by (auto simp: view_Some_iff validateVbno_def)

text \<open>Each operation acts on the view of its vbucket and does not panic there.\<close>

lemma addSentSeqno_view:
  "view v ts = Some w \<Longrightarrow>
     \<exists>ts'. addSentSeqno v s ts = Some ts' \<and> view v ts' = Some (w\<lparr>v_sent := v_sent w @ [s]\<rparr>)"
  by (auto simp: addSentSeqno_def validateVbno_known view_Some_iff appendSeqno_def)

lemma addFilteredSeqno_view:
  "view v ts = Some w \<Longrightarrow>
     \<exists>ts'. addFilteredSeqno v s ts = Some ts' \<and> view v ts' = Some (w\<lparr>v_filtered := v_filtered w @ [s]\<rparr>)"
  by (auto simp: addFilteredSeqno_def validateVbno_known view_Some_iff appendSeqno_def)

lemma addFailedCRSeqno_view:
  "view v ts = Some w \<Longrightarrow>
     \<exists>ts'. addFailedCRSeqno v s ts = Some ts' \<and> view v ts' = Some (w\<lparr>v_failed := v_failed w @ [s]\<rparr>)"
  by (auto simp: addFailedCRSeqno_def validateVbno_known view_Some_iff appendSeqno_def)

definition gap_step :: "seqno \<Rightarrow> vb_view \<Rightarrow> vb_view" where
  "gap_step s w =
     (let last = (if v_seen w = 0 then v_through w else v_seen w) in
        if last < s - 1 then w\<lparr>v_seen := s, v_gap := appendSeqnos (last + 1) (s - 1) (v_gap w)\<rparr>
        else w\<lparr>v_seen := s\<rparr>)"

lemma processGapSeqnos_view:
  "view v ts = Some w \<Longrightarrow>
     \<exists>ts'. processGapSeqnos v s ts = Some ts' \<and> view v ts' = Some (gap_step s w)"
  by (auto simp: processGapSeqnos_def validateVbno_known view_Some_iff gap_step_def Let_def)

lemma truncate_stage_view:
  assumes "view v ts = Some w"
  shows "truncate_stage TruncSent v t ts \<noteq> None \<and>
      view v (the (truncate_stage TruncSent v t ts)) = Some (w\<lparr>v_sent := truncateSeqnos t (v_sent w)\<rparr>)"
    "truncate_stage TruncFiltered v t ts \<noteq> None \<and>
      view v (the (truncate_stage TruncFiltered v t ts)) = Some (w\<lparr>v_filtered := truncateSeqnos t (v_filtered w)\<rparr>)"
    "truncate_stage TruncFailedCR v t ts \<noteq> None \<and>
      view v (the (truncate_stage TruncFailedCR v t ts)) = Some (w\<lparr>v_failed := truncateSeqnos t (v_failed w)\<rparr>)"
    "truncateDualSeqnos t (v_gap w) = Some d \<Longrightarrow> truncate_stage TruncGap v t ts \<noteq> None \<and>
      view v (the (truncate_stage TruncGap v t ts)) = Some (w\<lparr>v_gap := d\<rparr>)"
  using assms by (auto simp: view_Some_iff)

end
