(* ===== verification/Checkpoint_Manager.thy ===== *)
theory Checkpoint_Manager
  imports Checkpoint_Service Through_Seqno
begin

text \<open>
  The checkpoint manager of a pipeline, \<open>pipeline_svc/checkpoint_manager.go\<close>: the
  choice of the timestamps the DCP streams start from, the rollback of a
  timestamp, the events that feed the failover logs and the snapshot history,
  and the checkpoint operations.

  The services the manager calls are records of operations: the checkpoints
  service (\<open>CheckpointsService\<close>, provided by \<open>Checkpoint_Service\<close>), the calls to the
  target (\<open>CAPIService\<close>), and the vbucket statistics of the target's data nodes.
  The outer \<open>option\<close> of a result is \<open>None\<close> where the code panics.
\<close>


section \<open>State\<close>

record checkpointRecordWithLock =
  ckpt :: "CheckpointRecord option"
  versionNum :: uint64

record snapshot =
  start_seqno :: uint64
  end_seqno :: uint64

record VBTimestamp =
  Vbno :: vbno
  Vbuuid :: uint64
  ts_Seqno :: uint64
  SnapshotStart :: uint64
  SnapshotEnd :: uint64

text \<open>
  The failover log is a list of pairs of a vbucket uuid and the seqno it starts
  at, newest first.
\<close>

type_synonym FailoverLog = "(uint64 \<times> uint64) list"

datatype ckmgr_event =
    ErrorEncountered goerror
  | VBErrorEncountered vbno goerror
  | CheckpointDoneForVB CheckpointRecord vbno
  | CheckpointDone
  | SettingsUpdated vbno VBTimestamp

text \<open>
  \<open>start_ts\<close> is the map of start timestamps in the settings of the pipeline,
  \<open>ck_store\<close> the state of the metadata store behind the checkpoints service and
  \<open>ck_raised\<close> the events the manager raised.
\<close>

record 's CheckpointManager =
  cur_ckpts :: "vbno \<rightharpoonup> checkpointRecordWithLock"
  failoverlog_map :: "vbno \<rightharpoonup> FailoverLog option"
  snapshot_history_map :: "vbno \<rightharpoonup> snapshot list"
  ck_tracker :: ThroughSeqnoTrackerSvc
  start_ts :: "vbno \<rightharpoonup> VBTimestamp"
  ck_store :: 's
  ck_raised :: "ckmgr_event list"

record 's CheckpointsService =
  cs_CheckpointsDoc :: "string \<Rightarrow> vbno \<Rightarrow> 's \<Rightarrow> (goerror + CheckpointsDoc) option \<times> 's"
  cs_CheckpointsDocs :: "string \<Rightarrow> 's \<Rightarrow> (goerror + (vbno \<rightharpoonup> CheckpointsDoc)) option \<times> 's"
  cs_DelCheckpointsDoc :: "string \<Rightarrow> vbno \<Rightarrow> 's \<Rightarrow> goerror option \<times> 's"
  cs_UpsertCheckpoints :: "string \<Rightarrow> string \<Rightarrow> vbno \<Rightarrow> CheckpointRecord option \<Rightarrow> uint64 \<Rightarrow> int \<Rightarrow> 's \<Rightarrow>
     goerror option option \<times> 's"

text \<open>The calls to the target's REST interface; a mismatch of a commit is \<open>VB_OPAQUE_MISMATCH_ERR\<close>.\<close>

record CAPIService =
  capi_PreReplicate :: "vbno \<Rightarrow> TargetVBOpaque option \<Rightarrow> uint64 \<Rightarrow> bool \<Rightarrow> goerror + bool \<times> TargetVBOpaque option"
  capi_CommitForCheckpoint :: "TargetVBOpaque \<Rightarrow> vbno \<Rightarrow> goerror + uint64"

text \<open>The fields that do not change after the manager has been attached to its pipeline.\<close>

record ckmgr_config =
  Topic :: string
  InternalId :: string
  active_vbs :: "(string \<times> vbno list) list"
  target_kv_vb_map :: "(string \<times> vbno list) list"
  target_cluster_version :: int
  isTargetES :: bool
  support_ckpt :: bool
  MaxCheckpointRecordsToRead :: nat
  MaxLengthSnapshotHistory :: nat

definition ckptRecordMismatch :: goerror where
  "ckptRecordMismatch = Sentinel ''Checkpoint Records internal version mismatch''"

definition targetVbuuidChangedError :: goerror where
  "targetVbuuidChangedError = Sentinel ''target vbuuid has changed''"

definition NoSupportForXDCRCheckpointingError :: goerror where
  "NoSupportForXDCRCheckpointingError = Sentinel ''No xdcrcheckpointing support on older node''"

definition VB_OPAQUE_MISMATCH_ERR :: goerror where
  "VB_OPAQUE_MISMATCH_ERR = Sentinel ''The remote vb opaque does not match with the one provided''"

definition raise_event :: "ckmgr_event \<Rightarrow> 's CheckpointManager \<Rightarrow> 's CheckpointManager" where
  "raise_event e m = m\<lparr>ck_raised := ck_raised m @ [e]\<rparr>"

definition ckmgr_handleGeneralError :: "goerror \<Rightarrow> 's CheckpointManager \<Rightarrow> 's CheckpointManager" where
  "ckmgr_handleGeneralError err = raise_event (ErrorEncountered err)"

definition ckmgr_handleVBError :: "vbno \<Rightarrow> goerror \<Rightarrow> 's CheckpointManager \<Rightarrow> 's CheckpointManager" where
  "ckmgr_handleVBError vb err = raise_event (VBErrorEncountered vb err)"

definition getMyVBs :: "ckmgr_config \<Rightarrow> vbno list" where
  "getMyVBs cfg = concat (map snd (active_vbs cfg))"

text \<open>The loop of \<open>initialize\<close> over the vbuckets of the manager.\<close>

definition ckmgr_initialize :: "ckmgr_config \<Rightarrow> 's CheckpointManager \<Rightarrow> 's CheckpointManager" where
  "ckmgr_initialize cfg m = fold (\<lambda>vb m. m
     \<lparr>cur_ckpts := (cur_ckpts m)(vb \<mapsto> \<lparr>ckpt = Some empty_record, versionNum = 0\<rparr>),
      failoverlog_map := (failoverlog_map m)(vb \<mapsto> None),
      snapshot_history_map := (snapshot_history_map m)(vb \<mapsto> [])\<rparr>) (getMyVBs cfg) m"

definition checkCkptCapability :: "string list \<Rightarrow> bool" where
  "checkCkptCapability bk_capabilities = (\<exists>c\<in>set bk_capabilities. c = ''xdcrCheckpointing'')"

definition updateCurrentVBOpaque ::
  "vbno \<Rightarrow> TargetVBOpaque option \<Rightarrow> 's CheckpointManager \<Rightarrow> (goerror option \<times> 's CheckpointManager) option" where
  "updateCurrentVBOpaque vb vbOpaque m =
     (case cur_ckpts m vb of
        Some obj \<Rightarrow>
          (case ckpt obj of
             None \<Rightarrow> None
           | Some r \<Rightarrow> Some (None,
               m\<lparr>cur_ckpts := (cur_ckpts m)(vb \<mapsto> obj\<lparr>ckpt := Some (r\<lparr>Target_vb_opaque := vbOpaque\<rparr>)\<rparr>)\<rparr>))
      | None \<Rightarrow>
          (let err = Formatted ''Trying to update vbopaque on a vb which is not in MyVBList''
           in Some (Some err, ckmgr_handleGeneralError err m)))"


section \<open>Start timestamps\<close>

definition ckptRecordsWLock ::
  "ckmgr_config \<Rightarrow> CheckpointsDoc option \<Rightarrow> vbno \<Rightarrow> 's CheckpointManager \<Rightarrow> checkpointRecordWithLock option list" where
  "ckptRecordsWLock cfg ckptDoc vb m =
     (case ckptDoc of
        Some doc \<Rightarrow> map (\<lambda>r. Some \<lparr>ckpt = r, versionNum = 0\<rparr>) (GetCheckpointRecords (MaxCheckpointRecordsToRead cfg) doc)
      | None \<Rightarrow> [cur_ckpts m vb])"

text \<open>
  The loop of \<open>getVBTimestampForVB\<close> from a given index on: an error, or the value
  of \<open>agreedIndex\<close> with which the code goes to \<open>POPULATE\<close> (\<open>None\<close> is -1).
\<close>

fun ckpt_scan ::
  "ckmgr_config \<Rightarrow> CAPIService \<Rightarrow> vbno \<Rightarrow> bool \<Rightarrow> uint64 \<Rightarrow> nat \<Rightarrow> checkpointRecordWithLock option list \<Rightarrow>
     's CheckpointManager \<Rightarrow> ((goerror + nat option) \<times> 's CheckpointManager) option" where
  "ckpt_scan cfg capi vb hasDoc max_seqno index [] m = Some (Inr None, m)"
| "ckpt_scan cfg capi vb hasDoc max_seqno index (None # rs) m = None"
| "ckpt_scan cfg capi vb hasDoc max_seqno index (Some ckptRecord # rs) m =
     (case ckpt ckptRecord of
        None \<Rightarrow> ckpt_scan cfg capi vb hasDoc max_seqno (Suc index) rs m
      | Some ckpt_record \<Rightarrow>
          if Seqno ckpt_record \<le> max_seqno then
            (case capi_PreReplicate capi vb (Target_vb_opaque ckpt_record) (Target_Seqno ckpt_record) (support_ckpt cfg) of
               Inl err \<Rightarrow>
                 if err = NoSupportForXDCRCheckpointingError
                 then map_option (\<lambda>(_, m'). (Inr None, m')) (updateCurrentVBOpaque vb None m)
                 else Some (Inl err, m)
             | Inr (bMatch, current_remoteVBOpaque) \<Rightarrow>
                 (case updateCurrentVBOpaque vb current_remoteVBOpaque m of
                    None \<Rightarrow> None
                  | Some (_, m') \<Rightarrow>
                      if bMatch then Some (Inr (if hasDoc then Some index else None), m')
                      else ckpt_scan cfg capi vb hasDoc max_seqno (Suc index) rs m'))
          else ckpt_scan cfg capi vb hasDoc max_seqno (Suc index) rs m)"

definition zero_ts :: "vbno \<Rightarrow> VBTimestamp" where
  "zero_ts vb = \<lparr>Vbno = vb, Vbuuid = 0, ts_Seqno = 0, SnapshotStart = 0, SnapshotEnd = 0\<rparr>"

definition ts_of_record :: "vbno \<Rightarrow> CheckpointRecord \<Rightarrow> VBTimestamp" where
  "ts_of_record vb r =
     (let vbts = \<lparr>Vbno = vb, Vbuuid = Failover_uuid r, ts_Seqno = Seqno r,
                  SnapshotStart = Dcp_snapshot_seqno r, SnapshotEnd = Dcp_snapshot_end_seqno r\<rparr>;
          vbts1 = (if SnapshotStart vbts > ts_Seqno vbts then vbts\<lparr>SnapshotStart := ts_Seqno vbts\<rparr> else vbts)
      in if ts_Seqno vbts1 > SnapshotEnd vbts1 then vbts1\<lparr>SnapshotEnd := ts_Seqno vbts1\<rparr> else vbts1)"

definition populateVBTimestamp ::
  "ckmgr_config \<Rightarrow> CheckpointsDoc option \<Rightarrow> nat option \<Rightarrow> vbno \<Rightarrow> 's CheckpointManager \<Rightarrow>
     ((goerror + VBTimestamp) \<times> 's CheckpointManager) option" where
  "populateVBTimestamp cfg ckptDoc agreedIndex vb m =
     (let vbts = (case agreedIndex of
          None \<Rightarrow> Some (zero_ts vb)
        | Some i \<Rightarrow>
            (case ckptDoc of
               None \<Rightarrow> None
             | Some doc \<Rightarrow>
                 (let ckpt_records = GetCheckpointRecords (MaxCheckpointRecordsToRead cfg) doc in
                  if length ckpt_records < i + 1 then Some (zero_ts vb)
                  else map_option (ts_of_record vb) (ckpt_records ! i))))
      in case vbts of
           None \<Rightarrow> None
         | Some vbts \<Rightarrow>
             (case cur_ckpts m vb of
                None \<Rightarrow>
                  (let err = Formatted ''Calling populateVBTimestamp on a vb which is not in MyVBList''
                   in Some (Inl err, ckmgr_handleGeneralError err m))
              | Some obj \<Rightarrow>
                  if agreedIndex = None then Some (Inr vbts, m)
                  else (case ckpt obj of
                          None \<Rightarrow> None
                        | Some r \<Rightarrow>
                            (let r' = r\<lparr>Failover_uuid := Vbuuid vbts, Dcp_snapshot_seqno := SnapshotStart vbts,
                                        Dcp_snapshot_end_seqno := SnapshotEnd vbts, Seqno := ts_Seqno vbts\<rparr>
                             in Some (Inr vbts, m\<lparr>cur_ckpts := (cur_ckpts m)(vb \<mapsto> obj\<lparr>ckpt := Some r'\<rparr>)\<rparr>)))))"

definition getVBTimestampForVB ::
  "ckmgr_config \<Rightarrow> CAPIService \<Rightarrow> vbno \<Rightarrow> CheckpointsDoc option \<Rightarrow> uint64 \<Rightarrow> 's CheckpointManager \<Rightarrow>
     ((goerror + VBTimestamp) \<times> 's CheckpointManager) option" where
  "getVBTimestampForVB cfg capi vb ckptDoc max_seqno m =
     (case ckpt_scan cfg capi vb (ckptDoc \<noteq> None) max_seqno 0 (ckptRecordsWLock cfg ckptDoc vb m) m of
        None \<Rightarrow> None
      | Some (Inl err, m') \<Rightarrow> Some (Inl err, m')
      | Some (Inr agreedIndex, m') \<Rightarrow> populateVBTimestamp cfg ckptDoc agreedIndex vb m')"

definition setTimestampForVB ::
  "vbno \<Rightarrow> VBTimestamp \<Rightarrow> 's CheckpointManager \<Rightarrow> 's CheckpointManager option" where
  "setTimestampForVB vb ts m =
     map_option (\<lambda>tr. raise_event (SettingsUpdated vb ts) (m\<lparr>ck_tracker := tr, start_ts := (start_ts m)(vb \<mapsto> ts)\<rparr>))
       (SetStartSeqno vb (ts_Seqno ts) (ck_tracker m))"

text \<open>One getter: it stops at the first vbucket that fails and reports it.\<close>

fun startSeqnoGetter ::
  "ckmgr_config \<Rightarrow> CAPIService \<Rightarrow> (vbno \<rightharpoonup> CheckpointsDoc) \<Rightarrow> vbno list \<Rightarrow> 's CheckpointManager \<Rightarrow>
     ((vbno \<times> goerror) option \<times> 's CheckpointManager) option" where
  "startSeqnoGetter cfg capi ckptDocs [] m = Some (None, m)"
| "startSeqnoGetter cfg capi ckptDocs (vb # vbs) m =
     (case getVBTimestampForVB cfg capi vb (ckptDocs vb) (- 1) m of
        None \<Rightarrow> None
      | Some (Inl err, m') \<Rightarrow> Some (Some (vb, err), m')
      | Some (Inr vbts, m') \<Rightarrow>
          (case setTimestampForVB vb vbts m' of
             None \<Rightarrow> None
           | Some m'' \<Rightarrow> startSeqnoGetter cfg capi ckptDocs vbs m''))"

text \<open>
  The getters work on disjoint shares of the vbuckets; they are run here one
  after the other, and the errors they left in \<open>err_ch\<close> are handled at the end.
\<close>

fun run_getters ::
  "ckmgr_config \<Rightarrow> CAPIService \<Rightarrow> (vbno \<rightharpoonup> CheckpointsDoc) \<Rightarrow> vbno list list \<Rightarrow> 's CheckpointManager \<Rightarrow>
     ((vbno \<times> goerror) list \<times> 's CheckpointManager) option" where
  "run_getters cfg capi ckptDocs [] m = Some ([], m)"
| "run_getters cfg capi ckptDocs (share # shares) m =
     (case startSeqnoGetter cfg capi ckptDocs share m of
        None \<Rightarrow> None
      | Some (e, m') \<Rightarrow>
          map_option (\<lambda>(es, m''). ((case e of None \<Rightarrow> [] | Some x \<Rightarrow> [x]) @ es, m''))
            (run_getters cfg capi ckptDocs shares m'))"

text \<open>
  The first loop of \<open>SetVBTimestamps\<close> over the documents in the order the Go map
  yields them: the vbuckets whose documents were deleted, or the error that ends
  the call.
\<close>

definition VersionForRBACAndXattrSupport :: "int list" where
  "VersionForRBACAndXattrSupport = [5, 0]"

datatype doc_fate = KeepDoc | DropDoc | DropDocOrFail

definition doc_check :: "ckmgr_config \<Rightarrow> vbno list \<Rightarrow> vbno \<Rightarrow> CheckpointsDoc \<Rightarrow> doc_fate" where
  "doc_check cfg listOfVbs vb ckptDoc =
     (if \<not> IsVbInList vb listOfVbs then DropDoc
      else if IsClusterCompatible (target_cluster_version cfg) VersionForRBACAndXattrSupport then
        (if \<not> IsClusterCompatible (TargetClusterVersion ckptDoc) VersionForRBACAndXattrSupport \<and> XattrSeqno ckptDoc > 0
         then DropDocOrFail else KeepDoc)
      else if SpecInternalId ckptDoc \<noteq> InternalId cfg then DropDocOrFail else KeepDoc)"

fun filter_docs ::
  "ckmgr_config \<Rightarrow> 's CheckpointsService \<Rightarrow> string \<Rightarrow> vbno list \<Rightarrow> (vbno \<times> CheckpointsDoc) list \<Rightarrow> 's \<Rightarrow>
     (goerror + vbno list) \<times> 's" where
  "filter_docs cfg svc topic listOfVbs [] s = (Inr [], s)"
| "filter_docs cfg svc topic listOfVbs ((vb, ckptDoc) # docs) s =
     (case doc_check cfg listOfVbs vb ckptDoc of
        KeepDoc \<Rightarrow> filter_docs cfg svc topic listOfVbs docs s
      | DropDoc \<Rightarrow>
          (case cs_DelCheckpointsDoc svc topic vb s of
             (_, s') \<Rightarrow> map_prod (map_sum id (Cons vb)) id (filter_docs cfg svc topic listOfVbs docs s'))
      | DropDocOrFail \<Rightarrow>
          (case cs_DelCheckpointsDoc svc topic vb s of
             (Some err, s') \<Rightarrow> (Inl err, s')
           | (None, s') \<Rightarrow> map_prod (map_sum id (Cons vb)) id (filter_docs cfg svc topic listOfVbs docs s')))"

text \<open>
  \<open>order\<close> is the order in which the map of documents is ranged over and \<open>rand\<close>
  the source of the shuffle.
\<close>

definition SetVBTimestamps ::
  "ckmgr_config \<Rightarrow> 's CheckpointsService \<Rightarrow> CAPIService \<Rightarrow> ((vbno \<rightharpoonup> CheckpointsDoc) \<Rightarrow> vbno list) \<Rightarrow> (nat \<Rightarrow> nat) \<Rightarrow>
     string \<Rightarrow> 's CheckpointManager \<Rightarrow> (goerror option \<times> 's CheckpointManager) option" where
  "SetVBTimestamps cfg svc capi order rand topic m =
     (let listOfVbs = getMyVBs cfg in
      case cs_CheckpointsDocs svc topic (ck_store m) of
        (None, s') \<Rightarrow> None
      | (Some (Inl err), s') \<Rightarrow> Some (Some err, raise_event (ErrorEncountered err) (m\<lparr>ck_store := s'\<rparr>))
      | (Some (Inr ckptDocs), s') \<Rightarrow>
          (case filter_docs cfg svc topic listOfVbs (map (\<lambda>vb. (vb, the (ckptDocs vb))) (order ckptDocs)) s' of
             (Inl err, s'') \<Rightarrow> Some (Some err, raise_event (ErrorEncountered err) (m\<lparr>ck_store := s''\<rparr>))
           | (Inr deleted_vbnos, s'') \<Rightarrow>
               (case run_getters cfg capi (ckptDocs |` (- set deleted_vbnos))
                       (vb_shares 100 (ShuffleVbList rand listOfVbs)) (m\<lparr>ck_store := s''\<rparr>) of
                  None \<Rightarrow> None
                | Some (errs, m') \<Rightarrow> Some (None, fold (\<lambda>(vb, err). ckmgr_handleVBError vb err) errs m'))))"

definition UpdateVBTimestamps ::
  "ckmgr_config \<Rightarrow> 's CheckpointsService \<Rightarrow> CAPIService \<Rightarrow> vbno \<Rightarrow> uint64 \<Rightarrow> 's CheckpointManager \<Rightarrow>
     ((goerror + VBTimestamp) \<times> 's CheckpointManager) option" where
  "UpdateVBTimestamps cfg svc capi vb rollbackseqno m =
     (case start_ts m vb of
        None \<Rightarrow> Some (Inl (Formatted ''Invalid vbno''), m)
      | Some pipeline_start_seqno \<Rightarrow>
          (case cs_CheckpointsDoc svc (Topic cfg) vb (ck_store m) of
             (None, s') \<Rightarrow> None
           | (Some res, s') \<Rightarrow>
               (case (if res = Inl MetadataNotFoundErr then Inr None else map_sum id Some res) of
                  Inl err \<Rightarrow> Some (Inl err, m\<lparr>ck_store := s'\<rparr>)
                | Inr checkpointDoc \<Rightarrow>
                    (let max_seqno = (if rollbackseqno = 0 \<and> ts_Seqno pipeline_start_seqno > 0
                                      then ts_Seqno pipeline_start_seqno - 1 else rollbackseqno) in
                     case getVBTimestampForVB cfg capi vb checkpointDoc max_seqno (m\<lparr>ck_store := s'\<rparr>) of
                       None \<Rightarrow> None
                     | Some (Inl err, m') \<Rightarrow> Some (Inl err, m')
                     | Some (Inr vbts, m') \<Rightarrow>
                         map_option (\<lambda>tr. (Inr vbts, m'\<lparr>start_ts := (start_ts m')(vb \<mapsto> vbts), ck_tracker := tr\<rparr>))
                           (SetStartSeqno vb (ts_Seqno vbts) (ck_tracker m'))))))"


section \<open>Failover logs and snapshots\<close>

definition on_streaming_start ::
  "vbno \<Rightarrow> FailoverLog option \<Rightarrow> 's CheckpointManager \<Rightarrow> 's CheckpointManager" where
  "on_streaming_start vb flog m =
     (case failoverlog_map m vb of
        Some _ \<Rightarrow> m\<lparr>failoverlog_map := (failoverlog_map m)(vb \<mapsto> flog)\<rparr>
      | None \<Rightarrow> ckmgr_handleGeneralError (Formatted ''Received failoverlog on an unknown vb'') m)"

text \<open>The rotation loop: slot \<open>i\<close> takes the value of slot \<open>i + 1\<close>, from \<open>i\<close> on.\<close>

fun shift_left :: "nat \<Rightarrow> nat \<Rightarrow> 'a list \<Rightarrow> 'a list" where
  "shift_left i 0 xs = xs"
| "shift_left i (Suc k) xs = shift_left (Suc i) k (xs[i := xs ! (i + 1)])"

text \<open>
  With a history longer than the current limit the code writes into the first
  slots only; the limit is at least one (an empty limit would index slot -1).
\<close>

definition add_snapshot :: "nat \<Rightarrow> snapshot \<Rightarrow> snapshot list \<Rightarrow> snapshot list" where
  "add_snapshot maxLen cur_snapshot history =
     (if length history < maxLen then history @ [cur_snapshot]
      else (shift_left 0 (maxLen - 1) history)[maxLen - 1 := cur_snapshot])"

definition on_snapshot_marker ::
  "ckmgr_config \<Rightarrow> vbno \<Rightarrow> uint64 \<Rightarrow> uint64 \<Rightarrow> 's CheckpointManager \<Rightarrow> 's CheckpointManager" where
  "on_snapshot_marker cfg vb snapstart snapend m =
     (case snapshot_history_map m vb of
        Some history \<Rightarrow> m\<lparr>snapshot_history_map := (snapshot_history_map m)(vb \<mapsto>
          add_snapshot (MaxLengthSnapshotHistory cfg) \<lparr>start_seqno = snapstart, end_seqno = snapend\<rparr> history)\<rparr>
      | None \<Rightarrow> ckmgr_handleGeneralError (Formatted ''Received snapshot marker on an unknown vb'') m)"

datatype upr_event = StreamingStart vbno "FailoverLog option" | SnapshotMarkerReceived vbno uint64 uint64

fun OnEvent :: "ckmgr_config \<Rightarrow> upr_event \<Rightarrow> 's CheckpointManager \<Rightarrow> 's CheckpointManager" where
  "OnEvent cfg (StreamingStart vb flog) m = on_streaming_start vb flog m"
| "OnEvent cfg (SnapshotMarkerReceived vb s e) m = on_snapshot_marker cfg vb s e m"

definition getFailoverUUIDForSeqno ::
  "vbno \<Rightarrow> uint64 \<Rightarrow> 's CheckpointManager \<Rightarrow> (goerror + uint64) \<times> 's CheckpointManager" where
  "getFailoverUUIDForSeqno vb seqno m =
     (case failoverlog_map m vb of
        None \<Rightarrow> (let err = Formatted ''Calling getFailoverUUIDForSeqno on an unknown vb'' in (Inl err, ckmgr_handleGeneralError err m))
      | Some flog \<Rightarrow>
          (case find (\<lambda>(failover_uuid, starting_seqno). seqno \<ge> starting_seqno) (case flog of None \<Rightarrow> [] | Some l \<Rightarrow> l) of
             Some (failover_uuid, _) \<Rightarrow> (Inr failover_uuid, m)
           | None \<Rightarrow> (Inl (Formatted ''Failed to find vbuuid for vb''), m)))"

text \<open>The search starts at the newest snapshot, the last of the list; an error comes with zeros.\<close>

definition getSnapshotForSeqno ::
  "vbno \<Rightarrow> uint64 \<Rightarrow> 's CheckpointManager \<Rightarrow> (uint64 \<times> uint64 \<times> goerror option) \<times> 's CheckpointManager" where
  "getSnapshotForSeqno vb seqno m =
     (case snapshot_history_map m vb of
        None \<Rightarrow> (let err = Formatted ''Calling getSnapshotForSeqno on an unknown vb'' in ((0, 0, Some err), ckmgr_handleGeneralError err m))
      | Some history \<Rightarrow>
          (case find (\<lambda>s. seqno \<ge> start_seqno s \<and> seqno \<le> end_seqno s) (rev history) of
             Some s \<Rightarrow> ((start_seqno s, end_seqno s, None), m)
           | None \<Rightarrow> ((0, 0, Some (Formatted ''Failed to find snapshot for vb'')), m)))"


section \<open>Checkpoints\<close>

text \<open>
  The maps a checkpoint operation collects before it visits the vbuckets: the
  through sequence numbers, the high sequence number and uuid of the target
  vbuckets, and the first sequence numbers with extended attributes.
\<close>

record ckpt_maps =
  through_seqnos :: "vbno \<rightharpoonup> uint64"
  high_seqno_and_vbuuid :: "vbno \<rightharpoonup> uint64 \<times> uint64"
  xattr_seqnos :: "vbno \<rightharpoonup> uint64"

definition getThroughSeqno ::
  "ckmgr_config \<Rightarrow> vbno \<Rightarrow> ckpt_maps \<Rightarrow> 's CheckpointManager \<Rightarrow> ((goerror + uint64) \<times> 's CheckpointManager) option" where
  "getThroughSeqno cfg vb maps m =
     (if \<not> isTargetES cfg then
        (case through_seqnos maps vb of
           None \<Rightarrow> Some (Inl (Formatted ''cannot find through seqno for vb''), m)
         | Some t \<Rightarrow> Some (Inr t, m))
      else map_option (\<lambda>(t, tr, _). (Inr t, m\<lparr>ck_tracker := tr\<rparr>)) (GetThroughSeqno vb (ck_tracker m)))"

definition getRemoteSeqno ::
  "ckmgr_config \<Rightarrow> CAPIService \<Rightarrow> vbno \<Rightarrow> ckpt_maps \<Rightarrow> TargetVBOpaque \<Rightarrow> goerror + uint64" where
  "getRemoteSeqno cfg capi vb maps curCkptTargetVBOpaque =
     (if \<not> isTargetES cfg then
        (case high_seqno_and_vbuuid maps vb of
           None \<Rightarrow> Inl (Formatted ''cannot find high seqno and vbuuid for vb'')
         | Some (remote_seqno, vbuuid) \<Rightarrow>
             if \<not> TargetVBOpaque_IsSame curCkptTargetVBOpaque (Some (TargetVBUuid vbuuid))
             then Inl targetVbuuidChangedError else Inr remote_seqno)
      else
        (case capi_CommitForCheckpoint capi curCkptTargetVBOpaque vb of
           Inl err \<Rightarrow> Inl (if err = VB_OPAQUE_MISMATCH_ERR then targetVbuuidChangedError
                           else Formatted ''error contacting capi service when calling CommitForCheckpoint'')
         | Inr remote_seqno \<Rightarrow> Inr remote_seqno))"

definition getXattrSeqno :: "ckmgr_config \<Rightarrow> vbno \<Rightarrow> ckpt_maps \<Rightarrow> uint64 \<Rightarrow> goerror + uint64" where
  "getXattrSeqno cfg vb maps through_seqno =
     (if isTargetES cfg then Inr 0
      else
        (case xattr_seqnos maps vb of
           None \<Rightarrow> Inl (Formatted ''cannot find xattr seqno for vb'')
         | Some xattr_seqno \<Rightarrow>
             Inr (if xattr_seqno \<noteq> 0 \<and> xattr_seqno > through_seqno then 0 else xattr_seqno)))"

definition persistCkptRecord ::
  "ckmgr_config \<Rightarrow> 's CheckpointsService \<Rightarrow> vbno \<Rightarrow> CheckpointRecord \<Rightarrow> uint64 \<Rightarrow> 's \<Rightarrow> goerror option option \<times> 's" where
  "persistCkptRecord cfg svc vb ckpt_record xattr_seqno s =
     cs_UpsertCheckpoints svc (Topic cfg) (InternalId cfg) vb (Some ckpt_record) xattr_seqno (target_cluster_version cfg) s"

record ckpt_update =
  up_version :: uint64
  up_xattr :: uint64
  up_seqno :: uint64
  up_target :: uint64
  up_failover :: uint64
  up_snap_start :: uint64
  up_snap_end :: uint64

definition apply_update :: "ckpt_update \<Rightarrow> CheckpointRecord \<Rightarrow> CheckpointRecord" where
  "apply_update u r = r\<lparr>Seqno := up_seqno u, Target_Seqno := up_target u, Failover_uuid := up_failover u,
     Dcp_snapshot_seqno := up_snap_start u, Dcp_snapshot_end_seqno := up_snap_end u\<rparr>"

text \<open>
  \<open>updateAndPersist\<close>, one critical section of the lock of the record: the
  in-memory record and its version change even when the write fails, and the
  event tells the other services of a written record.
\<close>

definition updateAndPersist ::
  "ckmgr_config \<Rightarrow> 's CheckpointsService \<Rightarrow> vbno \<Rightarrow> ckpt_update \<Rightarrow> 's CheckpointManager \<Rightarrow>
     (goerror option \<times> 's CheckpointManager) option" where
  "updateAndPersist cfg svc vb u m =
     (case cur_ckpts m vb of
        None \<Rightarrow> Some (Some (Formatted ''Nil ckptRecord''), m)
      | Some obj \<Rightarrow>
          (case ckpt obj of
             None \<Rightarrow> Some (Some (Formatted ''Nil ckpt''), m)
           | Some r \<Rightarrow>
               if up_version u \<noteq> versionNum obj then Some (Some ckptRecordMismatch, m)
               else
                 (let r' = apply_update u r;
                      m' = m\<lparr>cur_ckpts := (cur_ckpts m)(vb \<mapsto> \<lparr>ckpt = Some r', versionNum = versionNum obj + 1\<rparr>)\<rparr>
                  in case persistCkptRecord cfg svc vb r' (up_xattr u) (ck_store m) of
                       (None, s') \<Rightarrow> None
                     | (Some None, s') \<Rightarrow> Some (None, raise_event (CheckpointDoneForVB r' vb) (m'\<lparr>ck_store := s'\<rparr>))
                     | (Some (Some persistErr), s') \<Rightarrow> Some (None, m'\<lparr>ck_store := s'\<rparr>))))"

text \<open>
  \<open>doCheckpoint\<close> in the three steps its locks make of it: the read of the
  record's version, seqno and opaque; the collection of the new values; the
  update.  The first two may end the call.
\<close>

record ckpt_seen =
  seen_version :: uint64
  seen_seqno :: uint64
  seen_opaque :: "TargetVBOpaque option"

definition doCheckpoint_read ::
  "vbno \<Rightarrow> 's CheckpointManager \<Rightarrow> ((goerror + ckpt_seen) \<times> 's CheckpointManager) option" where
  "doCheckpoint_read vb m =
     (case cur_ckpts m vb of
        None \<Rightarrow>
          (let err = Formatted ''Trying to doCheckpoint on a vb which is not in MyVBList''
           in Some (Inl err, ckmgr_handleGeneralError err m))
      | Some ckpt_obj \<Rightarrow>
          map_option (\<lambda>r. (Inr \<lparr>seen_version = versionNum ckpt_obj, seen_seqno = Seqno r,
                                seen_opaque = Target_vb_opaque r\<rparr>, m)) (ckpt ckpt_obj))"

datatype ckpt_decision = Return "goerror option" | Update ckpt_update

definition doCheckpoint_collect ::
  "ckmgr_config \<Rightarrow> CAPIService \<Rightarrow> vbno \<Rightarrow> ckpt_maps \<Rightarrow> ckpt_seen \<Rightarrow> 's CheckpointManager \<Rightarrow>
     (ckpt_decision \<times> 's CheckpointManager) option" where
  "doCheckpoint_collect cfg capi vb maps seen m =
     (case getThroughSeqno cfg vb maps m of
        None \<Rightarrow> None
      | Some (Inl _, m1) \<Rightarrow> Some (Return None, m1)
      | Some (Inr through_seqno, m1) \<Rightarrow>
          if through_seqno = seen_seqno seen then Some (Return None, m1)
          else
            (case seen_opaque seen of
               None \<Rightarrow> Some (Return None, m1)
             | Some curCkptTargetVBOpaque \<Rightarrow>
                 (case getRemoteSeqno cfg capi vb maps curCkptTargetVBOpaque of
                    Inl err \<Rightarrow> Some (Return (if err = targetVbuuidChangedError then Some err else None), m1)
                  | Inr remote_seqno \<Rightarrow>
                      (case getFailoverUUIDForSeqno vb through_seqno m1 of
                         (Inl _, m2) \<Rightarrow> Some (Return None, m2)
                       | (Inr failoverUuid, m2) \<Rightarrow>
                           (case getSnapshotForSeqno vb through_seqno m2 of
                              ((snapSeqno, snapEndSeqno, _), m3) \<Rightarrow>
                                (case getXattrSeqno cfg vb maps through_seqno of
                                   Inl _ \<Rightarrow> Some (Return None, m3)
                                 | Inr xattr_seqno \<Rightarrow>
                                     Some (Update \<lparr>up_version = seen_version seen, up_xattr = xattr_seqno,
                                       up_seqno = through_seqno, up_target = remote_seqno, up_failover = failoverUuid,
                                       up_snap_start = snapSeqno, up_snap_end = snapEndSeqno\<rparr>, m3)))))))"

definition doCheckpoint ::
  "ckmgr_config \<Rightarrow> 's CheckpointsService \<Rightarrow> CAPIService \<Rightarrow> vbno \<Rightarrow> ckpt_maps \<Rightarrow> 's CheckpointManager \<Rightarrow>
     (goerror option \<times> 's CheckpointManager) option" where
  "doCheckpoint cfg svc capi vb maps m =
     (case doCheckpoint_read vb m of
        None \<Rightarrow> None
      | Some (Inl err, m1) \<Rightarrow> Some (Some err, m1)
      | Some (Inr seen, m1) \<Rightarrow>
          (case doCheckpoint_collect cfg capi vb maps seen m1 of
             None \<Rightarrow> None
           | Some (Return err, m2) \<Rightarrow> Some (err, m2)
           | Some (Update u, m2) \<Rightarrow> map_option (\<lambda>(_, m3). (None, m3)) (updateAndPersist cfg svc vb u m2)))"

text \<open>
  The loop over the vbuckets of one worker; \<open>fin i\<close> says that the finish signal
  is there before the vbucket of index \<open>i\<close>.
\<close>

fun performCkpt_internal ::
  "ckmgr_config \<Rightarrow> 's CheckpointsService \<Rightarrow> CAPIService \<Rightarrow> ckpt_maps \<Rightarrow> (nat \<Rightarrow> bool) \<Rightarrow> nat \<Rightarrow> vbno list \<Rightarrow>
     's CheckpointManager \<Rightarrow> 's CheckpointManager option" where
  "performCkpt_internal cfg svc capi maps fin index [] m = Some m"
| "performCkpt_internal cfg svc capi maps fin index (vb # vbs) m =
     (if fin index then Some m
      else
        (case doCheckpoint cfg svc capi vb maps m of
           None \<Rightarrow> None
         | Some (err, m') \<Rightarrow>
             performCkpt_internal cfg svc capi maps fin (Suc index) vbs
               (case err of None \<Rightarrow> m' | Some e \<Rightarrow> ckmgr_handleVBError vb e m')))"

text \<open>
  The statistics of a data node are \<open>None\<close> when they could not be retrieved after
  all retries; then the vbuckets of the node are missing from the map.
\<close>

definition ParseHighSeqnoAndVBUuidFromStats ::
  "vbno list \<Rightarrow> (string \<rightharpoonup> string) \<Rightarrow> (vbno \<rightharpoonup> uint64 \<times> uint64) \<Rightarrow> (vbno \<rightharpoonup> uint64 \<times> uint64)" where
  "ParseHighSeqnoAndVBUuidFromStats vbnos stats_map high =
     fold (\<lambda>vb high.
        (case Option.bind (stats_map (''vb_'' @ itoa (unat vb) @ '':high_seqno'')) (strconv_ParseUint 64) of
           None \<Rightarrow> high
         | Some high_seqno \<Rightarrow>
             (case Option.bind (stats_map (''vb_'' @ itoa (unat vb) @ '':uuid'')) (strconv_ParseUint 64) of
                None \<Rightarrow> high
              | Some vbuuid \<Rightarrow> high(vb \<mapsto> (word_of_nat high_seqno, word_of_nat vbuuid))))) vbnos high"

definition getHighSeqnoAndVBUuidFromTarget ::
  "ckmgr_config \<Rightarrow> (string \<Rightarrow> (string \<rightharpoonup> string) option) \<Rightarrow> (vbno \<rightharpoonup> uint64 \<times> uint64)" where
  "getHighSeqnoAndVBUuidFromTarget cfg stats =
     fold (\<lambda>(serverAddr, vbnos) high.
        (case stats serverAddr of None \<Rightarrow> high | Some stats_map \<Rightarrow> ParseHighSeqnoAndVBUuidFromStats vbnos stats_map high))
       (target_kv_vb_map cfg) Map.empty"

definition collect_maps ::
  "ckmgr_config \<Rightarrow> (string \<Rightarrow> (string \<rightharpoonup> string) option) \<Rightarrow> (vbno \<rightharpoonup> uint64) \<Rightarrow> 's CheckpointManager \<Rightarrow>
     (ckpt_maps \<times> 's CheckpointManager) option" where
  "collect_maps cfg stats xattrs m =
     (if \<not> isTargetES cfg then
        map_option (\<lambda>(through, tr).
           (\<lparr>through_seqnos = through, high_seqno_and_vbuuid = getHighSeqnoAndVBUuidFromTarget cfg stats,
             xattr_seqnos = xattrs\<rparr>, m\<lparr>ck_tracker := tr\<rparr>))
          (getThroughSeqnos_worker (getMyVBs cfg) (ck_tracker m))
      else Some (\<lparr>through_seqnos = Map.empty, high_seqno_and_vbuuid = Map.empty, xattr_seqnos = Map.empty\<rparr>, m))"

definition performCkpt ::
  "ckmgr_config \<Rightarrow> 's CheckpointsService \<Rightarrow> CAPIService \<Rightarrow> (string \<Rightarrow> (string \<rightharpoonup> string) option) \<Rightarrow> (vbno \<rightharpoonup> uint64) \<Rightarrow>
     (nat \<Rightarrow> bool) \<Rightarrow> 's CheckpointManager \<Rightarrow> 's CheckpointManager option" where
  "performCkpt cfg svc capi stats xattrs fin m =
     (case collect_maps cfg stats xattrs m of
        None \<Rightarrow> None
      | Some (maps, m1) \<Rightarrow>
          map_option (raise_event CheckpointDone)
            (performCkpt_internal cfg svc capi maps fin 0 (getMyVBs cfg) m1))"

text \<open>
  The one-time checkpoint: the vbuckets are shuffled and divided among the
  workers, which are run here one after the other.
\<close>

fun run_workers ::
  "ckmgr_config \<Rightarrow> 's CheckpointsService \<Rightarrow> CAPIService \<Rightarrow> ckpt_maps \<Rightarrow> (nat \<Rightarrow> nat \<Rightarrow> bool) \<Rightarrow> nat \<Rightarrow> vbno list list \<Rightarrow>
     's CheckpointManager \<Rightarrow> 's CheckpointManager option" where
  "run_workers cfg svc capi maps fin i [] m = Some m"
| "run_workers cfg svc capi maps fin i (vbs # shares) m =
     (case performCkpt_internal cfg svc capi maps (fin i) 0 vbs m of
        None \<Rightarrow> None
      | Some m' \<Rightarrow> run_workers cfg svc capi maps fin (Suc i) shares m')"

definition NumberOfWorkersForCheckpointing :: int where
  "NumberOfWorkersForCheckpointing = 5"

definition PerformCkpt ::
  "ckmgr_config \<Rightarrow> 's CheckpointsService \<Rightarrow> CAPIService \<Rightarrow> (string \<Rightarrow> (string \<rightharpoonup> string) option) \<Rightarrow> (vbno \<rightharpoonup> uint64) \<Rightarrow>
     (nat \<Rightarrow> nat \<Rightarrow> bool) \<Rightarrow> (nat \<Rightarrow> nat) \<Rightarrow> 's CheckpointManager \<Rightarrow> 's CheckpointManager option" where
  "PerformCkpt cfg svc capi stats xattrs fin rand m =
     (case collect_maps cfg stats xattrs m of
        None \<Rightarrow> None
      | Some (maps, m1) \<Rightarrow>
          (let vb_list = RandomizeUint16List rand (getMyVBs cfg);
               number_of_vbs = int (length vb_list);
               number_of_workers = min NumberOfWorkersForCheckpointing number_of_vbs
           in case BalanceLoad number_of_workers number_of_vbs of
                None \<Rightarrow> None
              | Some load_distribution \<Rightarrow>
                  map_option (raise_event CheckpointDone)
                    (run_workers cfg svc capi maps fin 0
                       (map (\<lambda>(l, r). take (nat (r - l)) (drop (nat l) vb_list)) load_distribution) m1)))"

definition CheckpointBeforeStop ::
  "ckmgr_config \<Rightarrow> 's CheckpointsService \<Rightarrow> CAPIService \<Rightarrow> (string \<Rightarrow> (string \<rightharpoonup> string) option) \<Rightarrow> (vbno \<rightharpoonup> uint64) \<Rightarrow>
     (nat \<Rightarrow> nat \<Rightarrow> bool) \<Rightarrow> (nat \<Rightarrow> nat) \<Rightarrow> bool \<Rightarrow> 's CheckpointManager \<Rightarrow> 's CheckpointManager option" where
  "CheckpointBeforeStop cfg svc capi stats xattrs timed_out rand spec_exists m =
     (if \<not> spec_exists then Some m else PerformCkpt cfg svc capi stats xattrs timed_out rand m)"

text \<open>
  The documents processed according to the stored checkpoints: the newest record
  of each vbucket of the list counts, the documents of other vbuckets are deleted.
\<close>

fun docs_processed ::
  "'s CheckpointsService \<Rightarrow> nat \<Rightarrow> string \<Rightarrow> vbno list \<Rightarrow> (vbno \<times> CheckpointsDoc) list \<Rightarrow> uint64 \<Rightarrow> 's \<Rightarrow> uint64 \<times> 's" where
  "docs_processed svc maxToRead topic vb_list [] acc s = (acc, s)"
| "docs_processed svc maxToRead topic vb_list ((vb, ckptDoc) # docs) acc s =
     (if IsVbInList vb vb_list then
        docs_processed svc maxToRead topic vb_list docs
          (case GetCheckpointRecords maxToRead ckptDoc of Some r # _ \<Rightarrow> acc + Seqno r | _ \<Rightarrow> acc) s
      else
        (case cs_DelCheckpointsDoc svc topic vb s of
           (_, s') \<Rightarrow> docs_processed svc maxToRead topic vb_list docs acc s'))"

definition getDocsProcessedForReplication ::
  "'s CheckpointsService \<Rightarrow> nat \<Rightarrow> ((vbno \<rightharpoonup> CheckpointsDoc) \<Rightarrow> vbno list) \<Rightarrow> string \<Rightarrow> vbno list \<Rightarrow> 's \<Rightarrow>
     (goerror + uint64) option \<times> 's" where
  "getDocsProcessedForReplication svc maxToRead order topic vb_list s =
     (case cs_CheckpointsDocs svc topic s of
        (None, s') \<Rightarrow> (None, s')
      | (Some (Inl err), s') \<Rightarrow> (Some (Inl err), s')
      | (Some (Inr ckptDocs), s') \<Rightarrow>
          map_prod (\<lambda>n. Some (Inr n)) id
            (docs_processed svc maxToRead topic vb_list (map (\<lambda>vb. (vb, the (ckptDocs vb))) (order ckptDocs)) 0 s'))"


section \<open>Library\<close>

text \<open>The record of a vbucket is there and not nil, as \<open>initialize\<close> leaves it.\<close>

definition known :: "vbno \<Rightarrow> 's CheckpointManager \<Rightarrow> bool" where
  "known vb m = (case cur_ckpts m vb of None \<Rightarrow> False | Some obj \<Rightarrow> ckpt obj \<noteq> None)"

lemma known_iff: "known vb m \<longleftrightarrow> (\<exists>obj r. cur_ckpts m vb = Some obj \<and> ckpt obj = Some r)"
  by (auto simp: known_def split: option.splits)

definition set_opaque :: "vbno \<Rightarrow> TargetVBOpaque option \<Rightarrow> 's CheckpointManager \<Rightarrow> 's CheckpointManager" where
  "set_opaque vb op m = m\<lparr>cur_ckpts := (cur_ckpts m)(vb := map_option
     (\<lambda>obj. obj\<lparr>ckpt := map_option (\<lambda>r. r\<lparr>Target_vb_opaque := op\<rparr>) (ckpt obj)\<rparr>) (cur_ckpts m vb))\<rparr>"

lemma set_opaque_known [simp]: "known vb' (set_opaque vb op m) = known vb' m"
  by (auto simp: known_def set_opaque_def split: option.splits)

lemma set_opaque_twice [simp]: "set_opaque vb op (set_opaque vb op' m) = set_opaque vb op m"
  by (cases "cur_ckpts m vb") (auto simp: set_opaque_def option.map_comp o_def)

lemma set_opaque_frame [simp]:
  "ck_tracker (set_opaque vb op m) = ck_tracker m" "start_ts (set_opaque vb op m) = start_ts m"
  "ck_store (set_opaque vb op m) = ck_store m" "ck_raised (set_opaque vb op m) = ck_raised m"
  "failoverlog_map (set_opaque vb op m) = failoverlog_map m"
  "snapshot_history_map (set_opaque vb op m) = snapshot_history_map m"
  by (simp_all add: set_opaque_def)

lemma updateCurrentVBOpaque_known:
  "known vb m \<Longrightarrow> updateCurrentVBOpaque vb op m = Some (None, set_opaque vb op m)"
  by (auto simp: known_iff updateCurrentVBOpaque_def set_opaque_def)

definition eligible :: "uint64 \<Rightarrow> CheckpointRecord \<Rightarrow> bool" where
  "eligible max_seqno r \<longleftrightarrow> Seqno r \<le> max_seqno"

definition answer :: "ckmgr_config \<Rightarrow> CAPIService \<Rightarrow> vbno \<Rightarrow> CheckpointRecord \<Rightarrow> goerror + bool \<times> TargetVBOpaque option" where
  "answer cfg capi vb r = capi_PreReplicate capi vb (Target_vb_opaque r) (Target_Seqno r) (support_ckpt cfg)"

definition agreed :: "ckmgr_config \<Rightarrow> CAPIService \<Rightarrow> vbno \<Rightarrow> CheckpointRecord \<Rightarrow> bool" where
  "agreed cfg capi vb r \<longleftrightarrow> (\<exists>op. answer cfg capi vb r = Inr (True, op))"

definition passed_over :: "ckmgr_config \<Rightarrow> CAPIService \<Rightarrow> vbno \<Rightarrow> uint64 \<Rightarrow> CheckpointRecord option \<Rightarrow> bool" where
  "passed_over cfg capi vb max_seqno r \<longleftrightarrow>
     (case r of None \<Rightarrow> True
      | Some r \<Rightarrow> eligible max_seqno r \<longrightarrow> (\<exists>op. answer cfg capi vb r = Inr (False, op)))"

text \<open>What an agreed index says of the records from the current one on.\<close>

definition scan_found ::
  "ckmgr_config \<Rightarrow> CAPIService \<Rightarrow> vbno \<Rightarrow> uint64 \<Rightarrow> nat \<Rightarrow> checkpointRecordWithLock option list \<Rightarrow> bool" where
  "scan_found cfg capi vb max_seqno j rs \<longleftrightarrow> j < length rs \<and>
     (\<exists>o1 r. rs ! j = Some o1 \<and> ckpt o1 = Some r \<and> eligible max_seqno r \<and> agreed cfg capi vb r) \<and>
     (\<forall>k < j. \<exists>o1. rs ! k = Some o1 \<and> passed_over cfg capi vb max_seqno (ckpt o1))"

lemma scan_found_Cons:
  "passed_over cfg capi vb max_seqno (ckpt o1) \<Longrightarrow> scan_found cfg capi vb max_seqno j rs \<Longrightarrow>
   scan_found cfg capi vb max_seqno (Suc j) (Some o1 # rs)"
  by (auto simp: scan_found_def less_Suc_eq_0_disj)

lemma ckpt_scan_spec:
  assumes "known vb m" "None \<notin> set rs"
  shows "\<exists>res m'. ckpt_scan cfg capi vb hasDoc max_seqno index rs m = Some (res, m') \<and>
    (m' = m \<or> (\<exists>op. m' = set_opaque vb op m)) \<and>
    (\<forall>i. res = Inr (Some i) \<longrightarrow> hasDoc \<and> (\<exists>j. i = index + j \<and> scan_found cfg capi vb max_seqno j rs))"
  using assms
proof (induction rs arbitrary: index m)
  case (Cons x rs)
  obtain rec where x: "x = Some rec" using Cons.prems(2) by (cases x) auto
  have rest: "None \<notin> set rs" using Cons.prems(2) by simp
  have skip: ?case
    if po: "passed_over cfg capi vb max_seqno (ckpt rec)" and m1: "m1 = m \<or> (\<exists>op. m1 = set_opaque vb op m)"
      and eq: "ckpt_scan cfg capi vb hasDoc max_seqno index (x # rs) m = ckpt_scan cfg capi vb hasDoc max_seqno (Suc index) rs m1"
    for m1
  proof -
    have "known vb m1" using m1 Cons.prems(1) by auto
    from Cons.IH[OF this rest, of "Suc index"] obtain res m' where
      s: "ckpt_scan cfg capi vb hasDoc max_seqno (Suc index) rs m1 = Some (res, m')"
        "m' = m1 \<or> (\<exists>op. m' = set_opaque vb op m1)" and
      r: "\<And>i. res = Inr (Some i) \<Longrightarrow> hasDoc \<and> (\<exists>j. i = Suc index + j \<and> scan_found cfg capi vb max_seqno j rs)"
      by blast
    have "hasDoc \<and> (\<exists>j. i = index + j \<and> scan_found cfg capi vb max_seqno j (x # rs))" if ri: "res = Inr (Some i)" for i
    proof -
      obtain j where "hasDoc" "i = Suc index + j" "scan_found cfg capi vb max_seqno j rs" using r[OF ri] by blast
      then show ?thesis using scan_found_Cons[OF po] x by (intro conjI exI[of _ "Suc j"]) simp_all
    qed
    moreover have "m' = m \<or> (\<exists>op. m' = set_opaque vb op m)" using s(2) m1 by auto
    ultimately show ?thesis unfolding eq s(1) by (intro exI[of _ res] exI[of _ m'] conjI allI impI refl) blast+
  qed
  show ?case
  proof (cases "ckpt rec")
    case None
    then show ?thesis using x by (intro skip[of m]) (simp_all add: passed_over_def)
  next
    case (Some r)
    show ?thesis
    proof (cases "Seqno r \<le> max_seqno")
      case False
      then show ?thesis using x Some by (intro skip[of m]) (simp_all add: passed_over_def eligible_def)
    next
      case el: True
      show ?thesis
      proof (cases "answer cfg capi vb r")
        case (Inl err)
        then show ?thesis
          using x Some el Cons.prems(1) by (auto simp: answer_def updateCurrentVBOpaque_known)
      next
        case (Inr p)
        obtain b op where p: "p = (b, op)" by (cases p)
        show ?thesis
        proof (cases b)
          case True
          then have "agreed cfg capi vb r" using Inr p by (auto simp: agreed_def)
          then have "scan_found cfg capi vb max_seqno 0 (x # rs)"
            using x Some el by (simp add: scan_found_def eligible_def)
          then show ?thesis
            using x Some el Cons.prems(1) Inr p True
            by (simp add: answer_def updateCurrentVBOpaque_known) blast
        next
          case False
          then show ?thesis
            using x Some el Cons.prems(1) Inr p
            by (intro skip[of "set_opaque vb op m"])
               (auto simp: answer_def passed_over_def updateCurrentVBOpaque_known)
        qed
      qed
    qed
  qed
qed simp

lemma ts_of_record_simps [simp]:
  "Vbno (ts_of_record vb r) = vb" "Vbuuid (ts_of_record vb r) = Failover_uuid r"
  "ts_Seqno (ts_of_record vb r) = Seqno r"
  "SnapshotStart (ts_of_record vb r) = min (Dcp_snapshot_seqno r) (Seqno r)"
  "SnapshotEnd (ts_of_record vb r) = max (Dcp_snapshot_end_seqno r) (Seqno r)"
  by (auto simp: ts_of_record_def Let_def min_def max_def)

lemma zero_ts_simps [simp]:
  "Vbno (zero_ts vb) = vb" "ts_Seqno (zero_ts vb) = 0" "SnapshotStart (zero_ts vb) = 0" "SnapshotEnd (zero_ts vb) = 0"
  "Vbuuid (zero_ts vb) = 0"
  by (simp_all add: zero_ts_def)

text \<open>What a returned start timestamp is, and that the search never panics.\<close>

definition chosen_ts ::
  "ckmgr_config \<Rightarrow> CAPIService \<Rightarrow> vbno \<Rightarrow> CheckpointsDoc option \<Rightarrow> uint64 \<Rightarrow> VBTimestamp \<Rightarrow> bool" where
  "chosen_ts cfg capi vb ckptDoc max_seqno ts \<longleftrightarrow>
     ts = zero_ts vb \<or>
     (\<exists>doc i r. ckptDoc = Some doc \<and> i < length (GetCheckpointRecords (MaxCheckpointRecordsToRead cfg) doc) \<and>
        GetCheckpointRecords (MaxCheckpointRecordsToRead cfg) doc ! i = Some r \<and> eligible max_seqno r \<and>
        agreed cfg capi vb r \<and> ts = ts_of_record vb r \<and>
        (\<forall>k < i. passed_over cfg capi vb max_seqno (GetCheckpointRecords (MaxCheckpointRecordsToRead cfg) doc ! k)))"

lemma getVBTimestampForVB_spec:
  assumes "known vb m"
  shows "\<exists>res m'. getVBTimestampForVB cfg capi vb ckptDoc max_seqno m = Some (res, m') \<and> known vb m' \<and>
    ck_tracker m' = ck_tracker m \<and> start_ts m' = start_ts m \<and> ck_store m' = ck_store m \<and>
    map_option versionNum (cur_ckpts m' vb) = map_option versionNum (cur_ckpts m vb) \<and>
    (\<forall>ts. res = Inr ts \<longrightarrow> chosen_ts cfg capi vb ckptDoc max_seqno ts)"
proof -
  let ?recs = "ckptRecordsWLock cfg ckptDoc vb m"
  have "None \<notin> set ?recs"
    using assms by (auto simp: ckptRecordsWLock_def known_def split: option.splits)
  from ckpt_scan_spec[OF assms this, of cfg capi "ckptDoc \<noteq> None" max_seqno 0] obtain res m1 where
    s: "ckpt_scan cfg capi vb (ckptDoc \<noteq> None) max_seqno 0 ?recs m = Some (res, m1)"
    "m1 = m \<or> (\<exists>op. m1 = set_opaque vb op m)" and
    r: "\<And>i. res = Inr (Some i) \<Longrightarrow> ckptDoc \<noteq> None \<and> scan_found cfg capi vb max_seqno i ?recs"
    by auto
  have m1: "known vb m1" "ck_tracker m1 = ck_tracker m" "start_ts m1 = start_ts m" "ck_store m1 = ck_store m"
    "map_option versionNum (cur_ckpts m1 vb) = map_option versionNum (cur_ckpts m vb)"
    using s(2) assms by (auto simp: set_opaque_def option.map_comp o_def known_def split: option.splits)
  then obtain obj rr where obj: "cur_ckpts m1 vb = Some obj" "ckpt obj = Some rr" by (auto simp: known_iff)
  show ?thesis
  proof (cases res)
    case (Inl e)
    then show ?thesis using s m1 by (simp add: getVBTimestampForVB_def)
  next
    case (Inr ai)
    show ?thesis
    proof (cases ai)
      case None
      then show ?thesis using Inr s m1 obj
        by (simp add: getVBTimestampForVB_def populateVBTimestamp_def chosen_ts_def)
    next
      case (Some i)
      note ri = r[OF Inr[unfolded Some]]
      then obtain doc where doc: "ckptDoc = Some doc" by auto
      let ?rs = "GetCheckpointRecords (MaxCheckpointRecordsToRead cfg) doc"
      have len: "i < length ?rs" using ri doc by (simp add: scan_found_def ckptRecordsWLock_def)
      then obtain r0 where r0: "?rs ! i = Some r0" "eligible max_seqno r0" "agreed cfg capi vb r0"
        using ri doc by (auto simp: scan_found_def ckptRecordsWLock_def)
      have "chosen_ts cfg capi vb ckptDoc max_seqno (ts_of_record vb r0)"
        using ri doc len r0 by (auto simp: chosen_ts_def scan_found_def ckptRecordsWLock_def)
      then show ?thesis using Inr Some s m1 obj doc len r0
        by (auto simp: getVBTimestampForVB_def populateVBTimestamp_def Let_def known_def)
    qed
  qed
qed

lemma chosen_ts_bounds:
  assumes "chosen_ts cfg capi vb ckptDoc max_seqno ts"
  shows "Vbno ts = vb" "ts_Seqno ts \<le> max_seqno" "SnapshotStart ts \<le> ts_Seqno ts" "ts_Seqno ts \<le> SnapshotEnd ts"
  using assms by (auto simp: chosen_ts_def eligible_def)

lemma SetStartSeqno_through:
  "SetStartSeqno v s ts = Some ts' \<Longrightarrow> through_seqno_map ts' v = Some s"
  by (auto simp: SetStartSeqno_def Let_def split: option.splits)

lemma UpdateVBTimestamps_bound:
  assumes "known vb m" "start_ts m vb = Some old"
    "UpdateVBTimestamps cfg svc capi vb rollbackseqno m = Some (Inr ts, m')"
  shows "known vb m'" "start_ts m' = (start_ts m)(vb \<mapsto> ts)"
    "through_seqno_map (ck_tracker m') vb = Some (ts_Seqno ts)"
    "\<exists>doc. chosen_ts cfg capi vb doc (if rollbackseqno = 0 \<and> ts_Seqno old > 0 then ts_Seqno old - 1 else rollbackseqno) ts"
proof -
  let ?max = "if rollbackseqno = 0 \<and> ts_Seqno old > 0 then ts_Seqno old - 1 else rollbackseqno"
  obtain res s' where rd: "cs_CheckpointsDoc svc (Topic cfg) vb (ck_store m) = (Some res, s')"
    using assms by (auto simp: UpdateVBTimestamps_def split: prod.splits option.splits)
  obtain doc m1 where g: "getVBTimestampForVB cfg capi vb doc ?max (m\<lparr>ck_store := s'\<rparr>) = Some (Inr ts, m1)"
    and tr: "SetStartSeqno vb (ts_Seqno ts) (ck_tracker m1) = Some (ck_tracker m')"
    and m': "m' = m1\<lparr>start_ts := (start_ts m1)(vb \<mapsto> ts), ck_tracker := ck_tracker m'\<rparr>"
    using assms(2,3) rd
    by (auto simp: UpdateVBTimestamps_def Let_def split: sum.splits option.splits prod.splits if_splits)
  have "known vb (m\<lparr>ck_store := s'\<rparr>)" using assms(1) by (simp add: known_def)
  from getVBTimestampForVB_spec[OF this, of cfg capi doc ?max] g have
    "known vb m1" "start_ts m1 = start_ts m" "chosen_ts cfg capi vb doc ?max ts" by auto
  moreover have "cur_ckpts m' = cur_ckpts m1" "start_ts m' = (start_ts m1)(vb \<mapsto> ts)"
    by (subst m', simp)+
  ultimately show "known vb m'" "start_ts m' = (start_ts m)(vb \<mapsto> ts)" "\<exists>doc. chosen_ts cfg capi vb doc ?max ts"
    by (auto simp: known_def)
  show "through_seqno_map (ck_tracker m') vb = Some (ts_Seqno ts)" by (rule SetStartSeqno_through[OF tr])
qed



section \<open>The contract of the checkpoints service\<close>

text \<open>The operations of \<open>Checkpoint_Service\<close> behind the interface the manager calls.\<close>

definition checkpoints_svc :: "('s, 'r) ckpt_metakv \<Rightarrow> retry_settings \<Rightarrow> nat \<Rightarrow> 's CheckpointsService" where
  "checkpoints_svc mk rs maxToKeep =
     \<lparr>cs_CheckpointsDoc = CheckpointsDoc_get mk rs, cs_CheckpointsDocs = CheckpointsDocs mk rs,
      cs_DelCheckpointsDoc = DelCheckpointsDoc mk rs, cs_UpsertCheckpoints = UpsertCheckpoints mk rs maxToKeep\<rparr>"

text \<open>
  What the manager relies on: \<open>recs\<close> are the records stored for a vbucket; a
  \<open>storable\<close> record upserted for a vbucket is the only one that may be added
  there, other vbuckets are left alone, and what is read had been stored.
\<close>

locale checkpoint_store =
  fixes cs :: "'s CheckpointsService" and topic :: string and ver :: int
    and recs :: "'s \<Rightarrow> vbno \<Rightarrow> CheckpointRecord set" and wf :: "'s \<Rightarrow> vbno \<Rightarrow> bool"
    and storable :: "CheckpointRecord \<Rightarrow> bool"
  assumes upsert_frame: "\<lbrakk>cs_UpsertCheckpoints cs topic spec vb orec x w s = (res, s'); vb' \<noteq> vb\<rbrakk> \<Longrightarrow>
            recs s' vb' = recs s vb' \<and> wf s' vb' = wf s vb'"
    and upsert_adds: "\<lbrakk>wf s vb; storable r; cs_UpsertCheckpoints cs topic spec vb (Some r) x ver s = (res, s')\<rbrakk> \<Longrightarrow>
            res \<noteq> None \<and> wf s' vb \<and> recs s' vb \<subseteq> insert r (recs s vb)"
    and read_stored: "\<lbrakk>wf s vb; cs_CheckpointsDoc cs topic vb s = (Some (Inr d), s'); Some r \<in> set (Checkpoint_records d)\<rbrakk> \<Longrightarrow>
            r \<in> recs s vb"
begin

text \<open>A start timestamp computed from a document that was read is 0 or that of a stored record the target agreed on.\<close>

lemma start_from_stored:
  assumes "wf s vb" "cs_CheckpointsDoc cs topic vb s = (Some (Inr d), s')" "known vb m"
    "getVBTimestampForVB cfg capi vb (Some d) max_seqno m = Some (Inr ts, m')"
  shows "ts = zero_ts vb \<or> (\<exists>r\<in>recs s vb. ts = ts_of_record vb r \<and> agreed cfg capi vb r)"
proof -
  have "chosen_ts cfg capi vb (Some d) max_seqno ts"
    using getVBTimestampForVB_spec[OF assms(3), of cfg capi "Some d" max_seqno] assms(4) by auto
  moreover have "r \<in> recs s vb" if i: "i < length (GetCheckpointRecords (MaxCheckpointRecordsToRead cfg) d)"
    "GetCheckpointRecords (MaxCheckpointRecordsToRead cfg) d ! i = Some r" for i r
  proof (rule read_stored[OF assms(1,2)])
    have "Some r \<in> set (GetCheckpointRecords (MaxCheckpointRecordsToRead cfg) d)" using i by (metis nth_mem)
    then show "Some r \<in> set (Checkpoint_records d)"
      by (auto simp: GetCheckpointRecords_def dest: in_set_takeD split: if_splits)
  qed
  ultimately show ?thesis unfolding chosen_ts_def by blast
qed

end

context checkpoint_metakv
begin

definition doc_recs :: "'s \<Rightarrow> vbno \<Rightarrow> CheckpointRecord set" where
  "doc_recs s vb = {a. \<exists>d. stored s vb d \<and> Some a \<in> set (Checkpoint_records d)}"

lemma stored_unique: "stored s vb d \<Longrightarrow> stored s vb d' \<Longrightarrow> d = d'"
  using exact_doc_roundtrip[of d] exact_doc_roundtrip[of d'] by (auto simp: stored_def)

lemma stored_cong:
  "path_store kv s' (getCheckpointDocKey rid vb) = path_store kv s (getCheckpointDocKey rid vb) \<Longrightarrow>
   stored s' vb = stored s vb \<and> doc_wf s' vb = doc_wf s vb \<and> doc_recs s' vb = doc_recs s vb"
  by (auto simp: stored_def doc_wf_def doc_recs_def fun_eq_iff)

end

sublocale checkpoint_metakv \<subseteq> ckstore: checkpoint_store "checkpoints_svc mk rs n" rid ver doc_recs doc_wf
  "\<lambda>r. exact_record r \<and> Target_vb_opaque r \<noteq> None"
proof
  fix spec vb orec x w s res s' and vb' :: vbno
  assume "cs_UpsertCheckpoints (checkpoints_svc mk rs n) rid spec vb orec x w s = (res, s')" "vb' \<noteq> vb"
  then have "path_store kv s' (getCheckpointDocKey rid vb') = path_store kv s (getCheckpointDocKey rid vb')"
    by (intro UpsertCheckpoints_frame) (auto simp: checkpoints_svc_def docKey_inj)
  then show "doc_recs s' vb' = doc_recs s vb' \<and> doc_wf s' vb' = doc_wf s vb'" using stored_cong by blast
next
  fix s vb r spec x res s'
  assume "doc_wf s vb" "exact_record r \<and> Target_vb_opaque r \<noteq> None"
    "cs_UpsertCheckpoints (checkpoints_svc mk rs n) rid spec vb (Some r) x ver s = (res, s')"
  then have "res \<noteq> None \<and>
    (path_store kv s' (getCheckpointDocKey rid vb) = path_store kv s (getCheckpointDocKey rid vb) \<or>
     (\<exists>d. stored s' vb d \<and> hd (Checkpoint_records d) = Some r \<and>
        (\<forall>a. Some a \<in> set (Checkpoint_records d) \<longrightarrow>
           a = r \<or> (\<exists>d0. stored s vb d0 \<and> Some a \<in> set (Checkpoint_records d0)))))"
    by (intro UpsertCheckpoints_effect) (simp_all add: checkpoints_svc_def)
  then show "res \<noteq> None \<and> doc_wf s' vb \<and> doc_recs s' vb \<subseteq> insert r (doc_recs s vb)"
    using \<open>doc_wf s vb\<close> stored_cong[of s' vb s] stored_unique[of s' vb] by (auto simp: doc_recs_def doc_wf_def)
next
  fix s vb d s' r
  assume "doc_wf s vb" "cs_CheckpointsDoc (checkpoints_svc mk rs n) rid vb s = (Some (Inr d), s')"
    "Some r \<in> set (Checkpoint_records d)"
  then show "r \<in> doc_recs s vb"
    using CheckpointsDoc_get_effect[of vb s "Some (Inr d)" s'] by (auto simp: checkpoints_svc_def doc_recs_def)
qed


context checkpoint_metakv
begin

lemma store_contract:
  "checkpoint_store (checkpoints_svc mk rs n) rid ver doc_recs doc_wf (\<lambda>r. exact_record r \<and> Target_vb_opaque r \<noteq> None)"
  by (rule ckstore.checkpoint_store_axioms)

end

lemma filter_docs_deleted:
  assumes "filter_docs cfg svc topic listOfVbs docs s = (Inr deleted, s')"
  shows "set deleted = {vb. \<exists>d. (vb, d) \<in> set docs \<and> doc_check cfg listOfVbs vb d \<noteq> KeepDoc}"
  using assms
proof (induction docs arbitrary: s deleted)
  case (Cons x docs)
  obtain vb d where x: "x = (vb, d)" by (cases x)
  show ?case
  proof (cases "doc_check cfg listOfVbs vb d = KeepDoc")
    case True
    then show ?thesis using Cons x by auto
  next
    case False
    then obtain e s1 del where "filter_docs cfg svc topic listOfVbs docs s1 = (Inr del, s')" "deleted = vb # del"
      using Cons.prems x
      by (cases "doc_check cfg listOfVbs vb d")
         (auto split: prod.splits option.splits simp: map_prod_def map_sum_def split: sum.splits)
    then show ?thesis using Cons.IH[of s1 del] x False by auto
  qed
qed simp


lemma doc_check_drops:
  "doc_check cfg listOfVbs vb d \<noteq> KeepDoc \<longleftrightarrow> vb \<notin> set listOfVbs \<or>
     (if 0x50000 \<le> target_cluster_version cfg then TargetClusterVersion d < 0x50000 \<and> XattrSeqno d > 0
      else SpecInternalId d \<noteq> InternalId cfg)"
proof -
  have c: "IsClusterCompatible v VersionForRBACAndXattrSupport \<longleftrightarrow> 0x50000 \<le> v" for v
    by (simp add: IsClusterCompatible_def EncodeVersionToEffectiveVersion_def VersionForRBACAndXattrSupport_def)
  show ?thesis
    by (cases "vb \<in> set listOfVbs"; cases "0x50000 \<le> target_cluster_version cfg")
       (auto simp: doc_check_def c IsVbInList_iff not_le)
qed


section \<open>Properties of the checkpoint manager\<close>

text \<open>A manager of vbucket 7 whose target agrees on every checkpoint, and a document of it.\<close>

definition example_svc :: "unit CheckpointsService" where
  "example_svc = \<lparr>cs_CheckpointsDoc = (\<lambda>t v s. (Some (Inl MetadataNotFoundErr), s)),
     cs_CheckpointsDocs = (\<lambda>t s. (Some (Inr Map.empty), s)), cs_DelCheckpointsDoc = (\<lambda>t v s. (None, s)),
     cs_UpsertCheckpoints = (\<lambda>t i v r x w s. (Some None, s))\<rparr>"

definition example_capi :: CAPIService where
  "example_capi = \<lparr>capi_PreReplicate = (\<lambda>v op s b. Inr (True, Some (TargetVBUuid 5))),
     capi_CommitForCheckpoint = (\<lambda>op v. Inr 0)\<rparr>"

definition example_cfg :: ckmgr_config where
  "example_cfg = \<lparr>Topic = ''t'', InternalId = ''i'', active_vbs = [(''s'', [7])], target_kv_vb_map = [(''n'', [7])],
     target_cluster_version = 0x50000, isTargetES = False, support_ckpt = True, MaxCheckpointRecordsToRead = 5,
     MaxLengthSnapshotHistory = 200\<rparr>"

definition example_ts :: VBTimestamp where
  "example_ts = \<lparr>Vbno = 7, Vbuuid = 3, ts_Seqno = 10, SnapshotStart = 10, SnapshotEnd = 10\<rparr>"

definition example_ckmgr :: "unit CheckpointManager" where
  "example_ckmgr = ckmgr_initialize example_cfg \<lparr>cur_ckpts = Map.empty, failoverlog_map = Map.empty, snapshot_history_map = Map.empty,
     ck_tracker = initialize_vbs [7] NewThroughSeqnoTrackerSvc, start_ts = [7 \<mapsto> example_ts], ck_store = (), ck_raised = []\<rparr>"

lemmas example_ckmgr_defs = example_ckmgr_def example_ts_def example_cfg_def example_capi_def
  ckmgr_initialize_def getMyVBs_def

definition example_doc :: CheckpointsDoc where
  "example_doc = \<lparr>Checkpoint_records = [Some (example_record 12), None, Some (example_record 8)], XattrSeqno = 3,
     TargetClusterVersion = 0x40000, SpecInternalId = ''i''\<rparr>"

text \<open>C7. The search for a start timestamp of a known vbucket never panics.  A timestamp it returns is
  at most the given maximum and has its sequence number inside its snapshot bounds, as DCP demands; it is
  the zero timestamp or that of the first record of the document within the maximum that the target
  agrees on: all records before it are empty, beyond the maximum or refused by the target.\<close>

theorem start_timestamp_choice:
  assumes "known vb m"
  shows "\<exists>res m'. getVBTimestampForVB cfg capi vb ckptDoc max_seqno m = Some (res, m') \<and>
    (\<forall>ts. res = Inr ts \<longrightarrow>
       Vbno ts = vb \<and> ts_Seqno ts \<le> max_seqno \<and> SnapshotStart ts \<le> ts_Seqno ts \<and> ts_Seqno ts \<le> SnapshotEnd ts \<and>
       (ts = zero_ts vb \<or>
        (\<exists>doc i r. ckptDoc = Some doc \<and> i < length (GetCheckpointRecords (MaxCheckpointRecordsToRead cfg) doc) \<and>
           GetCheckpointRecords (MaxCheckpointRecordsToRead cfg) doc ! i = Some r \<and> eligible max_seqno r \<and>
           agreed cfg capi vb r \<and> ts = ts_of_record vb r \<and>
           (\<forall>k < i. passed_over cfg capi vb max_seqno (GetCheckpointRecords (MaxCheckpointRecordsToRead cfg) doc ! k)))))"
proof -
  obtain res m' where run: "getVBTimestampForVB cfg capi vb ckptDoc max_seqno m = Some (res, m')"
    and ch: "\<forall>ts. res = Inr ts \<longrightarrow> chosen_ts cfg capi vb ckptDoc max_seqno ts"
    using getVBTimestampForVB_spec[OF assms] by blast
  show ?thesis
  proof (intro exI[of _ res] exI[of _ m'] conjI allI impI run)
    fix ts assume "res = Inr ts"
    then have c: "chosen_ts cfg capi vb ckptDoc max_seqno ts" using ch by blast
    show "Vbno ts = vb" "ts_Seqno ts \<le> max_seqno" "SnapshotStart ts \<le> ts_Seqno ts" "ts_Seqno ts \<le> SnapshotEnd ts"
      by (rule chosen_ts_bounds[OF c])+
    show "ts = zero_ts vb \<or>
        (\<exists>doc i r. ckptDoc = Some doc \<and> i < length (GetCheckpointRecords (MaxCheckpointRecordsToRead cfg) doc) \<and>
           GetCheckpointRecords (MaxCheckpointRecordsToRead cfg) doc ! i = Some r \<and> eligible max_seqno r \<and>
           agreed cfg capi vb r \<and> ts = ts_of_record vb r \<and>
           (\<forall>k < i. passed_over cfg capi vb max_seqno (GetCheckpointRecords (MaxCheckpointRecordsToRead cfg) doc ! k)))"
      using c unfolding chosen_ts_def .
  qed
qed

theorem start_timestamp_choice_witness:
  "\<exists>ts m'. getVBTimestampForVB example_cfg example_capi 7 (Some example_doc) 9 example_ckmgr = Some (Inr ts, m') \<and>
     ts = ts_of_record 7 (example_record 8) \<and> ts_Seqno ts \<le> 9 \<and> SnapshotStart ts \<le> ts_Seqno ts"
proof -
  have k: "known 7 example_ckmgr" by (simp add: known_def example_ckmgr_defs)
  have "fst (the (getVBTimestampForVB example_cfg example_capi 7 (Some example_doc) 9 example_ckmgr)) =
      Inr (ts_of_record 7 (example_record 8))"
    by (simp add: getVBTimestampForVB_def ckptRecordsWLock_def example_doc_def GetCheckpointRecords_def example_ckmgr_defs
        example_record_def empty_record_def updateCurrentVBOpaque_def populateVBTimestamp_def Let_def)
  then show ?thesis using start_timestamp_choice[OF k, of example_cfg example_capi "Some example_doc" 9] by fastforce
qed




end
