(* ===== verification/Through_Seqno_System.thy ===== *)
theory Through_Seqno_System
  imports Through_Seqno
begin

text \<open>
  The tracker under concurrency.  The events of a vbucket are handled by
  independent asynchronous listeners, \<open>GetThroughSeqno\<close> reads the lists one
  after the other, and the truncations it spawns run at any later time, one
  lock at a time.  The inductive relation \<open>tstep\<close> interleaves all of them for
  one vbucket \<open>v\<close> (with arbitrary activity on the others) and the invariant
  proved here is what makes a checkpoint taken at the through sequence number
  safe: every mutation of the DCP stream up to it has been dealt with.

  What the listeners are handed is constrained the way the pipeline constrains
  it: DCP delivers increasing sequence numbers above the start, the
  \<open>DataReceived\<close> events arrive in that order, each mutation has one fate, and
  the filtered and the rejected mutations are reported in increasing order (the
  comment at \<open>getSortedSeqnoList\<close>); the sent ones in any order.
\<close>

datatype reader =
    Idle
  | GotLast seqno
  | GotSent seqno "seqno list"
  | GotFiltered seqno "seqno list" "seqno list"
  | GotFailed seqno "seqno list" "seqno list" "seqno list"

record tsys =
  svc :: ThroughSeqnoTrackerSvc
  received :: nat
  fate :: "seqno \<rightharpoonup> seqno_type"
  tasks :: "(trunc_stage \<times> seqno) list"
  rd :: reader

fun next_stage :: "trunc_stage \<Rightarrow> trunc_stage option" where
  "next_stage TruncSent = Some TruncFiltered"
| "next_stage TruncFiltered = Some TruncFailedCR"
| "next_stage TruncFailedCR = Some TruncGap"
| "next_stage TruncGap = None"

definition advance_task ::
  "nat \<Rightarrow> (trunc_stage \<times> seqno) list \<Rightarrow> (trunc_stage \<times> seqno) list" where
  "advance_task i ts =
     (case next_stage (fst (ts ! i)) of
        Some st \<Rightarrow> ts[i := (st, snd (ts ! i))]
      | None \<Rightarrow> take i ts @ drop (Suc i) ts)"

fun event_vb :: "tracker_event \<Rightarrow> vbno option" where
  "event_vb (DataSent v s) = Some v"
| "event_vb (DataFiltered e) = map_option fst e"
| "event_vb (DataUnableToFilter err e) = map_option fst e"
| "event_vb (DataFailedCRSource v s) = Some v"
| "event_vb (DataReceived e) = map_option fst e"
| "event_vb OtherEvent = None"

inductive tstep :: "vbno \<Rightarrow> seqno list \<Rightarrow> tsys \<Rightarrow> tsys \<Rightarrow> bool" for v stream where
  receive:
    "\<lbrakk>received \<sigma> < length stream;
      ProcessEvent (DataReceived (Some (v, stream ! received \<sigma>))) (svc \<sigma>) = Some ts'\<rbrakk>
     \<Longrightarrow> tstep v stream \<sigma> (\<sigma>\<lparr>svc := ts', received := Suc (received \<sigma>)\<rparr>)"
| sent:
    "\<lbrakk>x \<in> set stream; fate \<sigma> x = None; ProcessEvent (DataSent v x) (svc \<sigma>) = Some ts'\<rbrakk>
     \<Longrightarrow> tstep v stream \<sigma> (\<sigma>\<lparr>svc := ts', fate := (fate \<sigma>)(x \<mapsto> SeqnoTypeSent)\<rparr>)"
| filtered:
    "\<lbrakk>x \<in> set stream; fate \<sigma> x = None; \<forall>y. fate \<sigma> y = Some SeqnoTypeFiltered \<longrightarrow> y < x;
      e = DataFiltered (Some (v, x)) \<or> e = DataUnableToFilter OtherFilterError (Some (v, x));
      ProcessEvent e (svc \<sigma>) = Some ts'\<rbrakk>
     \<Longrightarrow> tstep v stream \<sigma> (\<sigma>\<lparr>svc := ts', fate := (fate \<sigma>)(x \<mapsto> SeqnoTypeFiltered)\<rparr>)"
| filter_retry:
    "ProcessEvent (DataUnableToFilter ErrorCompressionUnableToInflate (Some (v, x))) (svc \<sigma>) = Some ts'
     \<Longrightarrow> tstep v stream \<sigma> (\<sigma>\<lparr>svc := ts'\<rparr>)"
| failed_cr:
    "\<lbrakk>x \<in> set stream; fate \<sigma> x = None; \<forall>y. fate \<sigma> y = Some SeqnoTypeFailedCR \<longrightarrow> y < x;
      ProcessEvent (DataFailedCRSource v x) (svc \<sigma>) = Some ts'\<rbrakk>
     \<Longrightarrow> tstep v stream \<sigma> (\<sigma>\<lparr>svc := ts', fate := (fate \<sigma>)(x \<mapsto> SeqnoTypeFailedCR)\<rparr>)"
| read_last:
    "\<lbrakk>rd \<sigma> = Idle; through_seqno_map (svc \<sigma>) v = Some l\<rbrakk>
     \<Longrightarrow> tstep v stream \<sigma> (\<sigma>\<lparr>rd := GotLast l\<rparr>)"
| read_sent:
    "\<lbrakk>rd \<sigma> = GotLast l; vb_sent_seqno_list_map (svc \<sigma>) v = Some s0;
      getSortedSeqnoList True s0 = (s, s')\<rbrakk>
     \<Longrightarrow> tstep v stream \<sigma>
          (\<sigma>\<lparr>svc := (svc \<sigma>)\<lparr>vb_sent_seqno_list_map := (vb_sent_seqno_list_map (svc \<sigma>))(v \<mapsto> s')\<rparr>,
             rd := GotSent l s\<rparr>)"
| read_filtered:
    "\<lbrakk>rd \<sigma> = GotSent l s; vb_filtered_seqno_list_map (svc \<sigma>) v = Some f0;
      getSortedSeqnoList False f0 = (f, f')\<rbrakk>
     \<Longrightarrow> tstep v stream \<sigma> (\<sigma>\<lparr>rd := GotFiltered l s f\<rparr>)"
| read_failed:
    "\<lbrakk>rd \<sigma> = GotFiltered l s f; vb_failed_cr_seqno_list_map (svc \<sigma>) v = Some c0;
      getSortedSeqnoList False c0 = (c, c')\<rbrakk>
     \<Longrightarrow> tstep v stream \<sigma> (\<sigma>\<lparr>rd := GotFailed l s f c\<rparr>)"
| finish:
    "\<lbrakk>rd \<sigma> = GotFailed l s f c; vb_gap_seqno_list_map (svc \<sigma>) v = Some d;
      getSortedSeqnoLists d = Some (g1, g2);
      compute_through \<lparr>sent_list = s, filtered_list = f, failed_cr_list = c,
                       gap_list_1 = g1, gap_list_2 = g2\<rparr> l = Some (r, found)\<rbrakk>
     \<Longrightarrow> tstep v stream \<sigma>
          (if found
           then \<sigma>\<lparr>svc := (svc \<sigma>)\<lparr>through_seqno_map := (through_seqno_map (svc \<sigma>))(v \<mapsto> r)\<rparr>,
                  tasks := tasks \<sigma> @ [(TruncSent, r)], rd := Idle\<rparr>
           else \<sigma>\<lparr>rd := Idle\<rparr>)"
| truncate:
    "\<lbrakk>i < length (tasks \<sigma>); tasks \<sigma> ! i = (st, t); truncate_stage st v t (svc \<sigma>) = Some ts'\<rbrakk>
     \<Longrightarrow> tstep v stream \<sigma> (\<sigma>\<lparr>svc := ts', tasks := advance_task i (tasks \<sigma>)\<rparr>)"
| other_event:
    "\<lbrakk>event_vb e \<noteq> Some v; ProcessEvent e (svc \<sigma>) = Some ts'\<rbrakk>
     \<Longrightarrow> tstep v stream \<sigma> (\<sigma>\<lparr>svc := ts'\<rparr>)"
| other_get:
    "\<lbrakk>u \<noteq> v; GetThroughSeqno u (svc \<sigma>) = Some (r, ts', tr)\<rbrakk>
     \<Longrightarrow> tstep v stream \<sigma> (\<sigma>\<lparr>svc := ts'\<rparr>)"
| other_truncate:
    "\<lbrakk>u \<noteq> v; truncate_stage st u t (svc \<sigma>) = Some ts'\<rbrakk>
     \<Longrightarrow> tstep v stream \<sigma> (\<sigma>\<lparr>svc := ts'\<rparr>)"
| other_start:
    "\<lbrakk>u \<noteq> v; SetStartSeqno u s (svc \<sigma>) = Some ts'\<rbrakk>
     \<Longrightarrow> tstep v stream \<sigma> (\<sigma>\<lparr>svc := ts'\<rparr>)"

definition start_view :: "seqno \<Rightarrow> vb_view" where
  "start_view start = \<lparr>v_through = start, v_seen = 0, v_sent = [], v_filtered = [], v_failed = [],
     v_gap = newDualSortedSeqnoList\<rparr>"

text \<open>A tracker attached to a pipeline and told the start of vbucket \<open>v\<close>.\<close>

definition tsys_init :: "ThroughSeqnoTrackerSvc \<Rightarrow> tsys" where
  "tsys_init ts = \<lparr>svc = ts, received = 0, fate = Map.empty, tasks = [], rd = Idle\<rparr>"

definition stream_ok :: "seqno \<Rightarrow> seqno list \<Rightarrow> bool" where
  "stream_ok start stream \<longleftrightarrow> sorted_wrt (<) stream \<and> (\<forall>x\<in>set stream. start < x)"

inductive treach :: "vbno \<Rightarrow> seqno \<Rightarrow> seqno list \<Rightarrow> tsys \<Rightarrow> bool" for v start stream where
  init: "view v ts = Some (start_view start) \<Longrightarrow> treach v start stream (tsys_init ts)"
| step: "\<lbrakk>treach v start stream \<sigma>; tstep v stream \<sigma> \<sigma>'\<rbrakk> \<Longrightarrow> treach v start stream \<sigma>'"


section \<open>The invariant\<close>

abbreviation gap_pairs :: "vb_view \<Rightarrow> (seqno \<times> seqno) list" where
  "gap_pairs w \<equiv> zip (seqno_list_1 (v_gap w)) (seqno_list_2 (v_gap w))"

fun snapshot :: "reader \<Rightarrow> seqno set" where
  "snapshot (GotSent l s) = set s"
| "snapshot (GotFiltered l s f) = set s"
| "snapshot (GotFailed l s f c) = set s"
| "snapshot _ = {}"

definition done_inv :: "seqno \<Rightarrow> seqno list \<Rightarrow> (seqno \<rightharpoonup> seqno_type) \<Rightarrow> seqno \<Rightarrow> bool" where
  "done_inv start stream ft T \<longleftrightarrow>
     dom ft \<subseteq> set stream \<and> (T = start \<or> T \<in> dom ft) \<and> (\<forall>x\<in>set stream. x \<le> T \<longrightarrow> x \<in> dom ft)"

definition list_inv :: "(seqno \<rightharpoonup> seqno_type) \<Rightarrow> seqno \<Rightarrow> seqno_type \<Rightarrow> seqno list \<Rightarrow> bool" where
  "list_inv ft T ty l \<longleftrightarrow>
     distinct l \<and> (\<forall>x\<in>set l. ft x = Some ty) \<and> (\<forall>x. T < x \<and> ft x = Some ty \<longrightarrow> x \<in> set l)"

definition snap_inv :: "(seqno \<rightharpoonup> seqno_type) \<Rightarrow> seqno_type \<Rightarrow> seqno list \<Rightarrow> bool" where
  "snap_inv ft ty l \<longleftrightarrow> sorted l \<and> (\<forall>x\<in>set l. ft x = Some ty)"

definition sent_order :: "seqno \<Rightarrow> seqno set \<Rightarrow> seqno list \<Rightarrow> bool" where
  "sent_order T S l \<longleftrightarrow> sorted_wrt (\<lambda>a b. a \<le> b \<or> T < b \<and> b \<notin> S) l"

definition gap_inv :: "seqno \<Rightarrow> seqno list \<Rightarrow> nat \<Rightarrow> seqno \<Rightarrow> (seqno \<times> seqno) list \<Rightarrow> bool" where
  "gap_inv start stream k T ps \<longleftrightarrow>
     gaps_ok ps \<and> (\<forall>x\<in>set stream. \<not> in_gap ps x) \<and>
     (\<forall>(a, b)\<in>set ps. start < a \<and> k > 0 \<and> b < stream ! (k - 1)) \<and>
     (\<forall>x. T < x \<and> k > 0 \<and> x \<le> stream ! (k - 1) \<longrightarrow> x \<in> set stream \<or> in_gap ps x)"

fun rd_inv :: "(seqno \<rightharpoonup> seqno_type) \<Rightarrow> seqno \<Rightarrow> reader \<Rightarrow> bool" where
  "rd_inv ft T Idle \<longleftrightarrow> True"
| "rd_inv ft T (GotLast l) \<longleftrightarrow> l = T"
| "rd_inv ft T (GotSent l s) \<longleftrightarrow> l = T \<and> snap_inv ft SeqnoTypeSent s"
| "rd_inv ft T (GotFiltered l s f) \<longleftrightarrow>
     l = T \<and> snap_inv ft SeqnoTypeSent s \<and> snap_inv ft SeqnoTypeFiltered f"
| "rd_inv ft T (GotFailed l s f c) \<longleftrightarrow>
     l = T \<and> snap_inv ft SeqnoTypeSent s \<and> snap_inv ft SeqnoTypeFiltered f \<and>
     snap_inv ft SeqnoTypeFailedCR c"

record ghost =
  g_received :: nat
  g_fate :: "seqno \<rightharpoonup> seqno_type"
  g_tasks :: "seqno set"
  g_rd :: reader

definition winv :: "seqno \<Rightarrow> seqno list \<Rightarrow> ghost \<Rightarrow> vb_view \<Rightarrow> bool" where
  "winv start stream g w \<longleftrightarrow>
     done_inv start stream (g_fate g) (v_through w) \<and>
     list_inv (g_fate g) (v_through w) SeqnoTypeSent (v_sent w) \<and>
     list_inv (g_fate g) (v_through w) SeqnoTypeFiltered (v_filtered w) \<and>
     list_inv (g_fate g) (v_through w) SeqnoTypeFailedCR (v_failed w) \<and>
     sent_order (v_through w) (snapshot (g_rd g)) (v_sent w) \<and>
     sorted (v_filtered w) \<and> sorted (v_failed w) \<and>
     length (seqno_list_1 (v_gap w)) = length (seqno_list_2 (v_gap w)) \<and>
     gap_inv start stream (g_received g) (v_through w) (gap_pairs w) \<and>
     g_received g \<le> length stream \<and>
     v_seen w = (if g_received g = 0 then 0 else stream ! (g_received g - 1)) \<and>
     (\<forall>t\<in>g_tasks g. t \<le> v_through w \<and> t \<in> dom (g_fate g)) \<and>
     rd_inv (g_fate g) (v_through w) (g_rd g)"

definition ghost_of :: "tsys \<Rightarrow> ghost" where
  "ghost_of \<sigma> = \<lparr>g_received = received \<sigma>, g_fate = fate \<sigma>, g_tasks = snd ` set (tasks \<sigma>), g_rd = rd \<sigma>\<rparr>"

definition tinv :: "vbno \<Rightarrow> seqno \<Rightarrow> seqno list \<Rightarrow> tsys \<Rightarrow> bool" where
  "tinv v start stream \<sigma> \<longleftrightarrow>
     (\<exists>w. view v (svc \<sigma>) = Some w \<and> winv start stream (ghost_of \<sigma>) w)"


section \<open>Preservation, one view-level step at a time\<close>

lemma winvD:
  assumes "winv start stream g w"
  shows winv_done: "done_inv start stream (g_fate g) (v_through w)"
    and winv_sent_list: "list_inv (g_fate g) (v_through w) SeqnoTypeSent (v_sent w)"
    and winv_order: "sent_order (v_through w) (snapshot (g_rd g)) (v_sent w)"
    and winv_gap: "gap_inv start stream (g_received g) (v_through w) (gap_pairs w)"
    and winv_tasks: "\<forall>t\<in>g_tasks g. t \<le> v_through w \<and> t \<in> dom (g_fate g)"
    and winv_rd: "rd_inv (g_fate g) (v_through w) (g_rd g)"
    and winv_gap_length: "length (seqno_list_1 (v_gap w)) = length (seqno_list_2 (v_gap w))"
    and winv_received: "g_received g \<le> length stream"
  using assms by (simp_all add: winv_def)

lemma stream_gt_0: "stream_ok start stream \<Longrightarrow> x \<in> set stream \<Longrightarrow> x \<noteq> 0"
  by (auto simp: stream_ok_def)

lemma undone_gt_through:
  assumes "winv start stream g w" "x \<in> set stream" "g_fate g x = None"
  shows "v_through w < x"
  using assms by (force simp: winv_def done_inv_def)

lemma list_inv_new_fate:
  assumes "list_inv ft T ty l" "ft x = None"
  shows "list_inv (ft(x \<mapsto> ty)) T ty (l @ [x])"
    and "ty' \<noteq> ty \<Longrightarrow> list_inv (ft(x \<mapsto> ty')) T ty l"
  using assms by (auto simp: list_inv_def)

lemma snap_inv_new_fate: "snap_inv ft ty l \<Longrightarrow> ft x = None \<Longrightarrow> snap_inv (ft(x \<mapsto> ty')) ty l"
  by (auto simp: snap_inv_def)

lemma rd_inv_new_fate: "rd_inv ft T r \<Longrightarrow> ft x = None \<Longrightarrow> rd_inv (ft(x \<mapsto> ty)) T r"
  by (cases r) (auto intro: snap_inv_new_fate)

lemma done_inv_new_fate:
  "done_inv start stream ft T \<Longrightarrow> x \<in> set stream \<Longrightarrow> done_inv start stream (ft(x \<mapsto> ty)) T"
  by (auto simp: done_inv_def)

lemma snapshot_done: "rd_inv ft T r \<Longrightarrow> snapshot r \<subseteq> dom ft"
  by (cases r) (auto simp: snap_inv_def)

lemmas new_fate_intros =
  list_inv_new_fate rd_inv_new_fate done_inv_new_fate

lemma winv_sent:
  assumes "winv start stream g w" "x \<in> set stream" "g_fate g x = None"
  shows "winv start stream (g\<lparr>g_fate := (g_fate g)(x \<mapsto> SeqnoTypeSent)\<rparr>) (w\<lparr>v_sent := v_sent w @ [x]\<rparr>)"
proof -
  have "v_through w < x" by (rule undone_gt_through[OF assms])
  moreover have "x \<notin> snapshot (g_rd g)"
    using assms(1,3) snapshot_done[of "g_fate g" "v_through w" "g_rd g"] by (auto simp: winv_def)
  ultimately have "sent_order (v_through w) (snapshot (g_rd g)) (v_sent w @ [x])"
    using assms(1) by (simp add: winv_def sent_order_def sorted_wrt_append)
  then show ?thesis
    using assms by (simp add: winv_def new_fate_intros)
qed

lemma sorted_append_newest:
  assumes "sorted l" "list_inv ft T ty l" "\<forall>y. ft y = Some ty \<longrightarrow> y < x"
  shows "sorted (l @ [x])"
  using assms by (auto simp: list_inv_def sorted_append intro: less_imp_le)

lemma winv_filtered:
  assumes "winv start stream g w" "x \<in> set stream" "g_fate g x = None"
    "\<forall>y. g_fate g y = Some SeqnoTypeFiltered \<longrightarrow> y < x"
  shows "winv start stream (g\<lparr>g_fate := (g_fate g)(x \<mapsto> SeqnoTypeFiltered)\<rparr>)
           (w\<lparr>v_filtered := v_filtered w @ [x]\<rparr>)"
proof -
  have "sorted (v_filtered w @ [x])"
    using assms(1,4) by (intro sorted_append_newest) (auto simp: winv_def)
  then show ?thesis using assms(1-3) by (simp add: winv_def new_fate_intros)
qed

lemma winv_failed_cr:
  assumes "winv start stream g w" "x \<in> set stream" "g_fate g x = None"
    "\<forall>y. g_fate g y = Some SeqnoTypeFailedCR \<longrightarrow> y < x"
  shows "winv start stream (g\<lparr>g_fate := (g_fate g)(x \<mapsto> SeqnoTypeFailedCR)\<rparr>)
           (w\<lparr>v_failed := v_failed w @ [x]\<rparr>)"
proof -
  have "sorted (v_failed w @ [x])"
    using assms(1,4) by (intro sorted_append_newest) (auto simp: winv_def)
  then show ?thesis using assms(1-3) by (simp add: winv_def new_fate_intros)
qed

subsection \<open>Receiving the next mutation\<close>

lemma gaps_ok_snoc:
  "gaps_ok (ps @ [(a, b)]) \<longleftrightarrow> gaps_ok ps \<and> a \<le> b \<and> (\<forall>q\<in>set ps. snd q < a)"
  by (auto simp: gaps_ok_def sorted_wrt_append)

lemma in_gap_snoc: "in_gap (ps @ [(a, b)]) x \<longleftrightarrow> in_gap ps x \<or> a \<le> x \<and> x \<le> b"
  by (auto simp: in_gap_def)

lemma stream_between:
  assumes "stream_ok start stream" "k < length stream" "x \<in> set stream" "x < stream ! k"
  shows "k > 0 \<and> x \<le> stream ! (k - 1)"
proof -
  obtain j where j: "j < length stream" "stream ! j = x"
    using assms(3) by (auto simp: in_set_conv_nth)
  have st: "sorted_wrt (<) stream" using assms(1) by (simp add: stream_ok_def)
  have "j < k"
  proof (rule ccontr)
    assume "\<not> j < k"
    then have "stream ! k \<le> stream ! j"
      using sorted_wrt_nth_less[OF st, of k j] j by (cases "k = j") auto
    with assms(4) j show False by simp
  qed
  moreover have "stream ! j \<le> stream ! (k - 1)"
  proof (cases "j = k - 1")
    case False
    with \<open>j < k\<close> have "j < k - 1" by simp
    then show ?thesis
      using assms(2) by (intro less_imp_le sorted_wrt_nth_less[OF st]) simp_all
  qed simp
  ultimately show ?thesis using j by auto
qed

definition prev_seqno :: "seqno list \<Rightarrow> nat \<Rightarrow> seqno \<Rightarrow> seqno" where
  "prev_seqno stream k T = (if k = 0 then T else stream ! (k - 1))"

lemma gap_inv_receive:
  assumes ok: "stream_ok start stream" and k: "k < length stream"
    and inv: "gap_inv start stream k T ps" and T: "start \<le> T"
  defines "L \<equiv> prev_seqno stream k T" and "c \<equiv> stream ! k"
  shows "gap_inv start stream (Suc k) T (if L < c - 1 then ps @ [(L + 1, c - 1)] else ps)"
proof -
  have st: "sorted_wrt (<) stream" using ok by (simp add: stream_ok_def)
  have cin: "c \<in> set stream" using k by (simp add: c_def)
  then have c0: "start < c" using ok by (simp add: stream_ok_def)
  then have c1: "c - 1 < c" by (rule word_dec_less(1))
  have prevlt: "k > 0 \<Longrightarrow> stream ! (k - 1) < c"
    using sorted_wrt_nth_less[OF st, of "k - 1" k] k by (simp add: c_def)
  have startL: "start \<le> L"
    using T ok k by (auto simp: L_def prev_seqno_def stream_ok_def intro: less_imp_le)
  have none: "k = 0 \<Longrightarrow> ps = []" using inv by (cases ps) (auto simp: gap_inv_def)
  have below: "\<forall>(a, b)\<in>set ps. b < L"
    using inv none by (auto simp: gap_inv_def L_def prev_seqno_def)
  have upper: "\<forall>(a, b)\<in>set ps. start < a \<and> b < c"
    using inv none prevlt by (fastforce simp: gap_inv_def)
  have compl: "x \<in> set stream \<or> in_gap ps x \<or> L < x \<and> x \<le> c - 1"
    if "T < x" "x \<le> c" for x
  proof (cases "x = c")
    case False
    with that(2) have xc: "x \<le> c - 1" by (intro word_dec_less(2)) simp
    show ?thesis
    proof (cases "L < x")
      case True with xc show ?thesis by simp
    next
      case False
      with that(1) have "k > 0" "x \<le> stream ! (k - 1)"
        by (auto simp: L_def prev_seqno_def split: if_splits)
      with inv that(1) show ?thesis by (auto simp: gap_inv_def)
    qed
  qed (use cin in simp)
  have nomid: "\<not> (L < x \<and> x \<le> c - 1)" if "x \<in> set stream" "k > 0 \<or> L < c - 1" for x
  proof
    assume x: "L < x \<and> x \<le> c - 1"
    with c1 have "x < stream ! k" unfolding c_def by (meson le_less_trans)
    from stream_between[OF ok k that(1) this] x show False
      by (auto simp: L_def prev_seqno_def)
  qed
  show ?thesis
  proof (cases "L < c - 1")
    case True
    then have L1: "L + 1 \<le> c - 1" "L < L + 1"
      using inc_le word_less_imp_not_max word_less_inc_self by blast+
    have iff: "L + 1 \<le> x \<longleftrightarrow> L < x" for x using L1(2) inc_le[of L x] by auto
    have "gaps_ok (ps @ [(L + 1, c - 1)])"
      using inv below L1 by (fastforce simp: gaps_ok_snoc gap_inv_def)
    moreover have "\<forall>x\<in>set stream. \<not> in_gap (ps @ [(L + 1, c - 1)]) x"
      using inv nomid True by (auto simp: in_gap_snoc gap_inv_def iff)
    moreover have "start < L + 1" using startL L1 by simp
    ultimately show ?thesis
      using True upper compl c1 by (auto simp: gap_inv_def in_gap_snoc iff c_def)
  next
    case False
    then have "x \<in> set stream \<or> in_gap ps x" if "T < x" "x \<le> c" for x
      using compl[OF that] by auto
    with False inv upper show ?thesis by (auto simp: gap_inv_def c_def)
  qed
qed


lemma winv_start_le:
  "stream_ok start stream \<Longrightarrow> winv start stream g w \<Longrightarrow> start \<le> v_through w"
  by (auto simp: winv_def done_inv_def stream_ok_def intro: less_imp_le)

lemma gap_step_pairs:
  assumes "length (seqno_list_1 (v_gap w)) = length (seqno_list_2 (v_gap w))"
  defines "L \<equiv> if v_seen w = 0 then v_through w else v_seen w"
  shows "gap_pairs (gap_step s w) =
           (if L < s - 1 then gap_pairs w @ [(L + 1, s - 1)] else gap_pairs w)"
    "length (seqno_list_1 (v_gap (gap_step s w))) = length (seqno_list_2 (v_gap (gap_step s w)))"
    "v_through (gap_step s w) = v_through w" "v_seen (gap_step s w) = s"
    "v_sent (gap_step s w) = v_sent w" "v_filtered (gap_step s w) = v_filtered w"
    "v_failed (gap_step s w) = v_failed w"
  using assms by (auto simp: gap_step_def appendSeqnos_def Let_def)

lemma winv_receive:
  assumes ok: "stream_ok start stream" and inv: "winv start stream g w"
    and k: "g_received g < length stream"
  shows "winv start stream (g\<lparr>g_received := Suc (g_received g)\<rparr>)
           (gap_step (stream ! g_received g) w)"
proof -
  let ?k = "g_received g"
  have len: "length (seqno_list_1 (v_gap w)) = length (seqno_list_2 (v_gap w))"
    using inv by (simp add: winv_def)
  have "?k > 0 \<Longrightarrow> stream ! (?k - 1) \<noteq> 0"
    using k by (intro stream_gt_0[OF ok]) simp
  then have L: "(if v_seen w = 0 then v_through w else v_seen w) = prev_seqno stream ?k (v_through w)"
    using inv by (auto simp: winv_def prev_seqno_def)
  have "gap_inv start stream (Suc ?k) (v_through w) (gap_pairs (gap_step (stream ! ?k) w))"
    using gap_inv_receive[OF ok k _ winv_start_le[OF ok inv], of "gap_pairs w"] inv
    unfolding gap_step_pairs(1)[OF len] L by (simp add: winv_def)
  then show ?thesis
    using inv k by (simp add: winv_def gap_step_pairs(2-)[OF len])
qed

subsection \<open>Truncating\<close>

lemma truncateSeqnos_drop:
  "truncateSeqnos t l = (case SearchUint64List l t of (i, found) \<Rightarrow>
     if found then drop (Suc i) l else drop i l)"
  by (auto simp: truncateSeqnos_def split: prod.splits)

lemma truncateGapSeqnoList_drop:
  "truncateGapSeqnoList t l = (case SearchUint64List l t of (i, found) \<Rightarrow>
     if found then None else Some (drop i l))"
  by (auto simp: truncateGapSeqnoList_def split: prod.splits)

lemma truncateSeqnos_filter:
  assumes "split_at t l" "distinct l"
  shows "truncateSeqnos t l = filter (\<lambda>x. t < x) l"
proof (cases "t \<in> set l")
  case True
  then show ?thesis
    using u64.drop_search_found[OF assms True]
    by (simp add: truncateSeqnos_drop u64.search_split[OF assms(1)])
next
  case False
  then show ?thesis
    using u64.drop_search_not_found[OF assms(1) False]
    by (simp add: truncateSeqnos_drop u64.search_split[OF assms(1)])
qed

lemma sent_order_split_at: "sent_order T S l \<Longrightarrow> t \<le> T \<Longrightarrow> split_at t l"
  unfolding sent_order_def split_at_def by (rule sorted_wrt_mono_rel) auto

lemma list_inv_filter:
  "list_inv ft T ty l \<Longrightarrow> t \<le> T \<Longrightarrow> list_inv ft T ty (filter (\<lambda>x. t < x) l)"
  by (auto simp: list_inv_def)

lemma truncateGapSeqnoList_filter:
  assumes "sorted l" "t \<notin> set l"
  shows "truncateGapSeqnoList t l = Some (filter (\<lambda>x. t < x) l)"
  using u64.drop_search_not_found[OF sorted_split_at[OF assms(1)] assms(2)] assms(2)
  by (simp add: truncateGapSeqnoList_drop u64.search_sorted[OF assms(1)])

lemma truncateDual_filter:
  assumes "length (seqno_list_1 d) = length (seqno_list_2 d)"
    "gaps_ok (zip (seqno_list_1 d) (seqno_list_2 d))"
    "\<not> in_gap (zip (seqno_list_1 d) (seqno_list_2 d)) t"
  defines "ps \<equiv> filter (\<lambda>p. t < fst p) (zip (seqno_list_1 d) (seqno_list_2 d))"
  shows "truncateDualSeqnos t d = Some (d\<lparr>seqno_list_1 := map fst ps, seqno_list_2 := map snd ps\<rparr>)"
proof -
  let ?qs = "zip (seqno_list_1 d) (seqno_list_2 d)"
  have l: "seqno_list_1 d = map fst ?qs" "seqno_list_2 d = map snd ?qs" using assms(1) by simp_all
  have srt: "sorted (map fst ?qs)" "sorted (map snd ?qs)"
    using gaps_ok_sorted[OF assms(2)] by simp_all
  have notin: "t \<notin> set (map fst ?qs)" "t \<notin> set (map snd ?qs)"
    using assms(3) gaps_ok_range[OF assms(2)] by (force simp: in_gap_def)+
  have "t < fst p \<longleftrightarrow> t < snd p" if "p \<in> set ?qs" for p
  proof -
    obtain a b where p: "p = (a, b)" by (cases p)
    with that gaps_ok_range[OF assms(2)] have "a \<le> b" by blast
    moreover have "\<not> (a \<le> t \<and> t \<le> b)" using assms(3) that p by (auto simp: in_gap_def)
    ultimately show ?thesis using p by auto
  qed
  then have ps: "ps = filter (\<lambda>p. t < snd p) ?qs"
    unfolding ps_def by (intro filter_cong) auto
  have "truncateGapSeqnoList t (map fst ?qs) = Some (map fst ps)"
    using truncateGapSeqnoList_filter[OF srt(1) notin(1)] by (simp add: ps_def filter_map o_def)
  moreover have "truncateGapSeqnoList t (map snd ?qs) = Some (map snd ps)"
    using truncateGapSeqnoList_filter[OF srt(2) notin(2)] by (simp add: ps filter_map o_def)
  ultimately show ?thesis
    unfolding truncateDualSeqnos_def by (subst (1) l, subst (2) l) simp
qed

lemma gap_inv_filter:
  assumes "gap_inv start stream k T ps" "t \<le> T" "t \<in> set stream"
  shows "gap_inv start stream k T (filter (\<lambda>p. t < fst p) ps)"
proof -
  have keep: "in_gap (filter (\<lambda>p. t < fst p) ps) x" if g: "in_gap ps x" and x: "T < x" for x
  proof -
    obtain a b where ab: "(a, b) \<in> set ps" "a \<le> x" "x \<le> b"
      using g by (auto simp: in_gap_def)
    have "\<not> in_gap ps t" using assms by (auto simp: gap_inv_def)
    with ab(1) have "\<not> (a \<le> t \<and> t \<le> b)" by (auto simp: in_gap_def)
    with ab(3) assms(2) x have "t < a" by auto
    with ab show ?thesis by (force simp: in_gap_def)
  qed
  have "gaps_ok (filter (\<lambda>p. t < fst p) ps)"
    using assms(1) by (auto simp: gap_inv_def gaps_ok_def sorted_wrt_filter)
  moreover have "in_gap (filter (\<lambda>p. t < fst p) ps) x \<Longrightarrow> in_gap ps x" for x
    by (auto simp: in_gap_def)
  ultimately show ?thesis using assms(1) keep by (auto simp: gap_inv_def)
qed


text \<open>The view after one stage of a pending truncation.\<close>

fun trunc_view :: "trunc_stage \<Rightarrow> seqno \<Rightarrow> vb_view \<Rightarrow> vb_view" where
  "trunc_view TruncSent t w = w\<lparr>v_sent := filter (\<lambda>x. t < x) (v_sent w)\<rparr>"
| "trunc_view TruncFiltered t w = w\<lparr>v_filtered := filter (\<lambda>x. t < x) (v_filtered w)\<rparr>"
| "trunc_view TruncFailedCR t w = w\<lparr>v_failed := filter (\<lambda>x. t < x) (v_failed w)\<rparr>"
| "trunc_view TruncGap t w = (let ps = filter (\<lambda>p. t < fst p) (gap_pairs w) in
     w\<lparr>v_gap := (v_gap w)\<lparr>seqno_list_1 := map fst ps, seqno_list_2 := map snd ps\<rparr>\<rparr>)"

lemma task_facts:
  assumes "winv start stream g w" "t \<in> g_tasks g"
  shows "t \<le> v_through w" "t \<in> set stream" "\<not> in_gap (gap_pairs w) t"
proof -
  show "t \<le> v_through w" using winv_tasks[OF assms(1)] assms(2) by blast
  show "t \<in> set stream"
    using winv_tasks[OF assms(1)] winv_done[OF assms(1)] assms(2) unfolding done_inv_def by blast
  then show "\<not> in_gap (gap_pairs w) t" using winv_gap[OF assms(1)] by (simp add: gap_inv_def)
qed

lemma truncate_stage_trunc_view:
  assumes inv: "winv start stream g w" and t: "t \<in> g_tasks g" and w: "view v ts = Some w"
  shows "\<exists>ts'. truncate_stage st v t ts = Some ts' \<and> view v ts' = Some (trunc_view st t w)"
proof -
  note tf = task_facts[OF inv t]
  have sent: "truncateSeqnos t (v_sent w) = filter (\<lambda>x. t < x) (v_sent w)"
    using inv tf(1) by (intro truncateSeqnos_filter) (auto simp: winv_def list_inv_def intro: sent_order_split_at)
  have filt: "truncateSeqnos t (v_filtered w) = filter (\<lambda>x. t < x) (v_filtered w)"
    using inv by (intro truncateSeqnos_filter sorted_split_at) (auto simp: winv_def list_inv_def)
  have fail: "truncateSeqnos t (v_failed w) = filter (\<lambda>x. t < x) (v_failed w)"
    using inv by (intro truncateSeqnos_filter sorted_split_at) (auto simp: winv_def list_inv_def)
  have gap: "truncateDualSeqnos t (v_gap w) = Some (v_gap (trunc_view TruncGap t w))"
    using inv tf(3) truncateDual_filter[of "v_gap w" t] by (auto simp: winv_def gap_inv_def Let_def)
  show ?thesis
    using truncate_stage_view(1)[OF w, of t] truncate_stage_view(2)[OF w, of t]
      truncate_stage_view(3)[OF w, of t] truncate_stage_view(4)[OF w gap]
    by (cases st) (auto simp: sent filt fail Let_def)
qed

lemma sent_order_filter: "sent_order T S l \<Longrightarrow> sent_order T S (filter P l)"
  by (simp add: sent_order_def sorted_wrt_filter)

lemma winv_truncate:
  assumes inv: "winv start stream g w" and t: "t \<in> g_tasks g"
  shows "winv start stream g (trunc_view st t w)"
proof -
  note tf = task_facts[OF inv t]
  show ?thesis
  proof (cases st)
    case TruncSent
    then show ?thesis
      using inv tf(1) by (simp add: winv_def list_inv_filter sent_order_filter)
  next
    case TruncFiltered
    then show ?thesis
      using inv tf(1) by (simp add: winv_def list_inv_filter sorted_wrt_filter)
  next
    case TruncFailedCR
    then show ?thesis
      using inv tf(1) by (simp add: winv_def list_inv_filter sorted_wrt_filter)
  next
    case TruncGap
    then show ?thesis
      using inv gap_inv_filter[OF winv_gap[OF inv] tf(1,2)]
      by (simp add: winv_def Let_def zip_map_fst_snd)
  qed
qed

lemma winv_fewer_tasks: "winv start stream g w \<Longrightarrow> A \<subseteq> g_tasks g \<Longrightarrow> winv start stream (g\<lparr>g_tasks := A\<rparr>) w"
  unfolding winv_def by (simp add: subset_iff)

subsection \<open>Reading the lists\<close>

lemma sent_order_sorted: "sorted l \<Longrightarrow> sent_order T S l"
  unfolding sent_order_def by (erule sorted_wrt_mono_rel[rotated]) simp

lemma winv_read_sent:
  assumes "winv start stream g w" "g_rd g = GotLast l"
  shows "winv start stream (g\<lparr>g_rd := GotSent l (sort (v_sent w))\<rparr>) (w\<lparr>v_sent := sort (v_sent w)\<rparr>)"
proof -
  have "snap_inv (g_fate g) SeqnoTypeSent (sort (v_sent w))"
    using winv_sent_list[OF assms(1)] by (simp add: list_inv_def snap_inv_def)
  moreover have "list_inv ft T ty (sort xs) = list_inv ft T ty xs" for ft T ty xs
    by (simp add: list_inv_def)
  ultimately show ?thesis
    using assms by (simp add: winv_def sent_order_sorted)
qed

lemma winv_read_last:
  "winv start stream g w \<Longrightarrow> g_rd g = Idle \<Longrightarrow>
     winv start stream (g\<lparr>g_rd := GotLast (v_through w)\<rparr>) w"
  by (simp add: winv_def)

lemma winv_read_filtered:
  assumes "winv start stream g w" "g_rd g = GotSent l s"
  shows "winv start stream (g\<lparr>g_rd := GotFiltered l s (v_filtered w)\<rparr>) w"
proof -
  have "snap_inv (g_fate g) SeqnoTypeFiltered (v_filtered w)"
    using assms(1) unfolding winv_def snap_inv_def list_inv_def by blast
  with assms show ?thesis by (simp add: winv_def)
qed

lemma winv_read_failed:
  assumes "winv start stream g w" "g_rd g = GotFiltered l s f"
  shows "winv start stream (g\<lparr>g_rd := GotFailed l s f (v_failed w)\<rparr>) w"
proof -
  have "snap_inv (g_fate g) SeqnoTypeFailedCR (v_failed w)"
    using assms(1) unfolding winv_def snap_inv_def list_inv_def by blast
  with assms show ?thesis by (simp add: winv_def)
qed

lemma winv_give_up:
  assumes "winv start stream g w"
  shows "winv start stream (g\<lparr>g_rd := Idle\<rparr>) w"
proof -
  have "sent_order (v_through w) {} (v_sent w)"
    using winv_order[OF assms] unfolding sent_order_def
    by (rule sorted_wrt_mono_rel[rotated]) auto
  with assms show ?thesis by (simp add: winv_def)
qed

text \<open>The lists a finishing computation works on are well formed.\<close>

definition read_lists :: "vb_view \<Rightarrow> seqno list \<Rightarrow> seqno list \<Rightarrow> seqno list \<Rightarrow> seqno_lists" where
  "read_lists w s f c = \<lparr>sent_list = s, filtered_list = f, failed_cr_list = c,
     gap_list_1 = seqno_list_1 (v_gap w), gap_list_2 = seqno_list_2 (v_gap w)\<rparr>"

lemma read_lists_gaps [simp]: "gaps (read_lists w s f c) = gap_pairs w"
  by (simp add: gaps_def read_lists_def)

lemma covered_done:
  assumes "snap_inv ft SeqnoTypeSent s" "snap_inv ft SeqnoTypeFiltered f" "snap_inv ft SeqnoTypeFailedCR c"
    "covered (read_lists w s f c) x"
  shows "x \<in> dom ft" "ft x = Some SeqnoTypeSent \<Longrightarrow> x \<in> set s"
  using assms by (auto simp: covered_def read_lists_def snap_inv_def)

lemma read_lists_ok:
  assumes ok: "stream_ok start stream" and inv: "winv start stream g w"
    and rd: "g_rd g = GotFailed l s f c"
  shows "lists_ok (read_lists w s f c)"
proof -
  have snaps: "snap_inv (g_fate g) SeqnoTypeSent s" "snap_inv (g_fate g) SeqnoTypeFiltered f"
    "snap_inv (g_fate g) SeqnoTypeFailedCR c" using inv rd by (simp_all add: winv_def)
  have cov: "covered (read_lists w s f c) x \<Longrightarrow> x \<in> set stream" for x
    using covered_done(1)[OF snaps] inv by (auto simp: winv_def done_inv_def)
  have "gap_inv start stream (g_received g) (v_through w) (gap_pairs w)"
    using inv by (simp add: winv_def)
  then have g: "gaps_ok (gap_pairs w)" "\<forall>x\<in>set stream. \<not> in_gap (gap_pairs w) x"
    "\<not> in_gap (gap_pairs w) 0"
    by (auto simp: gap_inv_def in_gap_def)
  have "\<not> covered (read_lists w s f c) 0" using cov stream_gt_0[OF ok] by blast
  with g cov snaps inv show ?thesis
    by (auto simp: lists_ok_def snap_inv_def winv_def) (simp_all add: read_lists_def)
qed

lemma winv_finish:
  assumes ok: "stream_ok start stream" and inv: "winv start stream g w"
    and rd: "g_rd g = GotFailed l s f c"
    and thr: "is_through (read_lists w s f c) l r True"
  shows "winv start stream (g\<lparr>g_tasks := insert r (g_tasks g), g_rd := Idle\<rparr>) (w\<lparr>v_through := r\<rparr>)"
proof -
  let ?ls = "read_lists w s f c"
  have l: "l = v_through w" and snaps: "snap_inv (g_fate g) SeqnoTypeSent s"
    "snap_inv (g_fate g) SeqnoTypeFiltered f" "snap_inv (g_fate g) SeqnoTypeFailedCR c"
    using inv rd by (simp_all add: winv_def)
  note cd = covered_done[OF snaps]
  have lr: "v_through w < r" "covered ?ls r"
    and upto: "\<And>x. v_through w < x \<Longrightarrow> x \<le> r \<Longrightarrow> covered ?ls x \<or> in_gap (gap_pairs w) x"
    using thr by (auto simp: is_through_def l)
  have nogap: "x \<in> set stream \<Longrightarrow> \<not> in_gap (gap_pairs w) x" for x
    using winv_gap[OF inv] by (auto simp: gap_inv_def)
  have upto': "covered ?ls x" if "x \<in> set stream" "v_through w < x" "x \<le> r" for x
    using upto[OF that(2,3)] nogap[OF that(1)] by blast
  have "x \<in> dom (g_fate g)" if "x \<in> set stream" "x \<le> r" for x
    using winv_done[OF inv] cd(1)[OF upto'[OF that(1) _ that(2)]] that(1)
    unfolding done_inv_def by (cases "x \<le> v_through w") auto
  then have "done_inv start stream (g_fate g) r"
    using winv_done[OF inv] cd(1)[OF lr(2)] unfolding done_inv_def by blast
  moreover have "sent_order r {} (v_sent w)"
  proof -
    have so: "sent_order (v_through w) (set s) (v_sent w)" using winv_order[OF inv] rd by simp
    have later: "r < b" if b: "b \<in> set (v_sent w)" "v_through w < b" "b \<notin> set s" for b
    proof (rule ccontr)
      assume "\<not> r < b"
      have fb: "g_fate g b = Some SeqnoTypeSent"
        using winv_sent_list[OF inv] b(1) by (simp add: list_inv_def)
      then have "b \<in> set stream" using winv_done[OF inv] by (auto simp: done_inv_def)
      with b(2) \<open>\<not> r < b\<close> have "covered ?ls b" by (intro upto') simp_all
      from cd(2)[OF this fb] b(3) show False by simp
    qed
    show ?thesis
      unfolding sent_order_def
      by (rule sorted_wrt_mono_rel[OF _ so[unfolded sent_order_def]]) (use later in blast)
  qed
  moreover have "list_inv (g_fate g) r ty m" if "list_inv (g_fate g) (v_through w) ty m" for ty m
    using that less_trans[OF lr(1)] unfolding list_inv_def by blast
  moreover have "gap_inv start stream (g_received g) r (gap_pairs w)"
    using winv_gap[OF inv] less_trans[OF lr(1)] unfolding gap_inv_def by blast
  moreover have "\<forall>t\<in>insert r (g_tasks g). t \<le> r \<and> t \<in> dom (g_fate g)"
    using winv_tasks[OF inv] lr(1) cd(1)[OF lr(2)] by auto
  ultimately show ?thesis using inv by (simp add: winv_def)
qed


section \<open>Activity on other vbuckets\<close>

lemma view_cong:
  assumes "vb_map ts' v = vb_map ts v" "through_seqno_map ts' v = through_seqno_map ts v"
    "vb_last_seen_seqno_map ts' v = vb_last_seen_seqno_map ts v"
    "vb_sent_seqno_list_map ts' v = vb_sent_seqno_list_map ts v"
    "vb_filtered_seqno_list_map ts' v = vb_filtered_seqno_list_map ts v"
    "vb_failed_cr_seqno_list_map ts' v = vb_failed_cr_seqno_list_map ts v"
    "vb_gap_seqno_list_map ts' v = vb_gap_seqno_list_map ts v"
  shows "view v ts' = view v ts"
  using assms by (simp add: view_def)

lemma validateVbno_fields [simp]:
  "vb_map (validateVbno u ts) = vb_map ts"
  "through_seqno_map (validateVbno u ts) = through_seqno_map ts"
  "vb_last_seen_seqno_map (validateVbno u ts) = vb_last_seen_seqno_map ts"
  "vb_sent_seqno_list_map (validateVbno u ts) = vb_sent_seqno_list_map ts"
  "vb_filtered_seqno_list_map (validateVbno u ts) = vb_filtered_seqno_list_map ts"
  "vb_failed_cr_seqno_list_map (validateVbno u ts) = vb_failed_cr_seqno_list_map ts"
  "vb_gap_seqno_list_map (validateVbno u ts) = vb_gap_seqno_list_map ts"
  by (simp_all add: validateVbno_def split: option.splits)

lemma addSentSeqno_frame: "addSentSeqno u s ts = Some ts' \<Longrightarrow> u \<noteq> v \<Longrightarrow> view v ts' = view v ts"
  by (rule view_cong) (auto simp: addSentSeqno_def Let_def bind_eq_Some_conv)

lemma addFilteredSeqno_frame: "addFilteredSeqno u s ts = Some ts' \<Longrightarrow> u \<noteq> v \<Longrightarrow> view v ts' = view v ts"
  by (rule view_cong) (auto simp: addFilteredSeqno_def Let_def bind_eq_Some_conv)

lemma addFailedCRSeqno_frame: "addFailedCRSeqno u s ts = Some ts' \<Longrightarrow> u \<noteq> v \<Longrightarrow> view v ts' = view v ts"
  by (rule view_cong) (auto simp: addFailedCRSeqno_def Let_def bind_eq_Some_conv)

lemma processGapSeqnos_frame: "processGapSeqnos u s ts = Some ts' \<Longrightarrow> u \<noteq> v \<Longrightarrow> view v ts' = view v ts"
  by (rule view_cong) (auto simp: processGapSeqnos_def Let_def bind_eq_Some_conv split: if_splits)

lemma truncate_stage_frame: "truncate_stage st u t ts = Some ts' \<Longrightarrow> u \<noteq> v \<Longrightarrow> view v ts' = view v ts"
  by (rule view_cong; cases st) (auto simp: bind_eq_Some_conv)

lemma SetStartSeqno_frame: "SetStartSeqno u s ts = Some ts' \<Longrightarrow> u \<noteq> v \<Longrightarrow> view v ts' = view v ts"
  by (rule view_cong) (auto simp: SetStartSeqno_def Let_def split: option.splits)

lemma GetThroughSeqno_frame:
  "GetThroughSeqno u ts = Some (r, ts', tr) \<Longrightarrow> u \<noteq> v \<Longrightarrow> view v ts' = view v ts"
  by (rule view_cong)
     (auto simp: GetThroughSeqno_def Let_def bind_eq_Some_conv getSortedSeqnoList_def split: if_splits)

lemma ProcessEvent_frame:
  assumes "ProcessEvent e ts = Some ts'" "event_vb e \<noteq> Some v"
  shows "view v ts' = view v ts"
  using assms
  by (cases "(e, ts)" rule: ProcessEvent.cases)
     (auto simp: markUprEventAsFiltered_def split: option.splits if_splits
       dest: addSentSeqno_frame addFilteredSeqno_frame addFailedCRSeqno_frame processGapSeqnos_frame)


section \<open>Reachable states\<close>

lemma tinv_init:
  assumes "stream_ok start stream" "view v ts = Some (start_view start)"
  shows "tinv v start stream (tsys_init ts)"
proof -
  have "\<not> x \<le> start" if "x \<in> set stream" for x
    using assms(1) that by (auto simp: stream_ok_def)
  then have "winv start stream (ghost_of (tsys_init ts)) (start_view start)"
    by (auto simp: winv_def done_inv_def list_inv_def sent_order_def gap_inv_def start_view_def
        ghost_of_def tsys_init_def newDualSortedSeqnoList_def)
  with assms(2) show ?thesis by (auto simp: tinv_def tsys_init_def)
qed

lemma set_advance_task:
  assumes "i < length ts"
  shows "snd ` set (advance_task i ts) \<subseteq> snd ` set ts"
proof -
  have mem: "snd (ts ! i) \<in> snd ` set ts" using assms by simp
  have "snd ` set (ts[i := (st, snd (ts ! i))]) \<subseteq> snd ` insert (st, snd (ts ! i)) (set ts)" for st
    by (intro image_mono set_update_subset_insert)
  also have "snd ` insert (st, snd (ts ! i)) (set ts) = snd ` set ts" for st :: trunc_stage
    using mem by auto
  finally have upd: "snd ` set (ts[i := (st, snd (ts ! i))]) \<subseteq> snd ` set ts" for st .
  have "snd ` set (take i ts @ drop (Suc i) ts) \<subseteq> snd ` set ts"
    by (auto dest: in_set_takeD in_set_dropD)
  with upd show ?thesis by (cases "next_stage (fst (ts ! i))") (simp_all add: advance_task_def)
qed

lemma markFiltered_view:
  assumes "view v ts = Some w" "e = DataFiltered (Some (v, x)) \<or> e = DataUnableToFilter OtherFilterError (Some (v, x))"
  shows "\<exists>ts'. ProcessEvent e ts = Some ts' \<and> view v ts' = Some (w\<lparr>v_filtered := v_filtered w @ [x]\<rparr>)"
  using assms addFilteredSeqno_view[OF assms(1), of x]
  by (auto simp: markUprEventAsFiltered_def FilterErrorIsRecoverable_def)

lemma tinv_step:
  assumes ok: "stream_ok start stream" and inv: "tinv v start stream \<sigma>" and st: "tstep v stream \<sigma> \<sigma>'"
  shows "tinv v start stream \<sigma>'"
proof -
  obtain w where w: "view v (svc \<sigma>) = Some w" and wi: "winv start stream (ghost_of \<sigma>) w"
    using inv by (auto simp: tinv_def)
  have frame: "tinv v start stream (\<sigma>\<lparr>svc := ts'\<rparr>)" if "view v ts' = view v (svc \<sigma>)" for ts'
    using that w wi by (auto simp: tinv_def ghost_of_def)
  have intro: "tinv v start stream \<sigma>'"
    if "view v (svc \<sigma>') = Some w'" "winv start stream (ghost_of \<sigma>') w'" for w'
    using that by (auto simp: tinv_def)
  from st show ?thesis
  proof cases
    case (receive ts')
    have "view v ts' = Some (gap_step (stream ! received \<sigma>) w)"
      using processGapSeqnos_view[OF w, of "stream ! received \<sigma>"] receive by auto
    with receive winv_receive[OF ok wi] show ?thesis
      by (intro intro) (simp_all add: ghost_of_def)
  next
    case (sent x ts')
    have "view v ts' = Some (w\<lparr>v_sent := v_sent w @ [x]\<rparr>)"
      using addSentSeqno_view[OF w, of x] sent by auto
    with sent winv_sent[OF wi, of x] show ?thesis
      by (intro intro) (simp_all add: ghost_of_def)
  next
    case (filtered x e ts')
    have "view v ts' = Some (w\<lparr>v_filtered := v_filtered w @ [x]\<rparr>)"
      using markFiltered_view[OF w, of e x] filtered by auto
    with filtered winv_filtered[OF wi, of x] show ?thesis
      by (intro intro) (simp_all add: ghost_of_def)
  next
    case (filter_retry x ts')
    then show ?thesis using frame by (simp add: FilterErrorIsRecoverable_def)
  next
    case (failed_cr x ts')
    have "view v ts' = Some (w\<lparr>v_failed := v_failed w @ [x]\<rparr>)"
      using addFailedCRSeqno_view[OF w, of x] failed_cr by auto
    with failed_cr winv_failed_cr[OF wi, of x] show ?thesis
      by (intro intro) (simp_all add: ghost_of_def)
  next
    case (read_last l)
    then have "l = v_through w" using w by (simp add: view_Some_iff)
    with read_last w winv_read_last[OF wi] show ?thesis
      by (intro intro) (simp_all add: ghost_of_def)
  next
    case (read_sent l s0 s s')
    then have "view v (svc \<sigma>') = Some (w\<lparr>v_sent := sort (v_sent w)\<rparr>)" "s = sort (v_sent w)"
      using w by (auto simp: view_Some_iff getSortedSeqnoList_def SortUint64List_def Let_def)
    with read_sent(1,2) winv_read_sent[OF wi, of l] show ?thesis
      by (intro intro) (simp_all add: ghost_of_def)
  next
    case (read_filtered l s f0 f f')
    then have "f = v_filtered w" using w by (simp add: view_Some_iff getSortedSeqnoList_def)
    with read_filtered w winv_read_filtered[OF wi, of l s] show ?thesis
      by (intro intro) (simp_all add: ghost_of_def)
  next
    case (read_failed l s f c0 c c')
    then have "c = v_failed w" using w by (simp add: view_Some_iff getSortedSeqnoList_def)
    with read_failed w winv_read_failed[OF wi, of l s f] show ?thesis
      by (intro intro) (simp_all add: ghost_of_def)
  next
    case (finish l s f c d g1 g2 r found)
    let ?ls = "read_lists w s f c"
    have "d = v_gap w" using finish w by (simp add: view_Some_iff)
    with finish have eq: "compute_through ?ls l = Some (r, found)"
      by (auto simp: getSortedSeqnoLists_def read_lists_def split: if_splits)
    have rd: "g_rd (ghost_of \<sigma>) = GotFailed l s f c" using finish by (simp add: ghost_of_def)
    have thr: "is_through ?ls l r found"
      using compute_through_correct[OF read_lists_ok[OF ok wi rd], of l] eq by auto
    show ?thesis
    proof (cases found)
      case True
      with thr have "winv start stream (ghost_of \<sigma>') (w\<lparr>v_through := r\<rparr>)"
        using winv_finish[OF ok wi rd] finish by (simp add: ghost_of_def)
      moreover have "view v (svc \<sigma>') = Some (w\<lparr>v_through := r\<rparr>)"
        using True finish w by (simp add: view_Some_iff)
      ultimately show ?thesis by (auto simp: tinv_def)
    next
      case False
      with finish w winv_give_up[OF wi] show ?thesis
        by (intro intro) (simp_all add: ghost_of_def)
    qed
  next
    case (truncate i st t ts')
    have t: "t \<in> g_tasks (ghost_of \<sigma>)" using truncate by (force simp: ghost_of_def in_set_conv_nth)
    have "view v ts' = Some (trunc_view st t w)"
      using truncate_stage_trunc_view[OF wi t w, of st] truncate by auto
    moreover have "winv start stream (ghost_of \<sigma>') (trunc_view st t w)"
      using winv_fewer_tasks[OF winv_truncate[OF wi t], of "g_tasks (ghost_of \<sigma>')" st] truncate
        set_advance_task[of i "tasks \<sigma>"] by (simp add: ghost_of_def)
    ultimately show ?thesis using truncate by (auto simp: tinv_def)
  qed (auto intro!: frame dest: ProcessEvent_frame GetThroughSeqno_frame truncate_stage_frame
      SetStartSeqno_frame)
qed


lemma treach_tinv:
  assumes "treach v start stream \<sigma>" "stream_ok start stream"
  shows "tinv v start stream \<sigma>"
  using assms by induction (auto intro: tinv_init tinv_step)

end
