(* ===== verification/Through_Seqno_Safety.thy ===== *)
theory Through_Seqno_Safety
  imports Through_Seqno_System
begin

text \<open>
  The guarantees of the through-seqno tracker, read off the invariant of
  \<open>Through_Seqno_System\<close>: safety of the through sequence number, progress of
  \<open>GetThroughSeqno\<close>, monotonicity and the absence of panics.
\<close>

lemma idle_through:
  assumes ok: "stream_ok start stream" and inv: "winv start stream g w" and rd: "g_rd g = Idle"
  shows "\<exists>r found. compute_through (read_lists w (sort (v_sent w)) (v_filtered w) (v_failed w)) (v_through w)
             = Some (r, found) \<and>
           is_through (read_lists w (sort (v_sent w)) (v_filtered w) (v_failed w)) (v_through w) r found"
proof -
  note a = winv_read_sent[OF winv_read_last[OF inv rd], simplified]
  note b = winv_read_failed[OF winv_read_filtered[OF a, simplified], simplified]
  from read_lists_ok[OF ok b]
  have "lists_ok (read_lists w (sort (v_sent w)) (v_filtered w) (v_failed w))"
    by (simp add: read_lists_def)
  then show ?thesis by (rule compute_through_correct)
qed

lemma covered_if_done:
  assumes inv: "winv start stream g w" and x: "v_through w < x" "x \<in> dom (g_fate g)"
  shows "covered (read_lists w (sort (v_sent w)) (v_filtered w) (v_failed w)) x"
proof -
  obtain ty where "g_fate g x = Some ty" using x(2) by blast
  then have "x \<in> set (v_sent w) \<or> x \<in> set (v_filtered w) \<or> x \<in> set (v_failed w)"
    using inv x(1) unfolding winv_def list_inv_def by (cases ty) blast+
  then show ?thesis by (simp add: covered_def read_lists_def)
qed

lemma GetThroughSeqno_compute:
  assumes w: "view v ts = Some w"
    and len: "length (seqno_list_1 (v_gap w)) = length (seqno_list_2 (v_gap w))"
    and c: "compute_through (read_lists w (sort (v_sent w)) (v_filtered w) (v_failed w)) (v_through w)
              = Some (r, found)"
  shows "\<exists>ts' tr. GetThroughSeqno v ts = Some (r, ts', tr) \<and>
    through_seqno_map ts' v = Some (if found then r else v_through w)"
  using c len validateVbno_known[OF w] w
  by (simp add: GetThroughSeqno_def view_Some_iff getSortedSeqnoList_def SortUint64List_def
      getSortedSeqnoLists_def read_lists_def Let_def)

text \<open>
  A whole call of \<open>GetThroughSeqno\<close> is a run of the steps the system splits it into:
  it stores the number it returns and leaves the truncation up to it pending.
\<close>

definition after_get :: "ThroughSeqnoTrackerSvc \<Rightarrow> seqno option \<Rightarrow> tsys \<Rightarrow> tsys" where
  "after_get ts' tr \<sigma> = \<sigma>\<lparr>svc := ts', tasks := tasks \<sigma> @ (case tr of None \<Rightarrow> [] | Some t \<Rightarrow> [(TruncSent, t)]),
     rd := Idle\<rparr>"

lemma GetThroughSeqno_run:
  assumes w: "view v (svc \<sigma>) = Some w" and rd: "rd \<sigma> = Idle"
    and get: "GetThroughSeqno v (svc \<sigma>) = Some (r, ts', tr)"
  shows "(tstep v stream)\<^sup>*\<^sup>* \<sigma> (after_get ts' tr \<sigma>)"
proof -
  let ?sorted = "sort (v_sent w)"
  define \<sigma>1 where "\<sigma>1 = \<sigma>\<lparr>rd := GotLast (v_through w)\<rparr>"
  define \<sigma>2 where "\<sigma>2 = \<sigma>1\<lparr>svc := (svc \<sigma>)\<lparr>vb_sent_seqno_list_map := (vb_sent_seqno_list_map (svc \<sigma>))(v \<mapsto> ?sorted)\<rparr>,
    rd := GotSent (v_through w) ?sorted\<rparr>"
  define \<sigma>3 where "\<sigma>3 = \<sigma>2\<lparr>rd := GotFiltered (v_through w) ?sorted (v_filtered w)\<rparr>"
  define \<sigma>4 where "\<sigma>4 = \<sigma>3\<lparr>rd := GotFailed (v_through w) ?sorted (v_filtered w) (v_failed w)\<rparr>"
  note maps = w[unfolded view_Some_iff]
  obtain g1 g2 found where f: "getSortedSeqnoLists (v_gap w) = Some (g1, g2)"
    "compute_through \<lparr>sent_list = ?sorted, filtered_list = v_filtered w, failed_cr_list = v_failed w,
       gap_list_1 = g1, gap_list_2 = g2\<rparr> (v_through w) = Some (r, found)"
    "ts' = (if found then (svc \<sigma>2)\<lparr>through_seqno_map := (through_seqno_map (svc \<sigma>))(v \<mapsto> r)\<rparr> else svc \<sigma>2)"
    "tr = (if found then Some r else None)"
    using get maps validateVbno_known[OF w]
    by (auto simp: GetThroughSeqno_def getSortedSeqnoList_def SortUint64List_def bind_eq_Some_conv Let_def \<sigma>2_def \<sigma>1_def)
  have "tstep v stream \<sigma> \<sigma>1" unfolding \<sigma>1_def using maps rd by (intro tstep.read_last) simp_all
  moreover have "tstep v stream \<sigma>1 \<sigma>2"
    using tstep.read_sent[of \<sigma>1 "v_through w" v "v_sent w" ?sorted ?sorted stream] maps
    by (simp add: \<sigma>1_def \<sigma>2_def getSortedSeqnoList_def SortUint64List_def Let_def)
  moreover have "tstep v stream \<sigma>2 \<sigma>3" unfolding \<sigma>3_def
    using maps by (intro tstep.read_filtered) (auto simp: \<sigma>2_def \<sigma>1_def getSortedSeqnoList_def)
  moreover have "tstep v stream \<sigma>3 \<sigma>4" unfolding \<sigma>4_def
    using maps by (intro tstep.read_failed) (auto simp: \<sigma>3_def \<sigma>2_def \<sigma>1_def getSortedSeqnoList_def)
  moreover have "tstep v stream \<sigma>4 (after_get ts' tr \<sigma>)"
    using tstep.finish[of \<sigma>4 "v_through w" ?sorted "v_filtered w" "v_failed w" v "v_gap w" g1 g2 r found stream] maps f rd
    by (cases found) (simp_all add: after_get_def \<sigma>4_def \<sigma>3_def \<sigma>2_def \<sigma>1_def)
  ultimately show ?thesis by (meson converse_rtranclp_into_rtranclp rtranclp.rtrancl_refl)
qed

lemma treach_steps: "(tstep v stream)\<^sup>*\<^sup>* \<sigma> \<sigma>' \<Longrightarrow> treach v start stream \<sigma> \<Longrightarrow> treach v start stream \<sigma>'"
  by (induction rule: rtranclp_induct) (auto intro: treach.step)

lemma progress_view:
  assumes ok: "stream_ok start stream" and inv: "winv start stream g w"
    and thr: "is_through (read_lists w (sort (v_sent w)) (v_filtered w) (v_failed w)) (v_through w) r found"
    and y: "y \<in> set (take (g_received g) stream)" "\<forall>x\<in>set stream. x \<le> y \<longrightarrow> x \<in> dom (g_fate g)"
  shows "y \<le> r"
proof (rule ccontr)
  let ?ls = "read_lists w (sort (v_sent w)) (v_filtered w) (v_failed w)"
  assume "\<not> y \<le> r"
  then have ry: "r < y" by simp
  have T: "v_through w \<le> r" using thr by (simp add: is_through_def)
  have ys: "y \<in> set stream" using y(1) by (rule in_set_takeD)
  obtain j where j: "j < g_received g" "j < length stream" "y = stream ! j"
    using y(1) by (auto simp: in_set_conv_nth)
  have kpos: "g_received g - 1 < length stream" "g_received g > 0"
    using winv_received[OF inv] j by auto
  have ylast: "y \<le> stream ! (g_received g - 1)"
  proof (cases "j = g_received g - 1")
    case False
    then show ?thesis
      using j kpos ok unfolding stream_ok_def
      by (intro less_imp_le) (simp add: sorted_wrt_nth_less)
  qed (use j in simp)
  have "covered ?ls y"
    using y(2) ys le_less_trans[OF T ry] by (intro covered_if_done[OF inv]) blast+
  moreover have "\<forall>y. r < y \<and> covered ?ls y \<longrightarrow>
      (\<exists>x. r < x \<and> x < y \<and> \<not> covered ?ls x \<and> \<not> in_gap (gap_pairs w) x)"
    using thr by (simp add: is_through_def)
  ultimately obtain x where x: "r < x" "x < y" "\<not> covered ?ls x" "\<not> in_gap (gap_pairs w) x"
    using ry by blast
  have Tx: "v_through w < x" using T x(1) by (rule le_less_trans)
  moreover have "x \<le> stream ! (g_received g - 1)" using x(2) ylast by (meson less_imp_le order_trans)
  ultimately have "x \<in> set stream"
    using winv_gap[OF inv] kpos(2) x(4) unfolding gap_inv_def by blast
  with y(2) x(2) have "x \<in> dom (g_fate g)" by (meson less_imp_le)
  with x(3) Tx covered_if_done[OF inv, of x] show False by blast
qed


text \<open>The uninterrupted sequence of reading steps is a run of the system.\<close>

lemma treach_get:
  assumes reach: "treach v start stream \<sigma>" and rd: "rd \<sigma> = Idle" and w: "view v (svc \<sigma>) = Some w"
    and len: "length (seqno_list_1 (v_gap w)) = length (seqno_list_2 (v_gap w))"
    and c: "compute_through (read_lists w (sort (v_sent w)) (v_filtered w) (v_failed w)) (v_through w)
              = Some (r, True)"
  shows "\<exists>\<sigma>'. treach v start stream \<sigma>' \<and> rd \<sigma>' = Idle \<and> received \<sigma>' = received \<sigma> \<and> fate \<sigma>' = fate \<sigma> \<and>
              tasks \<sigma>' = tasks \<sigma> @ [(TruncSent, r)] \<and>
              view v (svc \<sigma>') = Some (w\<lparr>v_through := r, v_sent := sort (v_sent w)\<rparr>)"
proof -
  define \<sigma>1 where "\<sigma>1 = \<sigma>\<lparr>rd := GotLast (v_through w)\<rparr>"
  define \<sigma>2 where "\<sigma>2 = \<sigma>1\<lparr>svc := (svc \<sigma>)\<lparr>vb_sent_seqno_list_map :=
     (vb_sent_seqno_list_map (svc \<sigma>))(v \<mapsto> sort (v_sent w))\<rparr>,
     rd := GotSent (v_through w) (sort (v_sent w))\<rparr>"
  define \<sigma>3 where "\<sigma>3 = \<sigma>2\<lparr>rd := GotFiltered (v_through w) (sort (v_sent w)) (v_filtered w)\<rparr>"
  define \<sigma>4 where "\<sigma>4 = \<sigma>3\<lparr>rd := GotFailed (v_through w) (sort (v_sent w)) (v_filtered w) (v_failed w)\<rparr>"
  define \<sigma>5 where "\<sigma>5 = \<sigma>4\<lparr>svc := (svc \<sigma>4)\<lparr>through_seqno_map := (through_seqno_map (svc \<sigma>4))(v \<mapsto> r)\<rparr>,
     tasks := tasks \<sigma>4 @ [(TruncSent, r)], rd := Idle\<rparr>"
  note vw = w[unfolded view_Some_iff]
  have "tstep v stream \<sigma> \<sigma>1"
    unfolding \<sigma>1_def using rd vw by (intro tstep.read_last) simp_all
  moreover have "tstep v stream \<sigma>1 \<sigma>2"
    using vw tstep.read_sent[of \<sigma>1 "v_through w" v "v_sent w" "sort (v_sent w)" "sort (v_sent w)" stream]
    by (simp add: \<sigma>1_def \<sigma>2_def getSortedSeqnoList_def SortUint64List_def Let_def)
  moreover have "tstep v stream \<sigma>2 \<sigma>3"
    unfolding \<sigma>3_def using vw
    by (intro tstep.read_filtered[where f0 = "v_filtered w"])
       (simp_all add: \<sigma>2_def \<sigma>1_def getSortedSeqnoList_def)
  moreover have "tstep v stream \<sigma>3 \<sigma>4"
    unfolding \<sigma>4_def using vw
    by (intro tstep.read_failed[where c0 = "v_failed w"])
       (simp_all add: \<sigma>3_def \<sigma>2_def \<sigma>1_def getSortedSeqnoList_def)
  moreover have "tstep v stream \<sigma>4 \<sigma>5"
    using vw c len tstep.finish[of \<sigma>4 "v_through w" "sort (v_sent w)" "v_filtered w" "v_failed w" v
        "v_gap w" "seqno_list_1 (v_gap w)" "seqno_list_2 (v_gap w)" r True stream]
    by (simp add: \<sigma>5_def \<sigma>4_def \<sigma>3_def \<sigma>2_def \<sigma>1_def getSortedSeqnoLists_def read_lists_def)
  ultimately have "treach v start stream \<sigma>5" using reach by (meson treach.step)
  moreover have "view v (svc \<sigma>5) = Some (w\<lparr>v_through := r, v_sent := sort (v_sent w)\<rparr>)"
    using vw by (simp add: view_Some_iff \<sigma>5_def \<sigma>4_def \<sigma>3_def \<sigma>2_def \<sigma>1_def)
  ultimately show ?thesis
    by (intro exI[of _ \<sigma>5]) (simp add: \<sigma>5_def \<sigma>4_def \<sigma>3_def \<sigma>2_def \<sigma>1_def)
qed

text \<open>
  A small run: DCP streams 2, 3, 5 on vbucket 7; 2 and 3 are received and sent, in the
  opposite order.
\<close>

definition example_view :: vb_view where
  "example_view = \<lparr>v_through = 0, v_seen = 3, v_sent = [3, 2], v_filtered = [], v_failed = [],
     v_gap = \<lparr>seqno_list_1 = [1], seqno_list_2 = [1]\<rparr>\<rparr>"

lemma example_stream: "stream_ok 0 [2, 3, 5]"
  by (simp add: stream_ok_def)

lemma example_run:
  "\<exists>\<sigma>. treach 7 0 [2, 3, 5] \<sigma> \<and> rd \<sigma> = Idle \<and> received \<sigma> = 2 \<and> tasks \<sigma> = [] \<and>
       fate \<sigma> = [3 \<mapsto> SeqnoTypeSent, 2 \<mapsto> SeqnoTypeSent] \<and> view 7 (svc \<sigma>) = Some example_view"
proof -
  define ts where "ts = initialize_vbs [7] NewThroughSeqnoTrackerSvc"
  have v0: "view 7 ts = Some (start_view 0)"
    by (simp add: ts_def view_def start_view_def NewThroughSeqnoTrackerSvc_def)
  then obtain ts1 where ts1: "processGapSeqnos 7 2 ts = Some ts1" "view 7 ts1 = Some (gap_step 2 (start_view 0))"
    using processGapSeqnos_view by blast
  then obtain ts2 where ts2: "processGapSeqnos 7 3 ts1 = Some ts2"
    "view 7 ts2 = Some (gap_step 3 (gap_step 2 (start_view 0)))"
    using processGapSeqnos_view by blast
  define w2 where "w2 = gap_step 3 (gap_step 2 (start_view 0))"
  obtain ts3 where ts3: "addSentSeqno 7 3 ts2 = Some ts3" "view 7 ts3 = Some (w2\<lparr>v_sent := v_sent w2 @ [3]\<rparr>)"
    using addSentSeqno_view[OF ts2(2)] unfolding w2_def by blast
  obtain ts4 where ts4: "addSentSeqno 7 2 ts3 = Some ts4"
    "view 7 ts4 = Some (w2\<lparr>v_sent := (v_sent w2 @ [3]) @ [2]\<rparr>)"
    using addSentSeqno_view[OF ts3(2), of 2] by auto
  have w: "w2\<lparr>v_sent := (v_sent w2 @ [3]) @ [2]\<rparr> = example_view"
    by (simp add: w2_def gap_step_def start_view_def example_view_def appendSeqnos_def
        newDualSortedSeqnoList_def Let_def)
  define \<sigma>0 where "\<sigma>0 = tsys_init ts"
  have "treach 7 0 [2, 3, 5] \<sigma>0" unfolding \<sigma>0_def by (rule treach.init[OF v0])
  moreover have "tstep 7 [2, 3, 5] \<sigma>0 (\<sigma>0\<lparr>svc := ts1, received := 1\<rparr>)"
    using tstep.receive[of \<sigma>0 "[2, 3, 5]" 7 ts1] ts1 by (simp add: \<sigma>0_def tsys_init_def)
  moreover have "tstep 7 [2, 3, 5] (\<sigma>0\<lparr>svc := ts1, received := 1\<rparr>) (\<sigma>0\<lparr>svc := ts2, received := 2\<rparr>)"
    using tstep.receive[of "\<sigma>0\<lparr>svc := ts1, received := 1\<rparr>" "[2, 3, 5]" 7 ts2] ts2
    by (simp add: numeral_2_eq_2)
  moreover have "tstep 7 [2, 3, 5] (\<sigma>0\<lparr>svc := ts2, received := 2\<rparr>)
      (\<sigma>0\<lparr>svc := ts3, received := 2, fate := [3 \<mapsto> SeqnoTypeSent]\<rparr>)"
    using tstep.sent[of 3 "[2, 3, 5]" "\<sigma>0\<lparr>svc := ts2, received := 2\<rparr>" 7 ts3] ts3
    by (simp add: \<sigma>0_def tsys_init_def)
  moreover have "tstep 7 [2, 3, 5] (\<sigma>0\<lparr>svc := ts3, received := 2, fate := [3 \<mapsto> SeqnoTypeSent]\<rparr>)
      (\<sigma>0\<lparr>svc := ts4, received := 2, fate := [3 \<mapsto> SeqnoTypeSent, 2 \<mapsto> SeqnoTypeSent]\<rparr>)"
    using tstep.sent[of 2 "[2, 3, 5]" "\<sigma>0\<lparr>svc := ts3, received := 2, fate := [3 \<mapsto> SeqnoTypeSent]\<rparr>" 7 ts4] ts4
    by (simp add: \<sigma>0_def tsys_init_def)
  ultimately have "treach 7 0 [2, 3, 5]
      (\<sigma>0\<lparr>svc := ts4, received := 2, fate := [3 \<mapsto> SeqnoTypeSent, 2 \<mapsto> SeqnoTypeSent]\<rparr>)"
    by (meson treach.step)
  with ts4(2) w show ?thesis
    by (intro exI[of _ "\<sigma>0\<lparr>svc := ts4, received := 2, fate := [3 \<mapsto> SeqnoTypeSent, 2 \<mapsto> SeqnoTypeSent]\<rparr>"])
       (simp add: \<sigma>0_def tsys_init_def)
qed

lemma example_compute:
  "compute_through (read_lists example_view (sort (v_sent example_view)) (v_filtered example_view)
     (v_failed example_view)) (v_through example_view) = Some (3, True)"
  by (simp add: example_view_def compute_through_def read_lists_def through_loop_unfold
      through_iter_def nothing_found_def maxSeqno_def SearchUint64List_def sort_Search_def
      search_loop.simps isSeqnoGapSeqno_def through_result_def nth_opt_def)

lemma example_run_through:
  "\<exists>\<sigma>. treach 7 0 [2, 3, 5] \<sigma> \<and> rd \<sigma> = Idle \<and> received \<sigma> = 2 \<and> tasks \<sigma> = [(TruncSent, 3)] \<and>
       fate \<sigma> = [3 \<mapsto> SeqnoTypeSent, 2 \<mapsto> SeqnoTypeSent] \<and>
       view 7 (svc \<sigma>) = Some (example_view\<lparr>v_through := 3, v_sent := [2, 3]\<rparr>)"
proof -
  obtain \<sigma> where \<sigma>: "treach 7 0 [2, 3, 5] \<sigma>" "rd \<sigma> = Idle" "received \<sigma> = 2" "tasks \<sigma> = []"
    "fate \<sigma> = [3 \<mapsto> SeqnoTypeSent, 2 \<mapsto> SeqnoTypeSent]" "view 7 (svc \<sigma>) = Some example_view"
    using example_run by blast
  show ?thesis
    using treach_get[OF \<sigma>(1,2,6) _ example_compute] \<sigma>(3-5)
    by (auto simp: example_view_def)
qed


lemma tstep_through_mono:
  assumes ok: "stream_ok start stream" and w: "view v (svc \<sigma>) = Some w"
    and wi: "winv start stream (ghost_of \<sigma>) w" and st: "tstep v stream \<sigma> \<sigma>'"
    and w': "view v (svc \<sigma>') = Some w'"
  shows "v_through w \<le> v_through w'"
  using st
proof cases
  case (receive ts')
  then show ?thesis
    using processGapSeqnos_view[OF w, of "stream ! received \<sigma>"] w'
      gap_step_pairs(3)[OF winv_gap_length[OF wi]] by auto
next
  case (sent x ts')
  then show ?thesis using addSentSeqno_view[OF w, of x] w' by auto
next
  case (filtered x e ts')
  then show ?thesis using markFiltered_view[OF w, of e x] w' by auto
next
  case (failed_cr x ts')
  then show ?thesis using addFailedCRSeqno_view[OF w, of x] w' by auto
next
  case (finish l s f c d g1 g2 r found)
  have "l = v_through w" "g_rd (ghost_of \<sigma>) = GotFailed l s f c"
    using winv_rd[OF wi] finish by (simp_all add: ghost_of_def)
  moreover have "compute_through (read_lists w s f c) l = Some (r, found)"
    using finish w by (auto simp: view_Some_iff getSortedSeqnoLists_def read_lists_def split: if_splits)
  ultimately have "v_through w \<le> r"
    using compute_through_correct[OF read_lists_ok[OF ok wi], of l s f c l] by (auto simp: is_through_def)
  with finish w w' show ?thesis by (auto simp: view_Some_iff split: if_splits)
next
  case (truncate i st t ts')
  have "t \<in> g_tasks (ghost_of \<sigma>)" using truncate by (force simp: ghost_of_def in_set_conv_nth)
  from truncate_stage_trunc_view[OF wi this w, of st] truncate w' show ?thesis
    by (cases st) (auto simp: Let_def)
next
  case (filter_retry x ts')
  then show ?thesis using w w' by (simp add: FilterErrorIsRecoverable_def)
next
  case (other_event e ts')
  then show ?thesis using ProcessEvent_frame[of e "svc \<sigma>" ts' v] w w' by simp
next
  case (other_get u r ts' tr)
  then show ?thesis using GetThroughSeqno_frame[of u "svc \<sigma>" r ts' tr v] w w' by simp
next
  case (other_truncate u st t ts')
  then show ?thesis using truncate_stage_frame[of st u t "svc \<sigma>" ts' v] w w' by simp
next
  case (other_start u s ts')
  then show ?thesis using SetStartSeqno_frame[of u s "svc \<sigma>" ts' v] w w' by simp
qed (use w w' in \<open>auto simp: view_Some_iff\<close>)


lemma treach_through:
  assumes "stream_ok start stream" "treach v start stream \<sigma>"
  shows "\<exists>T. through_seqno_map (svc \<sigma>) v = Some T \<and> start \<le> T \<and>
           (T = start \<or> T \<in> set stream) \<and>
           (\<forall>x\<in>set stream. x \<le> T \<longrightarrow> fate \<sigma> x \<noteq> None)"
proof -
  obtain w where w: "view v (svc \<sigma>) = Some w" and wi: "winv start stream (ghost_of \<sigma>) w"
    using treach_tinv[OF assms(2,1)] by (auto simp: tinv_def)
  then show ?thesis
    using winv_start_le[OF assms(1) wi] winv_done[OF wi]
    by (force simp: view_Some_iff done_inv_def ghost_of_def)
qed


section \<open>Properties of the tracker\<close>

text \<open>C2. Whatever the interleaving of event handlers, through-seqno computations and
  truncations, the through sequence number of a vbucket never passes a mutation of its
  DCP stream that has not been sent, filtered or rejected: a checkpoint taken at it loses
  no mutation.  It is the start number or a mutation that has been dealt with.\<close>

theorem through_seqno_safe:
  assumes "stream_ok start stream" "treach v start stream \<sigma>"
  shows "\<exists>T. through_seqno_map (svc \<sigma>) v = Some T \<and> start \<le> T \<and>
           (T = start \<or> T \<in> set stream) \<and>
           (\<forall>x\<in>set stream. x \<le> T \<longrightarrow> fate \<sigma> x \<noteq> None)"
  by (rule treach_through[OF assms])

theorem through_seqno_safe_witness:
  "\<exists>\<sigma>. treach 7 0 [2, 3, 5] \<sigma> \<and> through_seqno_map (svc \<sigma>) 7 = Some 3 \<and>
       (\<forall>x\<in>set [2, 3, 5]. x \<le> 3 \<longrightarrow> fate \<sigma> x \<noteq> None) \<and> fate \<sigma> 5 = None"
proof -
  obtain \<sigma> where \<sigma>: "treach 7 0 [2, 3, 5] \<sigma>" "fate \<sigma> = [3 \<mapsto> SeqnoTypeSent, 2 \<mapsto> SeqnoTypeSent]"
    "view 7 (svc \<sigma>) = Some (example_view\<lparr>v_through := 3, v_sent := [2, 3]\<rparr>)"
    using example_run_through by blast
  moreover have "through_seqno_map (svc \<sigma>) 7 = Some 3" using \<sigma>(3) by (simp add: view_Some_iff)
  ultimately show ?thesis
    using through_seqno_safe[OF example_stream \<sigma>(1)] by (intro exI[of _ \<sigma>]) auto
qed

text \<open>C4. In a reachable state a call of \<open>GetThroughSeqno\<close> without interference returns
  (its loop terminates and nothing panics), stores the number it returns, leaves a reachable
  state with the truncation up to it pending, does not go back, and reaches every received
  mutation up to which the whole stream has been dealt with.\<close>

theorem GetThroughSeqno_progress:
  assumes "stream_ok start stream" "treach v start stream \<sigma>" "rd \<sigma> = Idle"
  shows "\<exists>r ts' tr T. GetThroughSeqno v (svc \<sigma>) = Some (r, ts', tr) \<and>
           through_seqno_map (svc \<sigma>) v = Some T \<and> T \<le> r \<and> through_seqno_map ts' v = Some r \<and>
           treach v start stream (after_get ts' tr \<sigma>) \<and>
           (\<forall>y\<in>set (take (received \<sigma>) stream).
              (\<forall>x\<in>set stream. x \<le> y \<longrightarrow> fate \<sigma> x \<noteq> None) \<longrightarrow> y \<le> r)"
proof -
  obtain w where w: "view v (svc \<sigma>) = Some w" and wi: "winv start stream (ghost_of \<sigma>) w"
    using treach_tinv[OF assms(2,1)] by (auto simp: tinv_def)
  have idle: "g_rd (ghost_of \<sigma>) = Idle" using assms(3) by (simp add: ghost_of_def)
  obtain r found where r:
    "compute_through (read_lists w (sort (v_sent w)) (v_filtered w) (v_failed w)) (v_through w)
       = Some (r, found)"
    "is_through (read_lists w (sort (v_sent w)) (v_filtered w) (v_failed w)) (v_through w) r found"
    using idle_through[OF assms(1) wi idle] by blast
  obtain ts' tr where get: "GetThroughSeqno v (svc \<sigma>) = Some (r, ts', tr)" "through_seqno_map ts' v = Some r"
    using GetThroughSeqno_compute[OF w winv_gap_length[OF wi] r(1)] r(2)
    by (fastforce simp: is_through_def split: if_splits)
  moreover have "treach v start stream (after_get ts' tr \<sigma>)"
    using treach_steps[OF GetThroughSeqno_run[OF w assms(3) get(1)] assms(2)] .
  moreover have "through_seqno_map (svc \<sigma>) v = Some (v_through w)"
    using w by (simp add: view_Some_iff)
  moreover have "v_through w \<le> r" using r(2) by (simp add: is_through_def)
  moreover have "y \<le> r" if "y \<in> set (take (received \<sigma>) stream)"
    "\<forall>x\<in>set stream. x \<le> y \<longrightarrow> fate \<sigma> x \<noteq> None" for y
    using progress_view[OF assms(1) wi r(2), of y] that by (auto simp: ghost_of_def)
  ultimately show ?thesis by blast
qed


theorem GetThroughSeqno_progress_witness:
  "\<exists>\<sigma> r ts' tr. treach 7 0 [2, 3, 5] \<sigma> \<and> through_seqno_map (svc \<sigma>) 7 = Some 0 \<and>
       GetThroughSeqno 7 (svc \<sigma>) = Some (r, ts', tr) \<and> 3 \<le> r"
proof -
  obtain \<sigma> where \<sigma>: "treach 7 0 [2, 3, 5] \<sigma>" "rd \<sigma> = Idle" "received \<sigma> = 2"
    "fate \<sigma> = [3 \<mapsto> SeqnoTypeSent, 2 \<mapsto> SeqnoTypeSent]" "view 7 (svc \<sigma>) = Some example_view"
    using example_run by blast
  have "through_seqno_map (svc \<sigma>) 7 = Some 0" using \<sigma>(5) by (simp add: view_Some_iff example_view_def)
  moreover have "3 \<in> set (take (received \<sigma>) [2, 3, 5 :: seqno])"
    and "\<forall>x\<in>set [2, 3, 5]. x \<le> 3 \<longrightarrow> fate \<sigma> x \<noteq> None"
    using \<sigma>(3,4) by simp_all
  then have "\<exists>r ts' tr. GetThroughSeqno 7 (svc \<sigma>) = Some (r, ts', tr) \<and> 3 \<le> r"
    using GetThroughSeqno_progress[OF example_stream \<sigma>(1,2)] by blast
  ultimately show ?thesis using \<sigma>(1) by blast
qed

text \<open>C5. No operation of the tracker panics in a reachable state: the event handlers, every
  pending truncation (the gap lists never contain the through sequence number they are cut
  at) and the last stage of a computation, whose gap lists have the same length and whose
  loop returns.\<close>

theorem tracker_no_panic:
  assumes "stream_ok start stream" "treach v start stream \<sigma>"
  shows "(\<forall>x. ProcessEvent (DataReceived (Some (v, x))) (svc \<sigma>) \<noteq> None \<and>
              ProcessEvent (DataSent v x) (svc \<sigma>) \<noteq> None \<and>
              ProcessEvent (DataFiltered (Some (v, x))) (svc \<sigma>) \<noteq> None \<and>
              ProcessEvent (DataFailedCRSource v x) (svc \<sigma>) \<noteq> None) \<and>
         (\<forall>(st, t)\<in>set (tasks \<sigma>). truncate_stage st v t (svc \<sigma>) \<noteq> None) \<and>
         (\<forall>l s f c. rd \<sigma> = GotFailed l s f c \<longrightarrow>
            (\<exists>d g1 g2. vb_gap_seqno_list_map (svc \<sigma>) v = Some d \<and> getSortedSeqnoLists d = Some (g1, g2) \<and>
               compute_through \<lparr>sent_list = s, filtered_list = f, failed_cr_list = c,
                                gap_list_1 = g1, gap_list_2 = g2\<rparr> l \<noteq> None))"
proof -
  obtain w where w: "view v (svc \<sigma>) = Some w" and wi: "winv start stream (ghost_of \<sigma>) w"
    using treach_tinv[OF assms(2,1)] by (auto simp: tinv_def)
  have "ProcessEvent (DataReceived (Some (v, x))) (svc \<sigma>) \<noteq> None \<and>
        ProcessEvent (DataSent v x) (svc \<sigma>) \<noteq> None \<and>
        ProcessEvent (DataFiltered (Some (v, x))) (svc \<sigma>) \<noteq> None \<and>
        ProcessEvent (DataFailedCRSource v x) (svc \<sigma>) \<noteq> None" for x
    using processGapSeqnos_view[OF w, of x] addSentSeqno_view[OF w, of x]
      addFilteredSeqno_view[OF w, of x] addFailedCRSeqno_view[OF w, of x]
    by (auto simp: markUprEventAsFiltered_def)
  moreover have "truncate_stage st v t (svc \<sigma>) \<noteq> None" if "(st, t) \<in> set (tasks \<sigma>)" for st t
    using truncate_stage_trunc_view[OF wi _ w, of t st] that by (force simp: ghost_of_def)
  moreover have "\<exists>d g1 g2. vb_gap_seqno_list_map (svc \<sigma>) v = Some d \<and> getSortedSeqnoLists d = Some (g1, g2) \<and>
       compute_through \<lparr>sent_list = s, filtered_list = f, failed_cr_list = c,
                        gap_list_1 = g1, gap_list_2 = g2\<rparr> l \<noteq> None"
    if "rd \<sigma> = GotFailed l s f c" for l s f c
  proof -
    have "lists_ok (read_lists w s f c)"
      using that by (intro read_lists_ok[OF assms(1) wi]) (simp add: ghost_of_def)
    from compute_through_correct[OF this, of l] winv_gap_length[OF wi] w show ?thesis
      by (auto simp: view_Some_iff getSortedSeqnoLists_def read_lists_def)
  qed
  ultimately show ?thesis by (auto simp del: ProcessEvent.simps)
qed

theorem tracker_no_panic_witness:
  "\<exists>\<sigma>. treach 7 0 [2, 3, 5] \<sigma> \<and> (TruncSent, 3) \<in> set (tasks \<sigma>) \<and>
       truncate_stage TruncSent 7 3 (svc \<sigma>) \<noteq> None"
proof -
  obtain \<sigma> where \<sigma>: "treach 7 0 [2, 3, 5] \<sigma>" "tasks \<sigma> = [(TruncSent, 3)]"
    using example_run_through by blast
  then show ?thesis
    using tracker_no_panic[OF example_stream \<sigma>(1)] by (intro exI[of _ \<sigma>]) auto
qed

text \<open>C6. No step of the system decreases the through sequence number of a vbucket.\<close>

theorem through_seqno_monotone:
  assumes "stream_ok start stream" "treach v start stream \<sigma>" "tstep v stream \<sigma> \<sigma>'"
  shows "\<exists>T T'. through_seqno_map (svc \<sigma>) v = Some T \<and> through_seqno_map (svc \<sigma>') v = Some T' \<and> T \<le> T'"
proof -
  obtain w where w: "view v (svc \<sigma>) = Some w" and wi: "winv start stream (ghost_of \<sigma>) w"
    using treach_tinv[OF assms(2,1)] by (auto simp: tinv_def)
  obtain w' where w': "view v (svc \<sigma>') = Some w'"
    using tinv_step[OF assms(1) treach_tinv[OF assms(2,1)] assms(3)] by (auto simp: tinv_def)
  have "v_through w \<le> v_through w'"
    using tstep_through_mono[OF assms(1) w wi assms(3) w'] .
  with w w' show ?thesis by (auto simp: view_Some_iff)
qed

theorem through_seqno_monotone_witness:
  "\<exists>\<sigma> \<sigma>' T T'. treach 7 0 [2, 3, 5] \<sigma> \<and> tstep 7 [2, 3, 5] \<sigma> \<sigma>' \<and>
      through_seqno_map (svc \<sigma>) 7 = Some T \<and> through_seqno_map (svc \<sigma>') 7 = Some T' \<and> T \<le> T'"
proof -
  obtain \<sigma> where \<sigma>: "treach 7 0 [2, 3, 5] \<sigma>" "rd \<sigma> = Idle"
    "view 7 (svc \<sigma>) = Some (example_view\<lparr>v_through := 3, v_sent := [2, 3]\<rparr>)"
    using example_run_through by blast
  have st: "tstep 7 [2, 3, 5] \<sigma> (\<sigma>\<lparr>rd := GotLast 3\<rparr>)"
    using \<sigma> by (intro tstep.read_last) (simp_all add: view_Some_iff)
  from through_seqno_monotone[OF example_stream \<sigma>(1) this] \<sigma>(1) st show ?thesis by blast
qed

end
