(* ===== verification/Checkpoint_System.thy ===== *)
theory Checkpoint_System
  imports Checkpoint_Manager Through_Seqno_Safety
begin

text \<open>
  The checkpoint manager together with the through-seqno tracker and the target,
  for one vbucket of a replication over memcached: several checkpoint operations
  may be under way at once (the periodic one and those on request), and each of
  them interleaves at its locks with the events of the pipeline, with the other
  operations and with the progress of the target.

  \<open>high\<close> is the high sequence number of the target's vbucket and \<open>applied\<close> what it
  was when the target answered the request for a mutation; the pipeline reports a
  mutation as sent only after that answer.  \<open>log\<close> lists the records the operations
  wrote.  The timestamp of the vbucket is fixed: a rollback happens before its
  stream is opened.
\<close>


section \<open>Steps\<close>

datatype ckpt_op =
    HasThrough seqno
  | HasMaps ckpt_maps
  | HasSeen ckpt_maps ckpt_seen
  | HasUpdate ckpt_update

record 's csys =
  trk :: tsys
  mgr :: "'s CheckpointManager"
  high :: uint64
  applied :: "seqno \<rightharpoonup> uint64"
  ops :: "ckpt_op list"
  log :: "CheckpointRecord list"

definition drop_op :: "nat \<Rightarrow> 'a list \<Rightarrow> 'a list" where
  "drop_op i xs = take i xs @ drop (Suc i) xs"

text \<open>The record of a vbucket in memory.\<close>

definition cur_record :: "vbno \<Rightarrow> 's CheckpointManager \<Rightarrow> CheckpointRecord option" where
  "cur_record v m = Option.bind (cur_ckpts m v) ckpt"

inductive cstep ::
  "ckmgr_config \<Rightarrow> 's CheckpointsService \<Rightarrow> vbno \<Rightarrow> seqno list \<Rightarrow> 's csys \<Rightarrow> 's csys \<Rightarrow> bool" for cfg cs v stream where
  track: "\<lbrakk> tstep v stream (trk \<sigma>) t'; \<forall>x. fate t' x = Some SeqnoTypeSent \<longrightarrow> applied \<sigma> x \<noteq> None \<rbrakk>
    \<Longrightarrow> cstep cfg cs v stream \<sigma> (\<sigma>\<lparr>trk := t'\<rparr>)"
| target_moves: "high \<sigma> \<le> h' \<Longrightarrow> cstep cfg cs v stream \<sigma> (\<sigma>\<lparr>high := h'\<rparr>)"
| target_answers: "applied \<sigma> x = None \<Longrightarrow> cstep cfg cs v stream \<sigma> (\<sigma>\<lparr>applied := (applied \<sigma>)(x \<mapsto> high \<sigma>)\<rparr>)"
| get_through: "through_seqno_map (svc (trk \<sigma>)) v = Some T
    \<Longrightarrow> cstep cfg cs v stream \<sigma> (\<sigma>\<lparr>ops := ops \<sigma> @ [HasThrough T]\<rparr>)"
| get_maps: "\<lbrakk> i < length (ops \<sigma>); ops \<sigma> ! i = HasThrough T; through_seqnos maps v = Some T;
      high_seqno_and_vbuuid maps v = None \<or> (\<exists>uuid. high_seqno_and_vbuuid maps v = Some (high \<sigma>, uuid)) \<rbrakk>
    \<Longrightarrow> cstep cfg cs v stream \<sigma> (\<sigma>\<lparr>ops := (ops \<sigma>)[i := HasMaps maps]\<rparr>)"
| see_record: "\<lbrakk> i < length (ops \<sigma>); ops \<sigma> ! i = HasMaps maps; doCheckpoint_read v (mgr \<sigma>) = Some (Inr seen, m') \<rbrakk>
    \<Longrightarrow> cstep cfg cs v stream \<sigma> (\<sigma>\<lparr>mgr := m', ops := (ops \<sigma>)[i := HasSeen maps seen]\<rparr>)"
| collect: "\<lbrakk> i < length (ops \<sigma>); ops \<sigma> ! i = HasSeen maps seen;
      doCheckpoint_collect cfg capi v maps seen (mgr \<sigma>) = Some (Update u, m') \<rbrakk>
    \<Longrightarrow> cstep cfg cs v stream \<sigma> (\<sigma>\<lparr>mgr := m', ops := (ops \<sigma>)[i := HasUpdate u]\<rparr>)"
| give_up: "\<lbrakk> i < length (ops \<sigma>); ops \<sigma> ! i = HasSeen maps seen;
      doCheckpoint_collect cfg capi v maps seen (mgr \<sigma>) = Some (Return err, m') \<rbrakk>
    \<Longrightarrow> cstep cfg cs v stream \<sigma> (\<sigma>\<lparr>mgr := m', ops := drop_op i (ops \<sigma>)\<rparr>)"
| persist: "\<lbrakk> i < length (ops \<sigma>); ops \<sigma> ! i = HasUpdate u; updateAndPersist cfg cs v u (mgr \<sigma>) = Some (None, m');
      cur_record v m' = Some r \<rbrakk>
    \<Longrightarrow> cstep cfg cs v stream \<sigma> (\<sigma>\<lparr>mgr := m', ops := drop_op i (ops \<sigma>), log := log \<sigma> @ [r]\<rparr>)"
| persist_lost: "\<lbrakk> i < length (ops \<sigma>); ops \<sigma> ! i = HasUpdate u; updateAndPersist cfg cs v u (mgr \<sigma>) = Some (Some err, m') \<rbrakk>
    \<Longrightarrow> cstep cfg cs v stream \<sigma> (\<sigma>\<lparr>mgr := m', ops := drop_op i (ops \<sigma>)\<rparr>)"
| stream_event: "cstep cfg cs v stream \<sigma> (\<sigma>\<lparr>mgr := OnEvent cfg e (mgr \<sigma>)\<rparr>)"
| other_vb: "\<lbrakk> w \<noteq> v; doCheckpoint cfg cs capi w maps (mgr \<sigma>) = Some (err, m') \<rbrakk>
    \<Longrightarrow> cstep cfg cs v stream \<sigma> (\<sigma>\<lparr>mgr := m'\<rparr>)"

text \<open>The start: nothing received, no operation under way.\<close>

definition csys_init :: "ThroughSeqnoTrackerSvc \<Rightarrow> 's CheckpointManager \<Rightarrow> uint64 \<Rightarrow> 's csys" where
  "csys_init ts m h = \<lparr>trk = tsys_init ts, mgr = m, high = h, applied = Map.empty, ops = [], log = []\<rparr>"

inductive creach ::
  "ckmgr_config \<Rightarrow> 's CheckpointsService \<Rightarrow> vbno \<Rightarrow> seqno \<Rightarrow> seqno list \<Rightarrow> 's CheckpointManager \<Rightarrow> 's csys \<Rightarrow> bool"
  for cfg cs v start stream m0 where
  init: "view v ts = Some (start_view start) \<Longrightarrow> creach cfg cs v start stream m0 (csys_init ts m0 h)"
| step: "\<lbrakk> creach cfg cs v start stream m0 \<sigma>; cstep cfg cs v stream \<sigma> \<sigma>' \<rbrakk> \<Longrightarrow> creach cfg cs v start stream m0 \<sigma>'"


section \<open>Invariant\<close>

text \<open>
  A position is dealt with when every mutation of the stream up to it has been
  sent, filtered or rejected; it is backed by a target number when the target had
  answered the sent ones at that number.
\<close>

definition dealt_with :: "seqno list \<Rightarrow> 's csys \<Rightarrow> seqno \<Rightarrow> bool" where
  "dealt_with stream \<sigma> T \<longleftrightarrow> (\<forall>x\<in>set stream. x \<le> T \<longrightarrow> fate (trk \<sigma>) x \<noteq> None)"

definition backed :: "seqno list \<Rightarrow> 's csys \<Rightarrow> seqno \<Rightarrow> uint64 \<Rightarrow> bool" where
  "backed stream \<sigma> T H \<longleftrightarrow> dealt_with stream \<sigma> T \<and>
     (\<forall>x\<in>set stream. x \<le> T \<and> fate (trk \<sigma>) x = Some SeqnoTypeSent \<longrightarrow> (\<exists>h. applied \<sigma> x = Some h \<and> h \<le> H))"

definition maps_ok :: "vbno \<Rightarrow> seqno list \<Rightarrow> 's csys \<Rightarrow> ckpt_maps \<Rightarrow> bool" where
  "maps_ok v stream \<sigma> maps \<longleftrightarrow>
     (\<exists>T. through_seqnos maps v = Some T \<and> dealt_with stream \<sigma> T \<and>
        (\<forall>H uuid. high_seqno_and_vbuuid maps v = Some (H, uuid) \<longrightarrow> backed stream \<sigma> T H))"

fun op_ok :: "vbno \<Rightarrow> seqno list \<Rightarrow> 's csys \<Rightarrow> ckpt_op \<Rightarrow> bool" where
  "op_ok v stream \<sigma> (HasThrough T) = dealt_with stream \<sigma> T"
| "op_ok v stream \<sigma> (HasMaps maps) = maps_ok v stream \<sigma> maps"
| "op_ok v stream \<sigma> (HasSeen maps seen) = maps_ok v stream \<sigma> maps"
| "op_ok v stream \<sigma> (HasUpdate u) = backed stream \<sigma> (up_seqno u) (up_target u)"

definition cinv :: "vbno \<Rightarrow> seqno \<Rightarrow> seqno list \<Rightarrow> 's csys \<Rightarrow> bool" where
  "cinv v start stream \<sigma> \<longleftrightarrow> treach v start stream (trk \<sigma>) \<and>
     (\<forall>x. fate (trk \<sigma>) x = Some SeqnoTypeSent \<longrightarrow> applied \<sigma> x \<noteq> None) \<and>
     (\<forall>x h. applied \<sigma> x = Some h \<longrightarrow> h \<le> high \<sigma>) \<and>
     (\<forall>p\<in>set (ops \<sigma>). op_ok v stream \<sigma> p) \<and>
     (\<forall>r\<in>set (log \<sigma>). backed stream \<sigma> (Seqno r) (Target_Seqno r))"

text \<open>Positions stay dealt with and backed while fates and answers are only added.\<close>

definition extends :: "'s csys \<Rightarrow> 's csys \<Rightarrow> bool" where
  "extends \<sigma> \<sigma>' \<longleftrightarrow> fate (trk \<sigma>) \<subseteq>\<^sub>m fate (trk \<sigma>') \<and> applied \<sigma> \<subseteq>\<^sub>m applied \<sigma>'"

lemma extends_fate: "extends \<sigma> \<sigma>' \<Longrightarrow> fate (trk \<sigma>) x = Some ty \<Longrightarrow> fate (trk \<sigma>') x = Some ty"
  by (auto simp: extends_def map_le_def dom_def)

lemma extends_applied: "extends \<sigma> \<sigma>' \<Longrightarrow> applied \<sigma> x = Some h \<Longrightarrow> applied \<sigma>' x = Some h"
  by (auto simp: extends_def map_le_def dom_def)

lemma dealt_with_extends: "extends \<sigma> \<sigma>' \<Longrightarrow> dealt_with stream \<sigma> T \<Longrightarrow> dealt_with stream \<sigma>' T"
  unfolding dealt_with_def using extends_fate by (metis not_None_eq)

lemma backed_extends:
  assumes e: "extends \<sigma> \<sigma>'" and b: "backed stream \<sigma> T H"
  shows "backed stream \<sigma>' T H"
proof -
  have d: "dealt_with stream \<sigma> T" using b by (simp add: backed_def)
  have "\<exists>h. applied \<sigma>' x = Some h \<and> h \<le> H" if x: "x \<in> set stream" "x \<le> T" "fate (trk \<sigma>') x = Some SeqnoTypeSent" for x
  proof -
    obtain ty where ty: "fate (trk \<sigma>) x = Some ty" using d x by (auto simp: dealt_with_def)
    then have "ty = SeqnoTypeSent" using extends_fate[OF e ty] x(3) by simp
    then show ?thesis using b x ty extends_applied[OF e] by (fastforce simp: backed_def)
  qed
  then show ?thesis using dealt_with_extends[OF e d] by (auto simp: backed_def)
qed

lemma op_ok_extends: "extends \<sigma> \<sigma>' \<Longrightarrow> op_ok v stream \<sigma> p \<Longrightarrow> op_ok v stream \<sigma>' p"
  by (cases p) (auto simp: maps_ok_def intro: dealt_with_extends backed_extends)

lemma tstep_fate: "tstep v stream t t' \<Longrightarrow> fate t \<subseteq>\<^sub>m fate t'"
  by (erule tstep.cases) (auto simp: map_le_def)

lemma backed_now:
  assumes "dealt_with stream \<sigma> T" "cinv v start stream \<sigma>"
  shows "backed stream \<sigma> T (high \<sigma>)"
  using assms by (fastforce simp: backed_def cinv_def)

lemma backed_through:
  assumes "stream_ok start stream" "cinv v start stream \<sigma>" "through_seqno_map (svc (trk \<sigma>)) v = Some T"
  shows "dealt_with stream \<sigma> T"
  using treach_through[OF assms(1), of v "trk \<sigma>"] assms(2,3) by (auto simp: cinv_def dealt_with_def)

text \<open>What the operations of the manager change and read.\<close>

lemma getFailoverUUIDForSeqno_frame:
  "getFailoverUUIDForSeqno vb s m = (res, m') \<Longrightarrow> cur_ckpts m' = cur_ckpts m \<and> ck_store m' = ck_store m"
  by (auto simp: getFailoverUUIDForSeqno_def ckmgr_handleGeneralError_def raise_event_def Let_def split: option.splits)

lemma getSnapshotForSeqno_frame:
  "getSnapshotForSeqno vb s m = (res, m') \<Longrightarrow> cur_ckpts m' = cur_ckpts m \<and> ck_store m' = ck_store m"
  by (auto simp: getSnapshotForSeqno_def ckmgr_handleGeneralError_def raise_event_def Let_def split: option.splits)

lemma doCheckpoint_read_frame:
  "doCheckpoint_read vb m = Some (res, m') \<Longrightarrow> cur_ckpts m' = cur_ckpts m \<and> ck_store m' = ck_store m"
  by (auto simp: doCheckpoint_read_def ckmgr_handleGeneralError_def raise_event_def Let_def split: option.splits)

lemma getThroughSeqno_frame:
  "getThroughSeqno cfg vb maps m = Some (res, m') \<Longrightarrow> cur_ckpts m' = cur_ckpts m \<and> ck_store m' = ck_store m"
  by (auto simp: getThroughSeqno_def split: option.splits if_splits)

lemma doCheckpoint_collect_effect:
  assumes "doCheckpoint_collect cfg capi vb maps seen m = Some (dec, m')"
  shows "cur_ckpts m' = cur_ckpts m \<and> ck_store m' = ck_store m \<and>
    (\<forall>u. dec = Update u \<and> \<not> isTargetES cfg \<longrightarrow> through_seqnos maps vb = Some (up_seqno u) \<and>
       (\<exists>uuid. high_seqno_and_vbuuid maps vb = Some (up_target u, uuid)))"
  using assms
  by (auto simp: doCheckpoint_collect_def getRemoteSeqno_def getThroughSeqno_def
      dest!: getFailoverUUIDForSeqno_frame getSnapshotForSeqno_frame
      split: option.splits sum.splits prod.splits if_splits)

lemma OnEvent_frame: "cur_ckpts (OnEvent cfg e m) = cur_ckpts m \<and> ck_store (OnEvent cfg e m) = ck_store m"
  by (cases e) (auto simp: on_streaming_start_def on_snapshot_marker_def ckmgr_handleGeneralError_def raise_event_def split: option.splits)

lemma apply_update_simps [simp]:
  "Seqno (apply_update u r) = up_seqno u" "Target_Seqno (apply_update u r) = up_target u"
  "Target_vb_opaque (apply_update u r) = Target_vb_opaque r"
  by (simp_all add: apply_update_def)

lemma updateAndPersist_effect:
  assumes "updateAndPersist cfg cs vb u m = Some (err, m')"
  shows "if err = None
    then \<exists>r res s'. cur_record vb m = Some r \<and> cur_record vb m' = Some (apply_update u r) \<and>
           map_option versionNum (cur_ckpts m vb) = Some (up_version u) \<and>
           cur_ckpts m' = (cur_ckpts m)(vb \<mapsto> \<lparr>ckpt = Some (apply_update u r), versionNum = up_version u + 1\<rparr>) \<and>
           cs_UpsertCheckpoints cs (Topic cfg) (InternalId cfg) vb (Some (apply_update u r)) (up_xattr u)
             (target_cluster_version cfg) (ck_store m) = (Some res, s') \<and> ck_store m' = s'
    else m' = m"
  using assms
  by (auto simp: updateAndPersist_def persistCkptRecord_def cur_record_def raise_event_def Let_def
      split: option.splits if_splits prod.splits)

lemma drop_op_subset: "set (drop_op i xs) \<subseteq> set xs"
  using set_take_subset[of i xs] set_drop_subset[of "Suc i" xs] by (auto simp: drop_op_def)

lemma cinv_frame:
  assumes "cinv v start stream \<sigma>" "extends \<sigma> \<sigma>'" "treach v start stream (trk \<sigma>')"
    "\<forall>x. fate (trk \<sigma>') x = Some SeqnoTypeSent \<longrightarrow> applied \<sigma>' x \<noteq> None"
    "\<forall>x h. applied \<sigma>' x = Some h \<longrightarrow> h \<le> high \<sigma>'"
    "\<forall>p\<in>set (ops \<sigma>'). p \<in> set (ops \<sigma>) \<or> op_ok v stream \<sigma>' p"
    "\<forall>r\<in>set (log \<sigma>'). r \<in> set (log \<sigma>) \<or> backed stream \<sigma>' (Seqno r) (Target_Seqno r)"
  shows "cinv v start stream \<sigma>'"
proof -
  have "\<forall>p\<in>set (ops \<sigma>). op_ok v stream \<sigma> p" "\<forall>r\<in>set (log \<sigma>). backed stream \<sigma> (Seqno r) (Target_Seqno r)"
    using assms(1) by (simp_all add: cinv_def)
  then show ?thesis
    using assms(3-7) op_ok_extends[OF assms(2)] backed_extends[OF assms(2)] unfolding cinv_def by blast
qed

text \<open>The steps that leave the tracker and the target alone.\<close>

lemma cinv_local:
  fixes \<sigma> \<sigma>' :: "'s csys"
  assumes "cinv v start stream \<sigma>" "trk \<sigma>' = trk \<sigma>" "applied \<sigma>' = applied \<sigma>" "high \<sigma>' = high \<sigma>"
    "\<forall>p\<in>set (ops \<sigma>'). p \<in> set (ops \<sigma>) \<or> op_ok v stream \<sigma>' p"
    "\<forall>r\<in>set (log \<sigma>'). r \<in> set (log \<sigma>) \<or> backed stream \<sigma>' (Seqno r) (Target_Seqno r)"
  shows "cinv v start stream \<sigma>'"
  by (rule cinv_frame[OF assms(1)]) (use assms in \<open>auto simp: extends_def cinv_def\<close>)

lemma cinv_replace:
  fixes \<sigma> \<sigma>' :: "'s csys"
  assumes "cinv v start stream \<sigma>" "trk \<sigma>' = trk \<sigma>" "applied \<sigma>' = applied \<sigma>" "high \<sigma>' = high \<sigma>" "log \<sigma>' = log \<sigma>"
    "ops \<sigma>' = (ops \<sigma>)[i := p]" "op_ok v stream \<sigma>' p"
  shows "cinv v start stream \<sigma>'"
proof (rule cinv_local[OF assms(1-4)])
  show "\<forall>q\<in>set (ops \<sigma>'). q \<in> set (ops \<sigma>) \<or> op_ok v stream \<sigma>' q"
    using assms(6,7) set_update_subset_insert[of "ops \<sigma>" i p] by auto
qed (use assms(5) in simp)

lemma cinv_drop:
  fixes \<sigma> \<sigma>' :: "'s csys"
  assumes "cinv v start stream \<sigma>" "trk \<sigma>' = trk \<sigma>" "applied \<sigma>' = applied \<sigma>" "high \<sigma>' = high \<sigma>"
    "ops \<sigma>' = drop_op i (ops \<sigma>)" "\<forall>r\<in>set (log \<sigma>'). r \<in> set (log \<sigma>) \<or> backed stream \<sigma>' (Seqno r) (Target_Seqno r)"
  shows "cinv v start stream \<sigma>'"
proof (rule cinv_local[OF assms(1-4)])
  show "\<forall>q\<in>set (ops \<sigma>'). q \<in> set (ops \<sigma>) \<or> op_ok v stream \<sigma>' q"
    using assms(5) drop_op_subset[of i "ops \<sigma>"] by auto
qed (use assms(6) in simp)

lemma same_view: "trk \<sigma>' = trk \<sigma> \<Longrightarrow> applied \<sigma>' = applied \<sigma> \<Longrightarrow> extends \<sigma> \<sigma>'"
  by (simp add: extends_def)

lemma cinv_step:
  assumes ok: "stream_ok start stream" and es: "\<not> isTargetES cfg"
    and inv: "cinv v start stream \<sigma>" and st: "cstep cfg cs v stream \<sigma> \<sigma>'"
  shows "cinv v start stream \<sigma>'"
proof -
  have opsok: "op_ok v stream \<sigma> (ops \<sigma> ! i)" if "i < length (ops \<sigma>)" for i
    using inv that by (simp add: cinv_def)
  have tr: "treach v start stream (trk \<sigma>)"
    and sent: "\<forall>x. fate (trk \<sigma>) x = Some SeqnoTypeSent \<longrightarrow> applied \<sigma> x \<noteq> None"
    and le: "\<forall>x h. applied \<sigma> x = Some h \<longrightarrow> h \<le> high \<sigma>"
    using inv by (simp_all add: cinv_def)
  show ?thesis using st
  proof cases
    case (track t')
    show ?thesis
    proof (rule cinv_frame[OF inv])
      show "extends \<sigma> \<sigma>'" using tstep_fate[OF track(2)] track(1) by (simp add: extends_def)
      show "treach v start stream (trk \<sigma>')" using treach.step[OF tr track(2)] track(1) by simp
    qed (use track le in simp_all)
  next
    case (target_moves h')
    show ?thesis
    proof (rule cinv_frame[OF inv])
      show "\<forall>x h. applied \<sigma>' x = Some h \<longrightarrow> h \<le> high \<sigma>'" using le target_moves by (auto intro: order_trans)
    qed (use target_moves tr sent in \<open>simp_all add: extends_def\<close>)
  next
    case (target_answers x)
    show ?thesis
    proof (rule cinv_frame[OF inv])
      show "extends \<sigma> \<sigma>'" using target_answers by (auto simp: extends_def map_le_def)
      show "\<forall>x. fate (trk \<sigma>') x = Some SeqnoTypeSent \<longrightarrow> applied \<sigma>' x \<noteq> None" using target_answers sent by simp
    qed (use target_answers tr le in auto)
  next
    case (get_through T)
    have e: "extends \<sigma> \<sigma>'" using get_through(1) by (intro same_view) simp_all
    have "dealt_with stream \<sigma>' T" by (rule dealt_with_extends[OF e backed_through[OF ok inv get_through(2)]])
    then show ?thesis using get_through(1) by (intro cinv_local[OF inv]) simp_all
  next
    case (get_maps i T maps)
    have e: "extends \<sigma> \<sigma>'" using get_maps(1) by (intro same_view) simp_all
    have "dealt_with stream \<sigma> T" using opsok[OF get_maps(2)] get_maps(3) by simp
    then have "maps_ok v stream \<sigma>' maps"
      using get_maps(4,5) backed_now[OF _ inv] dealt_with_extends[OF e] backed_extends[OF e]
      by (auto simp: maps_ok_def)
    then show ?thesis using get_maps(1) by (intro cinv_replace[OF inv, where p = "HasMaps maps" and i = i]) simp_all
  next
    case (see_record i maps seen m')
    have e: "extends \<sigma> \<sigma>'" using see_record(1) by (intro same_view) simp_all
    have "op_ok v stream \<sigma>' (HasSeen maps seen)" using op_ok_extends[OF e opsok[OF see_record(2)]] see_record(3) by simp
    then show ?thesis using see_record(1) by (intro cinv_replace[OF inv, where p = "HasSeen maps seen" and i = i]) simp_all
  next
    case (collect i maps seen capi u m')
    have e: "extends \<sigma> \<sigma>'" using collect(1) by (intro same_view) simp_all
    have "maps_ok v stream \<sigma> maps" using opsok[OF collect(2)] collect(3) by simp
    then have "backed stream \<sigma> (up_seqno u) (up_target u)"
      using doCheckpoint_collect_effect[OF collect(4)] es by (auto simp: maps_ok_def)
    then have "op_ok v stream \<sigma>' (HasUpdate u)" using backed_extends[OF e] by simp
    then show ?thesis using collect(1) by (intro cinv_replace[OF inv, where p = "HasUpdate u" and i = i]) simp_all
  next
    case (give_up i maps seen capi err m')
    show ?thesis using give_up(1) by (intro cinv_drop[OF inv, where i = i]) simp_all
  next
    case (persist i u m' r)
    have e: "extends \<sigma> \<sigma>'" using persist(1) by (intro same_view) simp_all
    have "backed stream \<sigma>' (up_seqno u) (up_target u)"
      using opsok[OF persist(2)] persist(3) backed_extends[OF e] by simp
    moreover have "Seqno r = up_seqno u" "Target_Seqno r = up_target u"
      using updateAndPersist_effect[OF persist(4)] persist(5) by auto
    ultimately show ?thesis using persist(1) by (intro cinv_drop[OF inv, where i = i]) simp_all
  next
    case (persist_lost i u err m')
    show ?thesis using persist_lost(1) by (intro cinv_drop[OF inv, where i = i]) simp_all
  next
    case (stream_event e)
    show ?thesis using stream_event(1) by (intro cinv_local[OF inv]) simp_all
  next
    case (other_vb w capi maps err m')
    show ?thesis using other_vb(1) by (intro cinv_local[OF inv]) simp_all
  qed
qed

lemma creach_cinv:
  assumes "creach cfg cs v start stream m0 \<sigma>" "stream_ok start stream" "\<not> isTargetES cfg"
  shows "cinv v start stream \<sigma>"
  using assms(1)
proof induction
  case (init ts h)
  then show ?case by (auto simp: cinv_def csys_init_def tsys_init_def[symmetric] intro: treach.init) (simp_all add: tsys_init_def)
next
  case (step \<sigma> \<sigma>')
  then show ?case using cinv_step[OF assms(2,3)] by blast
qed


section \<open>What is stored\<close>

lemma doCheckpoint_other:
  assumes "doCheckpoint cfg cs capi w maps m = Some (err, m')" "v \<noteq> w"
  shows "cur_ckpts m' v = cur_ckpts m v \<and>
    (ck_store m' = ck_store m \<or>
     (\<exists>r x res. cs_UpsertCheckpoints cs (Topic cfg) (InternalId cfg) w (Some r) x (target_cluster_version cfg) (ck_store m) =
        (res, ck_store m')))"
proof -
  obtain rd m1 where rd: "doCheckpoint_read w m = Some (rd, m1)"
    using assms(1) by (auto simp: doCheckpoint_def split: option.splits)
  note f1 = doCheckpoint_read_frame[OF rd]
  show ?thesis
  proof (cases rd)
    case (Inl e)
    then show ?thesis using assms rd f1 by (auto simp: doCheckpoint_def)
  next
    case (Inr seen)
    then obtain dec m2 where c: "doCheckpoint_collect cfg capi w maps seen m1 = Some (dec, m2)"
      using assms(1) rd by (auto simp: doCheckpoint_def split: option.splits)
    note f2 = doCheckpoint_collect_effect[OF c]
    show ?thesis
    proof (cases dec)
      case (Return e)
      then show ?thesis using assms rd c Inr f1 f2 by (auto simp: doCheckpoint_def)
    next
      case (Update u)
      then obtain e where p: "updateAndPersist cfg cs w u m2 = Some (e, m')"
        using assms(1) rd c Inr by (auto simp: doCheckpoint_def split: option.splits)
      show ?thesis
      proof (cases e)
        case None
        with updateAndPersist_effect[OF p] show ?thesis using f1 f2 assms(2) by auto
      next
        case (Some x)
        with updateAndPersist_effect[OF p] show ?thesis using f1 f2 by auto
      qed
    qed
  qed
qed

context checkpoint_store
begin

text \<open>The records stored for the vbucket are those of before and those the operations wrote.\<close>

lemma stored_in_log:
  assumes "creach cfg cs v start stream m0 \<sigma>" "Topic cfg = topic" "target_cluster_version cfg = ver"
    "wf (ck_store m0) v" "\<forall>r\<in>set (log \<sigma>). storable r"
  shows "wf (ck_store (mgr \<sigma>)) v \<and> recs (ck_store (mgr \<sigma>)) v \<subseteq> recs (ck_store m0) v \<union> set (log \<sigma>)"
  using assms(1,5)
proof induction
  case (init ts h)
  then show ?case using assms(4) by (simp add: csys_init_def)
next
  case (step \<sigma> \<sigma>')
  from step.hyps(2) show ?case
  proof cases
    case (see_record i maps seen m')
    then show ?thesis using step.IH step.prems doCheckpoint_read_frame[of v "mgr \<sigma>"] by fastforce
  next
    case (collect i maps seen capi u m')
    then show ?thesis using step.IH step.prems doCheckpoint_collect_effect[OF collect(4)] by fastforce
  next
    case (give_up i maps seen capi err m')
    then show ?thesis using step.IH step.prems doCheckpoint_collect_effect[OF give_up(4)] by fastforce
  next
    case (persist i u m' r)
    then have IH: "wf (ck_store (mgr \<sigma>)) v \<and> recs (ck_store (mgr \<sigma>)) v \<subseteq> recs (ck_store m0) v \<union> set (log \<sigma>)" "storable r"
      using step.IH step.prems by auto
    from updateAndPersist_effect[OF persist(4)] obtain res r0 where
      "cs_UpsertCheckpoints cs topic (InternalId cfg) v (Some r) (up_xattr u) ver (ck_store (mgr \<sigma>)) = (Some res, ck_store m')"
      using persist(5) assms(2,3) by auto
    from upsert_adds[OF _ IH(2) this] IH(1) persist show ?thesis by auto
  next
    case (persist_lost i u err m')
    then show ?thesis using step.IH step.prems updateAndPersist_effect[OF persist_lost(4)] by simp
  next
    case (stream_event e)
    then show ?thesis using step.IH step.prems OnEvent_frame[of cfg e "mgr \<sigma>"] by simp
  next
    case (other_vb w capi maps err m')
    have "v \<noteq> w" using other_vb by simp
    from doCheckpoint_other[OF other_vb(3) this] show ?thesis
    proof (elim conjE disjE exE)
      assume "ck_store m' = ck_store (mgr \<sigma>)"
      then show ?thesis using step.IH step.prems other_vb by simp
    next
      fix r x res assume "cs_UpsertCheckpoints cs (Topic cfg) (InternalId cfg) w (Some r) x (target_cluster_version cfg)
          (ck_store (mgr \<sigma>)) = (res, ck_store m')"
      from upsert_frame[OF this[unfolded assms(2)] \<open>v \<noteq> w\<close>] show ?thesis
        using step.IH step.prems other_vb by simp
    qed
  qed (use step.IH step.prems in simp_all)
qed

end


section \<open>Runs\<close>

lemma tstep_fate_dom: "tstep v stream t t' \<Longrightarrow> dom (fate t') \<subseteq> dom (fate t) \<union> set stream"
  by (erule tstep.cases) auto

lemma treach_fate_dom: "treach v start stream t \<Longrightarrow> dom (fate t) \<subseteq> set stream"
proof (induction rule: treach.induct)
  case (step t t')
  then show ?case using tstep_fate_dom by blast
qed (simp add: tsys_init_def)

text \<open>
  Every run of the tracker is one of the system in which the target has answered
  all requests beforehand.
\<close>

lemma creach_answered:
  assumes "view v ts = Some (start_view start)"
  shows "\<exists>\<sigma>. creach cfg cs v start stream m0 \<sigma> \<and> \<sigma> = (csys_init ts m0 h)\<lparr>applied := (\<lambda>x. if x \<in> set xs then Some h else None)\<rparr>"
proof (induction xs)
  case Nil
  then show ?case using creach.init[OF assms, of cfg cs stream m0 h] by (simp add: csys_init_def)
next
  case (Cons y ys)
  let ?f = "\<lambda>ys x. if x \<in> set ys then Some h else None"
  let ?\<sigma> = "\<lambda>ys. (csys_init ts m0 h)\<lparr>applied := ?f ys\<rparr>"
  have IH: "creach cfg cs v start stream m0 (?\<sigma> ys)" using Cons by simp
  show ?case
  proof (cases "y \<in> set ys")
    case True
    then have "set (y # ys) = set ys" by auto
    then show ?thesis using IH by simp
  next
    case False
    then have "cstep cfg cs v stream (?\<sigma> ys) ((?\<sigma> ys)\<lparr>applied := (applied (?\<sigma> ys))(y \<mapsto> high (?\<sigma> ys))\<rparr>)"
      by (intro cstep.target_answers) simp
    moreover have "(?f ys)(y \<mapsto> h) = ?f (y # ys)" by auto
    ultimately have "cstep cfg cs v stream (?\<sigma> ys) (?\<sigma> (y # ys))" by (simp add: csys_init_def)
    then show ?thesis using creach.step[OF IH] by blast
  qed
qed

lemma creach_of_treach:
  assumes "treach v start stream t"
  shows "\<exists>\<sigma>. creach cfg cs v start stream m0 \<sigma> \<and> trk \<sigma> = t \<and> mgr \<sigma> = m0 \<and> ops \<sigma> = [] \<and> log \<sigma> = [] \<and> high \<sigma> = h \<and>
    (\<forall>x\<in>set stream. applied \<sigma> x = Some h)"
  using assms
proof induction
  case (init ts)
  then show ?case using creach_answered[OF init, where xs = stream and stream = stream and h = h and cfg = cfg and cs = cs and ?m0.0 = m0] by (auto simp: csys_init_def)
next
  case (step t t')
  then obtain \<sigma> where \<sigma>: "creach cfg cs v start stream m0 \<sigma>" "trk \<sigma> = t" "mgr \<sigma> = m0" "ops \<sigma> = []" "log \<sigma> = []"
    "high \<sigma> = h" "\<forall>x\<in>set stream. applied \<sigma> x = Some h" by blast
  have "dom (fate t') \<subseteq> set stream" using treach_fate_dom[OF treach.step[OF step.hyps]] .
  then have "cstep cfg cs v stream \<sigma> (\<sigma>\<lparr>trk := t'\<rparr>)"
    using \<sigma> step.hyps(2) by (intro cstep.track) auto
  then show ?case using creach.step[OF \<sigma>(1)] \<sigma> by (intro exI[of _ "\<sigma>\<lparr>trk := t'\<rparr>"]) auto
qed


section \<open>Properties of concurrent checkpoints\<close>



text \<open>
  A manager of vbucket 7 over an empty store, with the failover log and the
  snapshot of the stream 2, 3, 5, and an operation that finds 3 and a target at
  number 40.
\<close>

definition example_mgr :: "content mem CheckpointManager" where
  "example_mgr = \<lparr>
     cur_ckpts = [7 \<mapsto> \<lparr>ckpt = Some (empty_record\<lparr>Target_vb_opaque := Some (TargetVBUuid 9)\<rparr>), versionNum = 0\<rparr>],
     failoverlog_map = [7 \<mapsto> Some [(4, 0)]], snapshot_history_map = [7 \<mapsto> [\<lparr>start_seqno = 0, end_seqno = 5\<rparr>]],
     ck_tracker = NewThroughSeqnoTrackerSvc, start_ts = Map.empty, ck_store = (0, Map.empty), ck_raised = []\<rparr>"

definition example_maps :: ckpt_maps where
  "example_maps = \<lparr>through_seqnos = [7 \<mapsto> 3], high_seqno_and_vbuuid = [7 \<mapsto> (40, 9)], xattr_seqnos = [7 \<mapsto> 0]\<rparr>"

definition example_update :: ckpt_update where
  "example_update = \<lparr>up_version = 0, up_xattr = 0, up_seqno = 3, up_target = 40, up_failover = 4, up_snap_start = 0, up_snap_end = 5\<rparr>"

definition example_written :: CheckpointRecord where
  "example_written = apply_update example_update (empty_record\<lparr>Target_vb_opaque := Some (TargetVBUuid 9)\<rparr>)"

definition example_cs :: "content mem CheckpointsService" where
  "example_cs = checkpoints_svc mem_metakv example_settings 2"

definition example_stored :: CheckpointsDoc where
  "example_stored = \<lparr>Checkpoint_records = [Some example_written, None], XattrSeqno = 0,
     TargetClusterVersion = 0x50000, SpecInternalId = ''i''\<rparr>"

lemma example_exact: "exact_record example_written" "exact_doc example_stored"
  by (simp_all add: exact_doc_def example_stored_def example_written_def exact_record_def exact_u64_def
      example_update_def apply_update_def empty_record_def float64_of_def bit_length.simps)


lemma example_upsert:
  "UpsertCheckpoints mem_metakv example_settings 2 ''t'' ''i'' 7 (Some example_written) 0 0x50000 (0, Map.empty) =
     (Some None, (0, [getPathFromKey (getCheckpointDocKey ''t'' 7) \<mapsto> (Json (marshal_doc example_stored), 0)]))"
proof -
  have "IsSame None (Some example_written) = Some False" by (simp add: IsSame_def)
  then have "AddRecord 2 (Some example_written) (update_doc_fields 0 0x50000 (NewCheckpointsDoc 2 ''i'')) = Some (example_stored, True)"
    by (simp add: AddRecord_def update_doc_fields_def NewCheckpointsDoc_def example_stored_def numeral_2_eq_2 Let_def)
  then show ?thesis
    by (simp add: UpsertCheckpoints_def CheckpointsDoc_get_def mem_eval)
qed

lemma example_read:
  "CheckpointsDoc_get mem_metakv example_settings ''t'' 7
     (0, [getPathFromKey (getCheckpointDocKey ''t'' 7) \<mapsto> (Json (marshal_doc example_stored), 0)]) =
   (Some (Inr example_stored), (0, [getPathFromKey (getCheckpointDocKey ''t'' 7) \<mapsto> (Json (marshal_doc example_stored), 0)]))"
  by (simp add: CheckpointsDoc_get_def mem_eval constructCheckpointDoc_def exact_doc_roundtrip[OF example_exact(2)])

lemma example_collect:
  "doCheckpoint_read 7 example_mgr = Some (Inr \<lparr>seen_version = 0, seen_seqno = 0, seen_opaque = Some (TargetVBUuid 9)\<rparr>, example_mgr) \<and>
   doCheckpoint_collect example_cfg example_capi 7 example_maps
     \<lparr>seen_version = 0, seen_seqno = 0, seen_opaque = Some (TargetVBUuid 9)\<rparr> example_mgr = Some (Update example_update, example_mgr)"
  by (simp add: doCheckpoint_read_def doCheckpoint_collect_def example_mgr_def example_cfg_def example_maps_def
      example_update_def empty_record_def getThroughSeqno_def getRemoteSeqno_def getFailoverUUIDForSeqno_def
      getSnapshotForSeqno_def getXattrSeqno_def)

lemma example_persist:
  "\<exists>m'. updateAndPersist example_cfg example_cs 7 example_update example_mgr = Some (None, m') \<and>
     cur_record 7 m' = Some example_written \<and>
     ck_store m' = (0, [getPathFromKey (getCheckpointDocKey ''t'' 7) \<mapsto> (Json (marshal_doc example_stored), 0)])"
proof -
  have "cs_UpsertCheckpoints example_cs ''t'' ''i'' 7 (Some example_written) 0 0x50000 (0, Map.empty) =
     (Some None, (0, [getPathFromKey (getCheckpointDocKey ''t'' 7) \<mapsto> (Json (marshal_doc example_stored), 0)]))"
    using example_upsert by (simp add: example_cs_def checkpoints_svc_def)
  then show ?thesis
    by (simp add: updateAndPersist_def example_mgr_def example_cfg_def persistCkptRecord_def cur_record_def raise_event_def
        example_update_def example_written_def Let_def)
qed

lemma example_checkpoint_run:
  "\<exists>\<sigma>. creach example_cfg example_cs 7 0 [2, 3, 5] example_mgr \<sigma> \<and> log \<sigma> = [example_written] \<and>
     fate (trk \<sigma>) = [3 \<mapsto> SeqnoTypeSent, 2 \<mapsto> SeqnoTypeSent] \<and>
     CheckpointsDoc_get mem_metakv example_settings ''t'' 7 (ck_store (mgr \<sigma>)) = (Some (Inr example_stored), ck_store (mgr \<sigma>))"
proof -
  obtain t where t: "treach 7 0 [2, 3, 5] t" "fate t = [3 \<mapsto> SeqnoTypeSent, 2 \<mapsto> SeqnoTypeSent]"
    "view 7 (svc t) = Some (example_view\<lparr>v_through := 3, v_sent := [2, 3]\<rparr>)"
    using example_run_through by blast
  obtain \<sigma> where \<sigma>: "creach example_cfg example_cs 7 0 [2, 3, 5] example_mgr \<sigma>" "trk \<sigma> = t" "mgr \<sigma> = example_mgr"
    "ops \<sigma> = []" "log \<sigma> = []" "high \<sigma> = 40"
    using creach_of_treach[OF t(1), of example_cfg example_cs example_mgr 40] by blast
  obtain m' where m': "updateAndPersist example_cfg example_cs 7 example_update example_mgr = Some (None, m')"
    "cur_record 7 m' = Some example_written"
    "ck_store m' = (0, [getPathFromKey (getCheckpointDocKey ''t'' 7) \<mapsto> (Json (marshal_doc example_stored), 0)])"
    using example_persist by blast
  let ?seen = "\<lparr>seen_version = 0, seen_seqno = 0, seen_opaque = Some (TargetVBUuid 9)\<rparr>"
  let ?S = "\<lambda>m p l. \<lparr>trk = t, mgr = m, high = 40, applied = applied \<sigma>, ops = p, log = l\<rparr>"
  let ?st = "cstep example_cfg example_cs 7 [2, 3, 5]"
  have "\<sigma> = ?S example_mgr [] []" using \<sigma> by simp
  then have r0: "creach example_cfg example_cs 7 0 [2, 3, 5] example_mgr (?S example_mgr [] [])" using \<sigma>(1) by simp
  have "?st (?S example_mgr [] []) (?S example_mgr [HasThrough 3] [])"
    using cstep.get_through[of "?S example_mgr [] []" 7 3 example_cfg example_cs "[2, 3, 5]"] t(3) by (simp add: view_Some_iff)
  moreover have "?st (?S example_mgr [HasThrough 3] []) (?S example_mgr [HasMaps example_maps] [])"
    using cstep.get_maps[of 0 "?S example_mgr [HasThrough 3] []" 3 example_maps 7 example_cfg example_cs "[2, 3, 5]"]
    by (simp add: example_maps_def)
  moreover have "?st (?S example_mgr [HasMaps example_maps] []) (?S example_mgr [HasSeen example_maps ?seen] [])"
    using cstep.see_record[of 0 "?S example_mgr [HasMaps example_maps] []" example_maps 7 ?seen example_mgr example_cfg example_cs "[2, 3, 5]"]
      example_collect by simp
  moreover have "?st (?S example_mgr [HasSeen example_maps ?seen] []) (?S example_mgr [HasUpdate example_update] [])"
    using cstep.collect[of 0 "?S example_mgr [HasSeen example_maps ?seen] []" example_maps ?seen example_cfg example_capi 7
        example_update example_mgr example_cs "[2, 3, 5]"]
      example_collect by simp
  moreover have "?st (?S example_mgr [HasUpdate example_update] []) (?S m' [] [example_written])"
    using cstep.persist[of 0 "?S example_mgr [HasUpdate example_update] []" example_update example_cfg example_cs 7 m'
        example_written "[2, 3, 5]"] m'
    by (simp add: drop_op_def)
  ultimately have "creach example_cfg example_cs 7 0 [2, 3, 5] example_mgr (?S m' [] [example_written])"
    using r0 by (meson creach.step)
  then show ?thesis using t(2) m'(3) example_read
    by (intro exI[of _ "?S m' [] [example_written]"]) simp
qed


end
