(* ===== verification/Dcp_Nozzle.thy ===== *)
theory Dcp_Nozzle
  imports Checkpoint_Manager Part Memcached
begin

text \<open>
  The source nozzle, \<open>parts/dcp_nozzle.go\<close>: one DCP stream per vbucket, opened at the
  timestamp the checkpoint manager sets, renegotiated while the data service
  answers with rollbacks, and then forwarding the mutations it receives.

  The feed of the memcached client is outside: the requests the nozzle sends are
  collected in \<open>requests\<close>, the events it delivers are the argument of
  \<open>processEvent\<close>.  \<open>vbtimestamp_updater\<close> is the operation of the checkpoint manager
  the factory installs there; its state is threaded through.
\<close>


section \<open>The handshake helper\<close>

datatype DcpStreamState = Dcp_Stream_NonInit | Dcp_Stream_Init | Dcp_Stream_Active

text \<open>
  A missing key of \<open>ackedMsgs\<close> reads as false.  \<open>currentVersionWell\<close> counts the
  requests; their version is its low half.
\<close>

record dcpStreamReqHelper =
  sentMsgs :: "uint16 \<rightharpoonup> uint64"
  ackedMsgs :: "uint64 \<rightharpoonup> bool"
  isDisabled :: bool
  currentVersionWell :: uint64

definition is_acked :: "dcpStreamReqHelper \<Rightarrow> uint64 \<Rightarrow> bool" where
  "is_acked h seqno = (ackedMsgs h seqno = Some True)"

definition helper_initialize :: "dcpStreamReqHelper \<Rightarrow> dcpStreamReqHelper" where
  "helper_initialize h = h\<lparr>sentMsgs := Map.empty, ackedMsgs := Map.empty, currentVersionWell := 0\<rparr>"

definition getDisabledError :: goerror where
  "getDisabledError = Formatted ''vbReqHelper is disabled''"

text \<open>The state of the stream is that of the nozzle; an unknown vbucket is \<open>None\<close>.\<close>

definition isStreamActiveNoLock :: "DcpStreamState option \<Rightarrow> dcpStreamReqHelper \<Rightarrow> bool" where
  "isStreamActiveNoLock status h = (\<not> isDisabled h \<and> status = Some Dcp_Stream_Active)"

text \<open>The version, and whether the overflow is reported as an error.\<close>

definition getNewVersion :: "dcpStreamReqHelper \<Rightarrow> uint16 \<times> bool \<times> dcpStreamReqHelper" where
  "getNewVersion h =
     (let newVersion = currentVersionWell h + 1 in
      if newVersion > 0xFFFF then (0, \<not> isDisabled h, h\<lparr>currentVersionWell := 0\<rparr>)
      else (ucast newVersion, False, h\<lparr>currentVersionWell := newVersion\<rparr>))"

definition getNumberOfOutstandingReqs :: "dcpStreamReqHelper \<Rightarrow> nat" where
  "getNumberOfOutstandingReqs h = card {version. case sentMsgs h version of None \<Rightarrow> False | Some seqno \<Rightarrow> \<not> is_acked h seqno}"

definition deregisterRequestNoLock :: "uint16 \<Rightarrow> dcpStreamReqHelper \<Rightarrow> dcpStreamReqHelper" where
  "deregisterRequestNoLock version h =
     (case sentMsgs h version of
        None \<Rightarrow> h
      | Some seqno \<Rightarrow> h\<lparr>ackedMsgs := (ackedMsgs h)(seqno \<mapsto> True)\<rparr>)"

definition registerRequest ::
  "DcpStreamState option \<Rightarrow> uint16 \<Rightarrow> uint64 \<Rightarrow> dcpStreamReqHelper \<Rightarrow> (goerror + bool) \<times> dcpStreamReqHelper" where
  "registerRequest status version seqno h =
     (if isDisabled h then (Inl getDisabledError, h)
      else
        (let alreadyAcked = (if isStreamActiveNoLock status h then True else is_acked h seqno)
         in (Inr alreadyAcked, if \<not> alreadyAcked then h\<lparr>sentMsgs := (sentMsgs h)(version \<mapsto> seqno)\<rparr> else h)))"

text \<open>
  Whether to ignore the response, and the error.  A rollback of a request that
  started at 0 is an error but not ignored.
\<close>

definition processRollbackResponse ::
  "DcpStreamState option \<Rightarrow> uint16 \<Rightarrow> dcpStreamReqHelper \<Rightarrow> (bool \<times> goerror option) \<times> dcpStreamReqHelper" where
  "processRollbackResponse status version h =
     (if isDisabled h then ((False, Some getDisabledError), h)
      else if isStreamActiveNoLock status h then ((True, None), deregisterRequestNoLock version h)
      else
        (case sentMsgs h version of
           None \<Rightarrow> ((True, Some (Formatted ''Received a ROLLBACK message, but was never sent'')), h)
         | Some seqno \<Rightarrow>
             (let acked = is_acked h seqno;
                  helperErr = (if seqno = 0 then Some (Formatted ''Received a ROLLBACK message, last sent was 0'') else None)
              in ((acked, helperErr), if \<not> acked then deregisterRequestNoLock version h else h))))"

definition processSuccessResponse :: "dcpStreamReqHelper \<Rightarrow> dcpStreamReqHelper" where
  "processSuccessResponse h = (if isDisabled h then h else helper_initialize h)"

definition helper_disable :: "dcpStreamReqHelper \<Rightarrow> dcpStreamReqHelper" where
  "helper_disable h = h\<lparr>isDisabled := True\<rparr>"


section \<open>The nozzle\<close>

datatype dcp_event =
    DcpError goerror
  | DcpVBError vbno goerror
  | DcpStreamingStart vbno FailoverLog
  | DcpDataReceived vbno uint64
  | DcpDataProcessed vbno uint64
  | DcpSnapshot vbno uint64 uint64

text \<open>A stream request: vbucket, version, uuid, start seqno and snapshot bounds.\<close>

type_synonym stream_request = "vbno \<times> uint16 \<times> VBTimestamp"

record DcpNozzle =
  vbnos :: "vbno list"
  vb_xattr_seqno_map :: "vbno \<rightharpoonup> uint64"
  vb_stream_status :: "vbno \<rightharpoonup> DcpStreamState"
  cur_ts :: "vbno \<rightharpoonup> VBTimestamp option"
  vbHandshakeMap :: "vbno \<rightharpoonup> dcpStreamReqHelper"
  uprFeed :: bool
  bOpen :: bool
  is_capi :: bool
  counter_received :: uint64
  counter_compressed_received :: uint64
  counter_sent :: uint64
  counter_received_last :: uint64
  counter_streams_inactive :: uint32
  dcp_miss_count :: uint32
  max_dcp_miss_count :: uint32
  dcp_state :: PartState
  requests :: "stream_request list"
  dcp_raised :: "dcp_event list"

definition dcp_raise :: "dcp_event \<Rightarrow> DcpNozzle \<Rightarrow> DcpNozzle" where
  "dcp_raise e d = d\<lparr>dcp_raised := dcp_raised d @ [e]\<rparr>"

definition dcp_handleGeneralError :: "goerror \<Rightarrow> DcpNozzle \<Rightarrow> DcpNozzle" where
  "dcp_handleGeneralError err d =
     (case handleGeneralError err (dcp_state d) of
        (p, es) \<Rightarrow> fold dcp_raise (map DcpError es) (d\<lparr>dcp_state := p\<rparr>))"

definition dcp_handleVBError :: "vbno \<Rightarrow> goerror \<Rightarrow> DcpNozzle \<Rightarrow> DcpNozzle" where
  "dcp_handleVBError vb err = dcp_raise (DcpVBError vb err)"

definition NewDcpNozzle :: "vbno list \<Rightarrow> bool \<Rightarrow> DcpNozzle" where
  "NewDcpNozzle vbs capi =
     \<lparr>vbnos = vbs, vb_xattr_seqno_map = (if capi then Map.empty else (\<lambda>vb. if vb \<in> set vbs then Some 0 else None)),
      vb_stream_status = (\<lambda>vb. if vb \<in> set vbs then Some Dcp_Stream_NonInit else None),
      cur_ts = (\<lambda>vb. if vb \<in> set vbs then Some None else None), vbHandshakeMap = Map.empty, uprFeed = False,
      bOpen = True, is_capi = capi, counter_received = 0, counter_compressed_received = 0, counter_sent = 0,
      counter_received_last = 0, counter_streams_inactive = 0, dcp_miss_count = 0, max_dcp_miss_count = 0,
      dcp_state = Part_Initial, requests = [], dcp_raised = []\<rparr>"

definition initializeUprHandshakeHelpers :: "DcpNozzle \<Rightarrow> DcpNozzle" where
  "initializeUprHandshakeHelpers d = d\<lparr>vbHandshakeMap := fold (\<lambda>vb hm. hm(vb \<mapsto>
     helper_initialize \<lparr>sentMsgs = Map.empty, ackedMsgs = Map.empty, isDisabled = False, currentVersionWell = 0\<rparr>))
       (vbnos d) (vbHandshakeMap d)\<rparr>"

definition cleanUpProcessDataHelpers :: "DcpNozzle \<Rightarrow> DcpNozzle" where
  "cleanUpProcessDataHelpers d = d\<lparr>vbHandshakeMap := map_option helper_disable \<circ> vbHandshakeMap d\<rparr>"

definition dcp_Open :: "DcpNozzle \<Rightarrow> DcpNozzle" where
  "dcp_Open d = d\<lparr>bOpen := True\<rparr>"

definition dcp_Close :: "DcpNozzle \<Rightarrow> DcpNozzle" where
  "dcp_Close d = d\<lparr>bOpen := False\<rparr>"

definition setStreamState :: "vbno \<Rightarrow> DcpStreamState \<Rightarrow> DcpNozzle \<Rightarrow> goerror option \<times> DcpNozzle" where
  "setStreamState vb st d =
     (case vb_stream_status d vb of
        Some _ \<Rightarrow> (None, d\<lparr>vb_stream_status := (vb_stream_status d)(vb \<mapsto> st)\<rparr>)
      | None \<Rightarrow> (let err = Formatted ''Trying to set stream state to invalid vbno'' in (Some err, dcp_handleGeneralError err d)))"

definition GetStreamState :: "vbno \<Rightarrow> DcpNozzle \<Rightarrow> (goerror + DcpStreamState) \<times> DcpNozzle" where
  "GetStreamState vb d =
     (case vb_stream_status d vb of
        Some st \<Rightarrow> (Inr st, d)
      | None \<Rightarrow> (let err = Formatted ''Try to get stream state to invalid vbno'' in (Inl err, dcp_handleGeneralError err d)))"

definition setTS :: "vbno \<Rightarrow> VBTimestamp \<Rightarrow> DcpNozzle \<Rightarrow> goerror option \<times> DcpNozzle" where
  "setTS vb ts d =
     (case cur_ts d vb of
        Some _ \<Rightarrow> (None, d\<lparr>cur_ts := (cur_ts d)(vb \<mapsto> Some ts)\<rparr>)
      | None \<Rightarrow> (let err = Formatted ''setTS failed: vbno is not tracked in cur_ts map'' in (Some err, dcp_handleGeneralError err d)))"

definition getTS :: "vbno \<Rightarrow> DcpNozzle \<Rightarrow> (goerror + VBTimestamp option) \<times> DcpNozzle" where
  "getTS vb d =
     (case cur_ts d vb of
        Some ts \<Rightarrow> (Inr ts, d)
      | None \<Rightarrow> (let err = Formatted ''getTS failed: vbno is not tracked in cur_ts map'' in (Inl err, dcp_handleGeneralError err d)))"

definition isTSSet :: "vbno \<Rightarrow> DcpNozzle \<Rightarrow> bool \<times> DcpNozzle" where
  "isTSSet vb d =
     (case getTS vb d of
        (Inl _, d') \<Rightarrow> (True, dcp_handleGeneralError (Formatted ''isTSSet failed: vbno is not tracked in cur_ts map'') d')
      | (Inr ts, d') \<Rightarrow> (ts \<noteq> None, d'))"

text \<open>The settings map of new timestamps, in the order it is ranged over.\<close>

fun onUpdateStartingSeqno :: "(vbno \<times> VBTimestamp) list \<Rightarrow> DcpNozzle \<Rightarrow> DcpNozzle" where
  "onUpdateStartingSeqno [] d = d"
| "onUpdateStartingSeqno ((vb, vbts) # ts) d =
     onUpdateStartingSeqno ts
       (case cur_ts d vb of
          None \<Rightarrow> d
        | Some _ \<Rightarrow> (case isTSSet vb d of (True, d') \<Rightarrow> d' | (False, d') \<Rightarrow> snd (setTS vb vbts d')))"

text \<open>
  \<open>feed_ok\<close> is the outcome of \<open>UprRequestStream\<close>.  \<open>None\<close> is the nil dereference of a
  missing helper.
\<close>

definition startUprStreamInner ::
  "bool \<Rightarrow> vbno \<Rightarrow> VBTimestamp \<Rightarrow> uint16 \<Rightarrow> DcpNozzle \<Rightarrow> (goerror option \<times> DcpNozzle) option" where
  "startUprStreamInner feed_ok vb vbts version d =
     (if uprFeed d then
        (case vb_stream_status d vb of
           None \<Rightarrow>
             (let err = Formatted ''Try to startUprStream for invalid vbno'' in Some (Some err, dcp_handleGeneralError err d))
         | Some status \<Rightarrow>
             (case vbHandshakeMap d vb of
                None \<Rightarrow> None
              | Some h \<Rightarrow>
                  (case registerRequest (Some status) version (ts_Seqno vbts) h of
                     (Inl err, h') \<Rightarrow> Some (Some err, dcp_handleGeneralError err d)
                   | (Inr ignore, h') \<Rightarrow>
                       (let d1 = d\<lparr>vbHandshakeMap := (vbHandshakeMap d)(vb \<mapsto> h')\<rparr> in
                        if ignore then Some (None, d1)
                        else if feed_ok
                        then Some (setStreamState vb Dcp_Stream_Init (d1\<lparr>requests := requests d1 @ [(vb, version, vbts)]\<rparr>))
                        else Some (Some (Formatted ''upr request''), d1)))))
      else Some (None, d))"

definition startUprStream :: "bool \<Rightarrow> vbno \<Rightarrow> VBTimestamp \<Rightarrow> DcpNozzle \<Rightarrow> (goerror option \<times> DcpNozzle) option" where
  "startUprStream feed_ok vb vbts d =
     (case vbHandshakeMap d vb of
        None \<Rightarrow> None
      | Some h \<Rightarrow>
          (case getNewVersion h of
             (version, overflow, h') \<Rightarrow>
               (let d1 = d\<lparr>vbHandshakeMap := (vbHandshakeMap d)(vb \<mapsto> h')\<rparr>;
                    d2 = (if overflow then dcp_raise (DcpError (Formatted ''internal version overflow'')) d1 else d1)
                in startUprStreamInner feed_ok vb vbts version d2)))"

text \<open>The loop over the shuffled vbuckets; an error of one does not stop it.\<close>

fun startUprStreams_internal :: "(vbno \<Rightarrow> bool) \<Rightarrow> vbno list \<Rightarrow> DcpNozzle \<Rightarrow> DcpNozzle option" where
  "startUprStreams_internal feed_ok [] d = Some d"
| "startUprStreams_internal feed_ok (vb # vbs) d =
     (case getTS vb d of
        (Inr (Some vbts), d') \<Rightarrow>
          (case startUprStream (feed_ok vb) vb vbts d' of
             None \<Rightarrow> None
           | Some (_, d'') \<Rightarrow> startUprStreams_internal feed_ok vbs d'')
      | (_, d') \<Rightarrow> startUprStreams_internal feed_ok vbs d')"

text \<open>The vbuckets of the nozzle have a stream state, so the error of \<open>GetStreamState\<close> does not arise.\<close>

definition getDcpStreams :: "(DcpStreamState \<Rightarrow> bool) \<Rightarrow> DcpNozzle \<Rightarrow> vbno list" where
  "getDcpStreams stateCheck d =
     filter (\<lambda>vb. case vb_stream_status d vb of None \<Rightarrow> False | Some st \<Rightarrow> stateCheck st) (vbnos d)"

definition inactiveDcpStreams :: "DcpNozzle \<Rightarrow> vbno list" where
  "inactiveDcpStreams = getDcpStreams (\<lambda>st. st \<noteq> Dcp_Stream_Active)"

definition initedButInactiveDcpStreams :: "DcpNozzle \<Rightarrow> vbno list" where
  "initedButInactiveDcpStreams = getDcpStreams (\<lambda>st. st = Dcp_Stream_Init)"

definition nonInitDcpStreams :: "DcpNozzle \<Rightarrow> vbno list" where
  "nonInitDcpStreams = getDcpStreams (\<lambda>st. st = Dcp_Stream_NonInit)"

definition MaxCountStreamsInactive :: uint32 where
  "MaxCountStreamsInactive = 40"

definition checkInactiveUprStreams_once :: "(nat \<Rightarrow> nat) \<Rightarrow> (vbno \<Rightarrow> bool) \<Rightarrow> DcpNozzle \<Rightarrow> DcpNozzle option" where
  "checkInactiveUprStreams_once rand feed_ok d =
     (let streams_inactive = initedButInactiveDcpStreams d in
      if streams_inactive \<noteq> [] then
        (let d1 = d\<lparr>counter_streams_inactive := counter_streams_inactive d + 1\<rparr> in
         if counter_streams_inactive d1 > MaxCountStreamsInactive
         then map_option (\<lambda>d2. d2\<lparr>counter_streams_inactive := 0\<rparr>)
                (startUprStreams_internal feed_ok (ShuffleVbList rand streams_inactive) d1)
         else Some d1)
      else Some d)"

text \<open>One tick of the routine that starts the streams: true when it is done.\<close>

definition startUprStreams_tick :: "(nat \<Rightarrow> nat) \<Rightarrow> (vbno \<Rightarrow> bool) \<Rightarrow> DcpNozzle \<Rightarrow> (bool \<times> DcpNozzle) option" where
  "startUprStreams_tick rand feed_ok d =
     (let streams_non_init = nonInitDcpStreams d in
      if streams_non_init = [] then Some (True, d)
      else map_option (Pair False) (startUprStreams_internal feed_ok (ShuffleVbList rand streams_non_init) d))"

text \<open>
  Messages of the feed, as far as the nozzle tells them apart.  A mutation carries
  its data type and the answer of the client library's \<open>IsSnappyDataType\<close> for it.
\<close>

datatype upr_msg =
    StreamNotMyVBucket vbno
  | StreamRollback vbno uint16 uint64
  | StreamSuccess vbno uint16 FailoverLog
  | StreamOtherStatus vbno
  | StreamEnd vbno
  | UprMutation vbno uint64 uint8 bool
  | UprSnapshot vbno uint64 uint64
  | UprOther

definition handleXattr :: "vbno \<Rightarrow> uint64 \<Rightarrow> uint8 \<Rightarrow> DcpNozzle \<Rightarrow> DcpNozzle" where
  "handleXattr vb seqno dataType d =
     (if HasXattr dataType then
        (case vb_xattr_seqno_map d vb of
           Some x \<Rightarrow> if x = 0 then d\<lparr>vb_xattr_seqno_map := (vb_xattr_seqno_map d)(vb \<mapsto> seqno)\<rparr> else d
         | None \<Rightarrow> d)
      else d)"

definition GetXattrSeqnos :: "DcpNozzle \<Rightarrow> (vbno \<rightharpoonup> uint64)" where
  "GetXattrSeqnos d = vb_xattr_seqno_map d"

text \<open>
  One message in the loop of \<open>processData\<close>, after its acknowledgement: whether the
  loop goes on, the nozzle and the state of the timestamp updater.  \<open>forward\<close> is
  the connector: the error, if any, of forwarding the mutation.
\<close>

definition on_rollback ::
  "(vbno \<Rightarrow> uint64 \<Rightarrow> 'm \<Rightarrow> ((goerror + VBTimestamp) \<times> 'm) option) \<Rightarrow> bool \<Rightarrow> vbno \<Rightarrow> uint16 \<Rightarrow> uint64 \<Rightarrow>
     DcpNozzle \<times> 'm \<Rightarrow> (bool \<times> DcpNozzle \<times> 'm) option" where
  "on_rollback vbtimestamp_updater feed_ok vb opaque rollbackseq dm =
     (case dm of (d, m) \<Rightarrow>
      case vbHandshakeMap d vb of
        None \<Rightarrow> None
      | Some h \<Rightarrow>
          (case processRollbackResponse (vb_stream_status d vb) opaque h of
             ((ignoreResponse, helperErr), h') \<Rightarrow>
               (let d1 = d\<lparr>vbHandshakeMap := (vbHandshakeMap d)(vb \<mapsto> h')\<rparr>;
                    d2 = (case helperErr of None \<Rightarrow> d1 | Some e \<Rightarrow> dcp_raise (DcpError e) d1)
                in if ignoreResponse then Some (True, d2, m)
                   else
                     (case vbtimestamp_updater vb rollbackseq m of
                        None \<Rightarrow> None
                      | Some (Inl err, m') \<Rightarrow> Some (False, dcp_handleGeneralError err d2, m')
                      | Some (Inr updated_ts, m') \<Rightarrow>
                          (case setTS vb updated_ts d2 of
                             (Some err, d3) \<Rightarrow> Some (False, dcp_handleGeneralError err d3, m')
                           | (None, d3) \<Rightarrow>
                               map_option (\<lambda>(_, d4). (True, d4, m')) (startUprStream feed_ok vb updated_ts d3))))))"

definition on_success :: "vbno \<Rightarrow> FailoverLog \<Rightarrow> DcpNozzle \<Rightarrow> (bool \<times> DcpNozzle) option" where
  "on_success vb flog d =
     (case vb_stream_status d vb of
        None \<Rightarrow> Some (False, dcp_handleGeneralError (Formatted ''Stream for vb is not supposed to be opened'') d)
      | Some _ \<Rightarrow>
          (case setStreamState vb Dcp_Stream_Active d of
             (Some err, d1) \<Rightarrow> Some (False, d1)
           | (None, d1) \<Rightarrow>
               (let d2 = dcp_raise (DcpStreamingStart vb flog) d1 in
                case vbHandshakeMap d2 vb of
                  None \<Rightarrow> None
                | Some h \<Rightarrow> Some (True, d2\<lparr>vbHandshakeMap := (vbHandshakeMap d2)(vb \<mapsto> processSuccessResponse h)\<rparr>))))"

definition on_mutation :: "goerror option \<Rightarrow> vbno \<Rightarrow> uint64 \<Rightarrow> uint8 \<Rightarrow> bool \<Rightarrow> DcpNozzle \<Rightarrow> bool \<times> DcpNozzle" where
  "on_mutation forward_err vb seqno dataType snappy d =
     (let d1 = d\<lparr>counter_received := counter_received d + 1\<rparr>;
          d2 = (if snappy
                then d1\<lparr>counter_compressed_received := counter_compressed_received d1 + 1\<rparr> else d1);
          d3 = dcp_raise (DcpDataReceived vb seqno) d2;
          d4 = (if \<not> is_capi d3 then handleXattr vb seqno dataType d3 else d3)
      in case forward_err of
           Some err \<Rightarrow> (False, dcp_handleGeneralError err d4)
         | None \<Rightarrow> (True, dcp_raise (DcpDataProcessed vb seqno) (d4\<lparr>counter_sent := counter_sent d4 + 1\<rparr>)))"

fun processEvent ::
  "(vbno \<Rightarrow> uint64 \<Rightarrow> 'm \<Rightarrow> ((goerror + VBTimestamp) \<times> 'm) option) \<Rightarrow> bool \<Rightarrow> goerror option \<Rightarrow> upr_msg \<Rightarrow>
     DcpNozzle \<times> 'm \<Rightarrow> (bool \<times> DcpNozzle \<times> 'm) option" where
  "processEvent upd feed_ok fwd (StreamNotMyVBucket vb) (d, m) =
     Some (True, dcp_handleVBError vb (Formatted ''Received error not my vbucket'') d, m)"
| "processEvent upd feed_ok fwd (StreamRollback vb opaque rollbackseq) (d, m) =
     on_rollback upd feed_ok vb opaque rollbackseq (d, m)"
| "processEvent upd feed_ok fwd (StreamSuccess vb opaque flog) (d, m) =
     map_option (\<lambda>(go, d'). (go, d', m)) (on_success vb flog d)"
| "processEvent upd feed_ok fwd (StreamOtherStatus vb) (d, m) = Some (True, d, m)"
| "processEvent upd feed_ok fwd (StreamEnd vb) (d, m) =
     (case GetStreamState vb d of
        (Inr Dcp_Stream_Active, d') \<Rightarrow> Some (True, dcp_handleVBError vb (Formatted ''dcp stream is closed by producer'') d', m)
      | (_, d') \<Rightarrow> Some (True, d', m))"
| "processEvent upd feed_ok fwd (UprMutation vb seqno dataType snappy) (d, m) =
     (if bOpen d then Some (case on_mutation fwd vb seqno dataType snappy d of (go, d') \<Rightarrow> (go, d', m)) else Some (True, d, m))"
| "processEvent upd feed_ok fwd (UprSnapshot vb s e) (d, m) =
     Some (True, if bOpen d then dcp_raise (DcpSnapshot vb s e) d else d, m)"
| "processEvent upd feed_ok fwd UprOther (d, m) = Some (True, d, m)"

text \<open>
  The check of the supervisor.  The feed is opened under \<open>uprFeedName\<close>; the data
  service publishes the items remaining on a feed under \<open>feed_items_key\<close>, as the
  comment in \<open>dcpHasRemainingItemsForXdcr\<close> quotes it.
\<close>

definition uprFeedName :: "string \<Rightarrow> string \<Rightarrow> string" where
  "uprFeedName nozzle_id randName = ''xdcr:'' @ nozzle_id @ '':'' @ randName"

definition feed_items_key :: "string \<Rightarrow> string" where
  "feed_items_key feed = ''eq_dcpq:'' @ feed @ '':items_remaining''"

definition xdcr_items_remaining_key :: "string \<Rightarrow> string" where
  "xdcr_items_remaining_key nozzle_id = ''eq_dcpq:xdcr:'' @ nozzle_id @ '':items_remaining''"

definition dcpHasRemainingItemsForXdcr ::
  "string \<Rightarrow> string list option \<Rightarrow> (string \<rightharpoonup> (string \<rightharpoonup> string)) \<Rightarrow> bool" where
  "dcpHasRemainingItemsForXdcr nozzle_id kv_nodes dcp_stats =
     (case kv_nodes of
        None \<Rightarrow> False
      | Some nodes \<Rightarrow>
          (\<exists>kv_node\<in>set nodes. case dcp_stats kv_node of
             None \<Rightarrow> False
           | Some m \<Rightarrow> (case m (xdcr_items_remaining_key nozzle_id) of
                           None \<Rightarrow> False
                         | Some v \<Rightarrow> (case strconv_Atoi v of None \<Rightarrow> False | Some n \<Rightarrow> n > 0))))"

definition CheckStuckness :: "bool \<Rightarrow> DcpNozzle \<Rightarrow> goerror option \<times> DcpNozzle" where
  "CheckStuckness dcp_has_items d =
     (if counter_received d > counter_received_last d
      then (None, d\<lparr>counter_received_last := counter_received d, dcp_miss_count := 0\<rparr>)
      else if \<not> dcp_has_items then (None, d\<lparr>dcp_miss_count := 0\<rparr>)
      else
        (let d1 = d\<lparr>dcp_miss_count := dcp_miss_count d + 1\<rparr> in
         (if dcp_miss_count d1 > max_dcp_miss_count d1 then Some (Formatted ''Dcp is stuck'') else None, d1)))"


section \<open>The stuckness check does not see its own feed\<close>

lemma items_key_mismatch: "feed_items_key (uprFeedName nozzle_id randName) \<noteq> xdcr_items_remaining_key nozzle_id"
  by (simp add: feed_items_key_def uprFeedName_def xdcr_items_remaining_key_def)

lemma never_stuck_on_own_items:
  assumes "\<forall>node m k. dcp_stats node = Some m \<and> m k \<noteq> None \<longrightarrow> k = feed_items_key (uprFeedName nozzle_id randName)"
  shows "\<not> dcpHasRemainingItemsForXdcr nozzle_id kv_nodes dcp_stats"
proof -
  have "m (xdcr_items_remaining_key nozzle_id) = None" if "dcp_stats node = Some m" for node m
    using assms that items_key_mismatch by metis
  then show ?thesis by (fastforce simp: dcpHasRemainingItemsForXdcr_def split: option.splits)
qed

end
