(* ===== verification/Dcp_System.thy ===== *)
theory Dcp_System
  imports Dcp_Nozzle
begin

text \<open>
  The negotiation of the start of a DCP stream between the source nozzle, the
  checkpoint manager and the data service, for one vbucket.  The data service
  answers stream requests in any order, also requests that were sent again by
  the monitor of inactive streams; it asks for a rollback to a sequence number
  below the one requested, as the DCP protocol has it.  \<open>rolled\<close> records the start
  numbers for which the nozzle asked the manager for another timestamp.

  A step of the nozzle is taken with the version counter of the helper below its
  limit: its overflow raises an error that restarts the pipeline.
\<close>


section \<open>Steps\<close>

record 's hsys =
  noz :: DcpNozzle
  ckm :: "'s CheckpointManager"
  rolled :: "uint64 list"
  dead :: bool

definition well_ok :: "vbno \<Rightarrow> DcpNozzle \<Rightarrow> bool" where
  "well_ok vb d = (case vbHandshakeMap d vb of None \<Rightarrow> False | Some h \<Rightarrow> currentVersionWell h < 0xFFFF)"

definition asked :: "DcpNozzle \<Rightarrow> vbno \<Rightarrow> uint16 \<Rightarrow> uint64 list" where
  "asked d vb opaque =
     (case vbHandshakeMap d vb of
        None \<Rightarrow> []
      | Some h \<Rightarrow>
          (case processRollbackResponse (vb_stream_status d vb) opaque h of
             ((True, _), _) \<Rightarrow> []
           | ((False, _), _) \<Rightarrow> (case sentMsgs h opaque of None \<Rightarrow> [] | Some s \<Rightarrow> [s])))"

inductive hstep :: "ckmgr_config \<Rightarrow> 's CheckpointsService \<Rightarrow> vbno \<Rightarrow> 's hsys \<Rightarrow> 's hsys \<Rightarrow> bool" for cfg svc vb where
  request: "\<lbrakk> \<not> dead \<sigma>; well_ok vb (noz \<sigma>); cur_ts (noz \<sigma>) vb = Some (Some ts);
      startUprStream feed_ok vb ts (noz \<sigma>) = Some (err, d') \<rbrakk>
    \<Longrightarrow> hstep cfg svc vb \<sigma> (\<sigma>\<lparr>noz := d'\<rparr>)"
| rollback: "\<lbrakk> \<not> dead \<sigma>; well_ok vb (noz \<sigma>); (vb, opaque, ts) \<in> set (requests (noz \<sigma>));
      rollbackseq < ts_Seqno ts \<or> ts_Seqno ts = 0 \<and> rollbackseq = 0;
      on_rollback (UpdateVBTimestamps cfg svc capi) feed_ok vb opaque rollbackseq (noz \<sigma>, ckm \<sigma>) = Some (go, d', m') \<rbrakk>
    \<Longrightarrow> hstep cfg svc vb \<sigma>
          (\<sigma>\<lparr>noz := d', ckm := m', rolled := rolled \<sigma> @ asked (noz \<sigma>) vb opaque, dead := \<not> go\<rparr>)"
| success: "\<lbrakk> \<not> dead \<sigma>; (vb, opaque, ts) \<in> set (requests (noz \<sigma>)); on_success vb flog (noz \<sigma>) = Some (go, d') \<rbrakk>
    \<Longrightarrow> hstep cfg svc vb \<sigma> (\<sigma>\<lparr>noz := d', dead := \<not> go\<rparr>)"

text \<open>
  The start: the manager has set the timestamp, the nozzle has taken it over from
  the settings and no request of the vbucket has been sent.
\<close>

definition handshake_start :: "vbno \<Rightarrow> VBTimestamp \<Rightarrow> 's hsys \<Rightarrow> bool" where
  "handshake_start vb ts \<sigma> \<longleftrightarrow>
     known vb (ckm \<sigma>) \<and> start_ts (ckm \<sigma>) vb = Some ts \<and> cur_ts (noz \<sigma>) vb = Some (Some ts) \<and>
     vb_stream_status (noz \<sigma>) vb = Some Dcp_Stream_NonInit \<and> (\<forall>q\<in>set (requests (noz \<sigma>)). fst q \<noteq> vb) \<and>
     vbHandshakeMap (noz \<sigma>) vb = Some \<lparr>sentMsgs = Map.empty, ackedMsgs = Map.empty, isDisabled = False, currentVersionWell = 0\<rparr> \<and>
     rolled \<sigma> = [] \<and> \<not> dead \<sigma>"

inductive hreach :: "ckmgr_config \<Rightarrow> 's CheckpointsService \<Rightarrow> vbno \<Rightarrow> VBTimestamp \<Rightarrow> 's hsys \<Rightarrow> bool" for cfg svc vb ts0 where
  init: "handshake_start vb ts0 \<sigma> \<Longrightarrow> hreach cfg svc vb ts0 \<sigma>"
| step: "hreach cfg svc vb ts0 \<sigma> \<Longrightarrow> hstep cfg svc vb \<sigma> \<sigma>' \<Longrightarrow> hreach cfg svc vb ts0 \<sigma>'"


section \<open>Effect of a request\<close>

lemma next_version:
  assumes "currentVersionWell h < 0xFFFF"
  shows "getNewVersion h = (ucast (currentVersionWell h + 1), False, h\<lparr>currentVersionWell := currentVersionWell h + 1\<rparr>)"
    and "unat (ucast (currentVersionWell h + 1) :: uint16) = Suc (unat (currentVersionWell h))"
proof -
  let ?w = "currentVersionWell h"
  have w: "unat ?w < 0xFFFF" using assms by (simp add: word_less_nat_alt)
  have s: "unat (?w + 1) = Suc (unat ?w)" using w by (simp add: unat_Suc_word unat_word_ariths)
  then have "\<not> ?w + 1 > 0xFFFF" using w by (simp add: word_less_nat_alt)
  then show "getNewVersion h = (ucast (?w + 1), False, h\<lparr>currentVersionWell := ?w + 1\<rparr>)"
    by (simp add: getNewVersion_def Let_def)
  show "unat (ucast (?w + 1) :: uint16) = Suc (unat ?w)"
    using s w by (simp add: unsigned_ucast_eq take_bit_eq_mod)
qed

text \<open>
  What a call of \<open>startUprStream\<close> does: it counts a version and either registers
  nothing, registers the request without sending it, or sends it.
\<close>

lemma startUprStream_effect:
  assumes h: "vbHandshakeMap d vb = Some h" "\<not> isDisabled h" "currentVersionWell h < 0xFFFF"
    and st: "vb_stream_status d vb = Some st"
    and run: "startUprStream feed_ok vb ts d = Some (err, d')"
  defines "ver \<equiv> ucast (currentVersionWell h + 1) :: uint16"
  shows "cur_ts d' = cur_ts d \<and> (\<exists>h'. vbHandshakeMap d' vb = Some h' \<and> \<not> isDisabled h' \<and> ackedMsgs h' = ackedMsgs h \<and>
      currentVersionWell h' = currentVersionWell h + 1 \<and>
      (sentMsgs h' = sentMsgs h \<and> requests d' = requests d \<and> vb_stream_status d' vb = Some st \<or>
       st \<noteq> Dcp_Stream_Active \<and> \<not> is_acked h (ts_Seqno ts) \<and> sentMsgs h' = (sentMsgs h)(ver \<mapsto> ts_Seqno ts) \<and>
         (requests d' = requests d \<and> vb_stream_status d' vb = Some st \<or>
          requests d' = requests d @ [(vb, ver, ts)] \<and> vb_stream_status d' vb = Some Dcp_Stream_Init)))"
  using run h st next_version(1)[OF h(3)]
  by (auto simp: startUprStream_def startUprStreamInner_def registerRequest_def isStreamActiveNoLock_def
      is_acked_def setStreamState_def ver_def Let_def split: if_splits)


section \<open>Invariant\<close>

text \<open>
  While the stream is not active: the acknowledged start numbers are those that
  were rolled back, they are above the current one \<open>c\<close> (or all is at 0), every
  other registered request starts at \<open>c\<close>, and the helper knows the requests sent.
\<close>

definition negotiating :: "vbno \<Rightarrow> uint64 \<Rightarrow> dcpStreamReqHelper \<Rightarrow> stream_request list \<Rightarrow> uint64 list \<Rightarrow> bool" where
  "negotiating vb c h reqs rl \<longleftrightarrow>
     (\<forall>s. is_acked h s \<longleftrightarrow> s \<in> set rl) \<and>
     (\<forall>s\<in>set rl. c < s \<or> s = 0 \<and> c = 0) \<and>
     (\<forall>ver s. sentMsgs h ver = Some s \<longrightarrow> unat ver \<le> unat (currentVersionWell h) \<and> (s = c \<or> s \<in> set rl)) \<and>
     (\<forall>ver t. (vb, ver, t) \<in> set reqs \<longrightarrow> sentMsgs h ver = Some (ts_Seqno t))"

definition hinv :: "vbno \<Rightarrow> VBTimestamp \<Rightarrow> 's hsys \<Rightarrow> bool" where
  "hinv vb ts0 \<sigma> \<longleftrightarrow> sorted_wrt (>) (rolled \<sigma>) \<and> (\<forall>s\<in>set (rolled \<sigma>). s \<le> ts_Seqno ts0) \<and>
     (dead \<sigma> \<or> (\<exists>h ts st. vbHandshakeMap (noz \<sigma>) vb = Some h \<and> \<not> isDisabled h \<and>
        vb_stream_status (noz \<sigma>) vb = Some st \<and> known vb (ckm \<sigma>) \<and>
        start_ts (ckm \<sigma>) vb = Some ts \<and> cur_ts (noz \<sigma>) vb = Some (Some ts) \<and> ts_Seqno ts \<le> ts_Seqno ts0 \<and>
        (st = Dcp_Stream_Active \<or> negotiating vb (ts_Seqno ts) h (requests (noz \<sigma>)) (rolled \<sigma>))))"

lemma negotiating_register:
  assumes n: "negotiating vb c h reqs rl" and "\<not> is_acked h c" and w: "currentVersionWell h < 0xFFFF"
    and h': "ackedMsgs h' = ackedMsgs h" "currentVersionWell h' = currentVersionWell h + 1"
      "sentMsgs h' = (sentMsgs h)(ucast (currentVersionWell h + 1) \<mapsto> c)"
    and r: "reqs' = reqs \<or> (\<exists>t. reqs' = reqs @ [(vb, ucast (currentVersionWell h + 1), t)] \<and> ts_Seqno t = c)"
  shows "negotiating vb c h' reqs' rl"
proof -
  let ?v = "ucast (currentVersionWell h + 1) :: uint16"
  have v: "unat ?v = Suc (unat (currentVersionWell h))" by (rule next_version(2)[OF w])
  have w': "unat (currentVersionWell h') = Suc (unat (currentVersionWell h))"
    using w h'(2) by (simp add: word_less_nat_alt unat_word_ariths)
  have fresh: "sentMsgs h ?v = None"
  proof (rule ccontr)
    assume "sentMsgs h ?v \<noteq> None"
    then obtain s where "sentMsgs h ?v = Some s" by blast
    then have "unat ?v \<le> unat (currentVersionWell h)" using n unfolding negotiating_def by blast
    with v show False by simp
  qed
  show ?thesis
    using n r v w' fresh unfolding negotiating_def
    by (auto simp: is_acked_def h' le_SucI)
qed

lemma negotiating_count:
  assumes "negotiating vb c h reqs rl" "currentVersionWell h < 0xFFFF"
    "ackedMsgs h' = ackedMsgs h" "currentVersionWell h' = currentVersionWell h + 1" "sentMsgs h' = sentMsgs h"
  shows "negotiating vb c h' reqs rl"
proof -
  have "unat (currentVersionWell h') = Suc (unat (currentVersionWell h))"
    using assms(2,4) by (simp add: word_less_nat_alt unat_word_ariths)
  then show ?thesis using assms(1) unfolding negotiating_def
    by (auto simp: is_acked_def assms le_SucI)
qed

lemma startUprStream_negotiating:
  assumes h: "vbHandshakeMap d vb = Some h" "\<not> isDisabled h" "currentVersionWell h < 0xFFFF"
    and st: "vb_stream_status d vb = Some st"
    and n: "st = Dcp_Stream_Active \<or> negotiating vb (ts_Seqno ts) h (requests d) rl"
    and run: "startUprStream feed_ok vb ts d = Some (err, d')"
  shows "cur_ts d' = cur_ts d \<and> (\<exists>h' st'. vbHandshakeMap d' vb = Some h' \<and> \<not> isDisabled h' \<and>
      vb_stream_status d' vb = Some st' \<and>
      (st' = Dcp_Stream_Active \<or> negotiating vb (ts_Seqno ts) h' (requests d') rl))"
proof -
  let ?v = "ucast (currentVersionWell h + 1) :: uint16"
  obtain h' where c: "cur_ts d' = cur_ts d" and h': "vbHandshakeMap d' vb = Some h'" "\<not> isDisabled h'"
    "ackedMsgs h' = ackedMsgs h" "currentVersionWell h' = currentVersionWell h + 1"
    and cases: "sentMsgs h' = sentMsgs h \<and> requests d' = requests d \<and> vb_stream_status d' vb = Some st \<or>
       st \<noteq> Dcp_Stream_Active \<and> \<not> is_acked h (ts_Seqno ts) \<and> sentMsgs h' = (sentMsgs h)(?v \<mapsto> ts_Seqno ts) \<and>
         (requests d' = requests d \<and> vb_stream_status d' vb = Some st \<or>
          requests d' = requests d @ [(vb, ?v, ts)] \<and> vb_stream_status d' vb = Some Dcp_Stream_Init)"
    using startUprStream_effect[OF h st run] by blast
  from cases show ?thesis
  proof (elim disjE conjE)
    assume "sentMsgs h' = sentMsgs h" "requests d' = requests d" "vb_stream_status d' vb = Some st"
    then show ?thesis using n negotiating_count[OF _ h(3) h'(3,4)] c h' by auto
  next
    assume "st \<noteq> Dcp_Stream_Active" "\<not> is_acked h (ts_Seqno ts)" "sentMsgs h' = (sentMsgs h)(?v \<mapsto> ts_Seqno ts)"
      "requests d' = requests d" "vb_stream_status d' vb = Some st"
    then show ?thesis using n negotiating_register[OF _ _ h(3) h'(3,4)] c h' by auto
  next
    assume "st \<noteq> Dcp_Stream_Active" "\<not> is_acked h (ts_Seqno ts)" "sentMsgs h' = (sentMsgs h)(?v \<mapsto> ts_Seqno ts)"
      "requests d' = requests d @ [(vb, ?v, ts)]" "vb_stream_status d' vb = Some Dcp_Stream_Init"
    then show ?thesis using n negotiating_register[OF _ _ h(3) h'(3,4), of vb "ts_Seqno ts" "requests d" rl "requests d'"] c h'
      by auto
  qed
qed

text \<open>A rollback that is not ignored is one of the current start number.\<close>

lemma rollback_not_ignored:
  assumes n: "negotiating vb c h reqs rl" "\<not> isDisabled h" "st \<noteq> Dcp_Stream_Active" "(vb, opaque, t) \<in> set reqs"
    and p: "processRollbackResponse (Some st) opaque h = ((False, e), h')"
  shows "sentMsgs h opaque = Some c \<and> ts_Seqno t = c \<and> c \<notin> set rl \<and> h' = h\<lparr>ackedMsgs := (ackedMsgs h)(c \<mapsto> True)\<rparr>"
proof -
  have s: "sentMsgs h opaque = Some (ts_Seqno t)" using n(1,4) by (auto simp: negotiating_def)
  have "\<not> is_acked h (ts_Seqno t)" and h': "h' = deregisterRequestNoLock opaque h"
    using p n(2,3) s by (auto simp: processRollbackResponse_def isStreamActiveNoLock_def Let_def split: if_splits)
  moreover from this have "ts_Seqno t \<notin> set rl" "ts_Seqno t = c"
    using n(1) s unfolding negotiating_def by blast+
  ultimately show ?thesis using s by (simp add: deregisterRequestNoLock_def)
qed

lemma rollback_ignored:
  assumes "processRollbackResponse st opaque h = ((True, e), h')" "\<not> isDisabled h"
  shows "\<not> isDisabled h' \<and> (st = Some Dcp_Stream_Active \<or> h' = h)"
  using assms
  by (auto simp: processRollbackResponse_def deregisterRequestNoLock_def isStreamActiveNoLock_def Let_def
      split: if_splits option.splits)

lemma negotiating_acked:
  assumes "negotiating vb c h reqs rl" "c \<notin> set rl" "c' < c \<or> c' = 0 \<and> c = 0"
  shows "negotiating vb c' (h\<lparr>ackedMsgs := (ackedMsgs h)(c \<mapsto> True)\<rparr>) reqs (rl @ [c])"
proof -
  have gt: "\<forall>s\<in>set rl. c < s" using assms(1,2) unfolding negotiating_def by metis
  then have "\<forall>s\<in>set rl. c' < s" using assms(3) by force
  with assms gt show ?thesis unfolding negotiating_def by (auto simp: is_acked_def)
qed

lemma updated_below:
  assumes "known vb m" "start_ts m vb = Some old" "UpdateVBTimestamps cfg svc capi vb rb m = Some (Inr ts, m')"
    and rb: "rb < ts_Seqno old \<or> ts_Seqno old = 0 \<and> rb = 0"
  shows "ts_Seqno ts < ts_Seqno old \<or> ts_Seqno ts = 0 \<and> ts_Seqno old = 0"
proof -
  let ?max = "if rb = 0 \<and> ts_Seqno old > 0 then ts_Seqno old - 1 else rb"
  obtain doc where "chosen_ts cfg capi vb doc ?max ts" using UpdateVBTimestamps_bound(4)[OF assms(1-3)] by blast
  then have le: "ts_Seqno ts \<le> ?max" by (rule chosen_ts_bounds(2))
  show ?thesis
  proof (cases "ts_Seqno old = 0")
    case True
    then show ?thesis using le rb by simp
  next
    case False
    then have pos: "0 < ts_Seqno old" by (simp add: word_gt_0)
    then have "ts_Seqno old - 1 < ts_Seqno old" by (rule word_dec_less)
    then have "?max < ts_Seqno old" using rb pos by auto
    with le show ?thesis by (meson le_less_trans)
  qed
qed

text \<open>The fields the handshake reads are not touched by events.\<close>

lemma dcp_raise_frame [simp]:
  "vbHandshakeMap (dcp_raise e d) = vbHandshakeMap d" "vb_stream_status (dcp_raise e d) = vb_stream_status d"
  "cur_ts (dcp_raise e d) = cur_ts d" "requests (dcp_raise e d) = requests d"
  by (simp_all add: dcp_raise_def)

lemma on_rollback_ignored:
  assumes "vbHandshakeMap d vb = Some h" "processRollbackResponse (vb_stream_status d vb) opaque h = ((True, e), h')"
    "on_rollback upd feed_ok vb opaque rb (d, m) = Some (go, d', m')"
  shows "go \<and> m' = m \<and> vbHandshakeMap d' = (vbHandshakeMap d)(vb \<mapsto> h') \<and> vb_stream_status d' = vb_stream_status d \<and>
     cur_ts d' = cur_ts d \<and> requests d' = requests d \<and> asked d vb opaque = []"
  using assms by (cases e) (auto simp: on_rollback_def asked_def Let_def)

lemma on_rollback_done:
  assumes h: "vbHandshakeMap d vb = Some h" "processRollbackResponse (vb_stream_status d vb) opaque h = ((False, e), h')"
    and ts: "cur_ts d vb = Some ot"
    and run: "on_rollback upd feed_ok vb opaque rb (d, m) = Some (True, d', m')"
  shows "\<exists>ts d3 err. upd vb rb m = Some (Inr ts, m') \<and> startUprStream feed_ok vb ts d3 = Some (err, d') \<and>
     vbHandshakeMap d3 = (vbHandshakeMap d)(vb \<mapsto> h') \<and> vb_stream_status d3 = vb_stream_status d \<and>
     cur_ts d3 = (cur_ts d)(vb \<mapsto> Some ts) \<and> requests d3 = requests d"
proof -
  define d2 where "d2 = (case e of None \<Rightarrow> d\<lparr>vbHandshakeMap := (vbHandshakeMap d)(vb \<mapsto> h')\<rparr>
       | Some x \<Rightarrow> dcp_raise (DcpError x) (d\<lparr>vbHandshakeMap := (vbHandshakeMap d)(vb \<mapsto> h')\<rparr>))"
  have d2: "vbHandshakeMap d2 = (vbHandshakeMap d)(vb \<mapsto> h')" "vb_stream_status d2 = vb_stream_status d"
    "cur_ts d2 = cur_ts d" "requests d2 = requests d"
    by (cases e; simp add: d2_def)+
  obtain ts m1 where u: "upd vb rb m = Some (Inr ts, m1)"
    using run h by (auto simp: on_rollback_def Let_def split: option.splits sum.splits prod.splits)
  have "setTS vb ts d2 = (None, d2\<lparr>cur_ts := (cur_ts d2)(vb \<mapsto> Some ts)\<rparr>)"
    using ts d2 by (simp add: setTS_def)
  then have "m1 = m' \<and> (\<exists>err. startUprStream feed_ok vb ts (d2\<lparr>cur_ts := (cur_ts d2)(vb \<mapsto> Some ts)\<rparr>) = Some (err, d'))"
    using run h u by (auto simp: on_rollback_def Let_def simp flip: d2_def)
  then show ?thesis using u d2
    by (intro exI[of _ ts] exI[of _ "d2\<lparr>cur_ts := (cur_ts d2)(vb \<mapsto> Some ts)\<rparr>"]) auto
qed

lemma hinv_step:
  assumes inv: "hinv vb ts0 \<sigma>" and st: "hstep cfg svc vb \<sigma> \<sigma>'"
  shows "hinv vb ts0 \<sigma>'"
  using st
proof cases
  case (request ts feed_ok err d')
  obtain h st where h: "vbHandshakeMap (noz \<sigma>) vb = Some h" "\<not> isDisabled h" "vb_stream_status (noz \<sigma>) vb = Some st"
    "known vb (ckm \<sigma>)" "start_ts (ckm \<sigma>) vb = Some ts" "ts_Seqno ts \<le> ts_Seqno ts0"
    "st = Dcp_Stream_Active \<or> negotiating vb (ts_Seqno ts) h (requests (noz \<sigma>)) (rolled \<sigma>)"
    using inv request by (auto simp: hinv_def)
  have "currentVersionWell h < 0xFFFF" using request h(1) by (simp add: well_ok_def)
  from startUprStream_negotiating[OF h(1,2) this h(3,7) request(5)] show ?thesis
    using inv request h(4-6) unfolding hinv_def by auto
next
  case (rollback opaque t rb capi feed_ok go d' m')
  obtain h ts st where h: "vbHandshakeMap (noz \<sigma>) vb = Some h" "\<not> isDisabled h" "vb_stream_status (noz \<sigma>) vb = Some st"
    "known vb (ckm \<sigma>)" "start_ts (ckm \<sigma>) vb = Some ts" "cur_ts (noz \<sigma>) vb = Some (Some ts)" "ts_Seqno ts \<le> ts_Seqno ts0"
    "st = Dcp_Stream_Active \<or> negotiating vb (ts_Seqno ts) h (requests (noz \<sigma>)) (rolled \<sigma>)"
    using inv rollback by (auto simp: hinv_def)
  have w: "currentVersionWell h < 0xFFFF" using rollback h(1) by (simp add: well_ok_def)
  obtain ign e h' where p: "processRollbackResponse (vb_stream_status (noz \<sigma>) vb) opaque h = ((ign, e), h')"
    by (metis prod.exhaust)
  show ?thesis
  proof (cases ign)
    case True
    then have p1: "processRollbackResponse (vb_stream_status (noz \<sigma>) vb) opaque h = ((True, e), h')" using p by simp
    note ig = on_rollback_ignored[OF h(1) p1 rollback(6)]
    have "\<not> isDisabled h' \<and> (st = Dcp_Stream_Active \<or> h' = h)"
      using rollback_ignored[OF p1 h(2)] h(3) by simp
    with ig h inv rollback show ?thesis unfolding hinv_def by auto
  next
    case False
    then have p1: "processRollbackResponse (vb_stream_status (noz \<sigma>) vb) opaque h = ((False, e), h')" using p by simp
    have act: "st \<noteq> Dcp_Stream_Active"
      using p1 h(2,3) by (auto simp: processRollbackResponse_def isStreamActiveNoLock_def split: if_splits)
    with h(8) have n: "negotiating vb (ts_Seqno ts) h (requests (noz \<sigma>)) (rolled \<sigma>)" by simp
    note c = rollback_not_ignored[OF n h(2) act rollback(4) p1[unfolded h(3)]]
    have ask: "asked (noz \<sigma>) vb opaque = [ts_Seqno ts]" using p1 h(1) c by (simp add: asked_def)
    have gt: "\<forall>s\<in>set (rolled \<sigma>). ts_Seqno ts < s" using n c unfolding negotiating_def by metis
    have sorted: "sorted_wrt (>) (rolled \<sigma> @ [ts_Seqno ts]) \<and> (\<forall>s\<in>set (rolled \<sigma> @ [ts_Seqno ts]). s \<le> ts_Seqno ts0)"
      using inv gt h(7) by (auto simp: hinv_def sorted_wrt_append)
    show ?thesis
    proof (cases go)
      case dead: False
      then show ?thesis using sorted rollback ask by (simp add: hinv_def)
    next
      case True
      then have run1: "on_rollback (UpdateVBTimestamps cfg svc capi) feed_ok vb opaque rb (noz \<sigma>, ckm \<sigma>) = Some (True, d', m')"
        using rollback(6) by simp
      obtain ts' d3 err where u: "UpdateVBTimestamps cfg svc capi vb rb (ckm \<sigma>) = Some (Inr ts', m')"
        and run: "startUprStream feed_ok vb ts' d3 = Some (err, d')"
        and d3: "vbHandshakeMap d3 = (vbHandshakeMap (noz \<sigma>))(vb \<mapsto> h')" "vb_stream_status d3 = vb_stream_status (noz \<sigma>)"
          "cur_ts d3 = (cur_ts (noz \<sigma>))(vb \<mapsto> Some ts')" "requests d3 = requests (noz \<sigma>)"
        using on_rollback_done[OF h(1) p1 h(6) run1] by blast
      note ub = UpdateVBTimestamps_bound[OF h(4,5) u]
      have below: "ts_Seqno ts' < ts_Seqno ts \<or> ts_Seqno ts' = 0 \<and> ts_Seqno ts = 0"
        using updated_below[OF h(4,5) u] rollback(5) c by simp
      have n': "negotiating vb (ts_Seqno ts') h' (requests d3) (rolled \<sigma> @ [ts_Seqno ts])"
        using negotiating_acked[OF n _ below] c d3(4) by simp
      have h': "vbHandshakeMap d3 vb = Some h'" "\<not> isDisabled h'" "currentVersionWell h' < 0xFFFF"
        "vb_stream_status d3 vb = Some st"
        using d3 c h w by simp_all
      from startUprStream_negotiating[OF h' disjI2[OF n'] run] show ?thesis
        using sorted ask rollback True ub h(7) below d3(3) unfolding hinv_def by auto
    qed
  qed
next
  case (success opaque t flog go d')
  show ?thesis
  proof (cases go)
    case False
    then show ?thesis using inv success by (simp add: hinv_def)
  next
    case True
    obtain h ts st where h: "vbHandshakeMap (noz \<sigma>) vb = Some h" "\<not> isDisabled h" "vb_stream_status (noz \<sigma>) vb = Some st"
      "known vb (ckm \<sigma>)" "start_ts (ckm \<sigma>) vb = Some ts" "cur_ts (noz \<sigma>) vb = Some (Some ts)" "ts_Seqno ts \<le> ts_Seqno ts0"
      using inv success by (auto simp: hinv_def)
    have "vbHandshakeMap d' vb = Some (processSuccessResponse h)" "vb_stream_status d' vb = Some Dcp_Stream_Active"
      "cur_ts d' = cur_ts (noz \<sigma>)"
      using success(4) True h by (auto simp: on_success_def setStreamState_def Let_def)
    moreover have "\<not> isDisabled (processSuccessResponse h)"
      using h(2) by (simp add: processSuccessResponse_def helper_initialize_def)
    ultimately show ?thesis using inv success h unfolding hinv_def by auto
  qed
qed

lemma hreach_hinv: "hreach cfg svc vb ts0 \<sigma> \<Longrightarrow> hinv vb ts0 \<sigma>"
proof (induction rule: hreach.induct)
  case (init \<sigma>)
  then show ?case
    by (force simp: hinv_def handshake_start_def negotiating_def is_acked_def)
next
  case (step \<sigma> \<sigma>')
  then show ?case using hinv_step by blast
qed

lemma decreasing_length:
  fixes xs :: "'a::len word list"
  assumes "sorted_wrt (>) xs" "\<forall>x\<in>set xs. x \<le> b"
  shows "length xs \<le> Suc (unat b)"
proof -
  have "distinct xs"
    using assms(1) by (induction xs) auto
  moreover have "unat ` set xs \<subseteq> {..unat b}" using assms(2) by (auto simp: word_le_nat_alt)
  then have "card (unat ` set xs) \<le> Suc (unat b)" using card_mono[of "{..unat b}"] by fastforce
  moreover have "card (unat ` set xs) = card (set xs)"
    by (intro card_image inj_onI) (rule unsigned_word_eqI)
  ultimately show ?thesis by (simp add: distinct_card)
qed

lemma startUprStream_sends:
  assumes "vbHandshakeMap d vb = Some h" "\<not> isDisabled h" "currentVersionWell h < 0xFFFF" "uprFeed d"
    "vb_stream_status d vb = Some st" "st \<noteq> Dcp_Stream_Active" "\<not> is_acked h (ts_Seqno ts)"
  shows "\<exists>d' ver. startUprStream True vb ts d = Some (None, d') \<and> requests d' = requests d @ [(vb, ver, ts)]"
  using assms next_version(1)[OF assms(3)]
  by (simp add: startUprStream_def startUprStreamInner_def registerRequest_def isStreamActiveNoLock_def
      is_acked_def setStreamState_def Let_def)


section \<open>Properties of the negotiation\<close>

text \<open>C3. However the requests of a vbucket and the answers to them interleave, the start numbers that
  are rolled back strictly decrease, so that none is rolled back twice and there are at most as many
  rollbacks as numbers up to the first start.  While the stream is not active the nozzle and the pipeline
  settings hold the same timestamp, below all those rolled back, and unless it is 0 sending the request
  again is not suppressed.\<close>

theorem rollback_handshake:
  assumes "hreach cfg svc vb ts0 \<sigma>"
  shows "sorted_wrt (>) (rolled \<sigma>) \<and> length (rolled \<sigma>) \<le> Suc (unat (ts_Seqno ts0)) \<and>
    (\<not> dead \<sigma> \<and> vb_stream_status (noz \<sigma>) vb \<noteq> Some Dcp_Stream_Active \<longrightarrow>
      (\<exists>ts. start_ts (ckm \<sigma>) vb = Some ts \<and> cur_ts (noz \<sigma>) vb = Some (Some ts) \<and>
         (\<forall>s\<in>set (rolled \<sigma>). ts_Seqno ts < s \<or> s = 0) \<and>
         (ts_Seqno ts \<noteq> 0 \<and> uprFeed (noz \<sigma>) \<and> well_ok vb (noz \<sigma>) \<longrightarrow>
            (\<exists>d' ver. startUprStream True vb ts (noz \<sigma>) = Some (None, d') \<and>
               requests d' = requests (noz \<sigma>) @ [(vb, ver, ts)]))))"
proof -
  note inv = hreach_hinv[OF assms]
  have "length (rolled \<sigma>) \<le> Suc (unat (ts_Seqno ts0))" "sorted_wrt (>) (rolled \<sigma>)"
    using inv decreasing_length[of "rolled \<sigma>" "ts_Seqno ts0"] by (auto simp: hinv_def)
  moreover have "\<exists>ts. start_ts (ckm \<sigma>) vb = Some ts \<and> cur_ts (noz \<sigma>) vb = Some (Some ts) \<and>
         (\<forall>s\<in>set (rolled \<sigma>). ts_Seqno ts < s \<or> s = 0) \<and>
         (ts_Seqno ts \<noteq> 0 \<and> uprFeed (noz \<sigma>) \<and> well_ok vb (noz \<sigma>) \<longrightarrow>
            (\<exists>d' ver. startUprStream True vb ts (noz \<sigma>) = Some (None, d') \<and>
               requests d' = requests (noz \<sigma>) @ [(vb, ver, ts)]))"
    if live: "\<not> dead \<sigma>" "vb_stream_status (noz \<sigma>) vb \<noteq> Some Dcp_Stream_Active"
  proof -
    obtain h ts st where h: "vbHandshakeMap (noz \<sigma>) vb = Some h" "\<not> isDisabled h" "vb_stream_status (noz \<sigma>) vb = Some st"
      "start_ts (ckm \<sigma>) vb = Some ts" "cur_ts (noz \<sigma>) vb = Some (Some ts)"
      "negotiating vb (ts_Seqno ts) h (requests (noz \<sigma>)) (rolled \<sigma>)"
      using inv live by (auto simp: hinv_def)
    have "\<forall>s\<in>set (rolled \<sigma>). ts_Seqno ts < s \<or> s = 0" using h(6) by (auto simp: negotiating_def)
    moreover have "\<not> is_acked h (ts_Seqno ts)" if nz: "ts_Seqno ts \<noteq> 0"
      using h(6) nz by (fastforce simp: negotiating_def)
    ultimately show ?thesis
      using h live(2) startUprStream_sends[OF h(1,2) _ _ h(3), of ts] by (auto simp: well_ok_def)
  qed
  ultimately show ?thesis by blast
qed

definition example_start :: "unit hsys" where
  "example_start = \<lparr>
     noz = initializeUprHandshakeHelpers ((NewDcpNozzle [7] False)\<lparr>cur_ts := [7 \<mapsto> Some example_ts], uprFeed := True\<rparr>),
     ckm = example_ckmgr,
     rolled = [], dead = False\<rparr>"

lemmas example_defs = example_start_def example_ckmgr_defs example_svc_def initializeUprHandshakeHelpers_def helper_initialize_def NewDcpNozzle_def

lemma example_handshake_start: "handshake_start 7 example_ts example_start"
  by (simp add: handshake_start_def example_defs known_def)

theorem rollback_handshake_witness:
  "\<exists>\<sigma>. hreach example_cfg example_svc 7 example_ts \<sigma> \<and> rolled \<sigma> = [10] \<and> \<not> dead \<sigma> \<and>
     vb_stream_status (noz \<sigma>) 7 = Some Dcp_Stream_Init \<and> start_ts (ckm \<sigma>) 7 = Some (zero_ts 7) \<and>
     length (rolled \<sigma>) \<le> Suc (unat (ts_Seqno example_ts)) \<and> cur_ts (noz \<sigma>) 7 = Some (Some (zero_ts 7))"
proof -
  define \<sigma>1 where "\<sigma>1 = example_start\<lparr>noz := snd (the (startUprStream True 7 example_ts (noz example_start)))\<rparr>"
  let ?upd = "UpdateVBTimestamps example_cfg example_svc example_capi"
  define out where "out = the (on_rollback ?upd True 7 1 4 (noz \<sigma>1, ckm \<sigma>1))"
  define \<sigma>2 where "\<sigma>2 = \<sigma>1\<lparr>noz := fst (snd out), ckm := snd (snd out),
     rolled := rolled \<sigma>1 @ asked (noz \<sigma>1) 7 1, dead := \<not> fst out\<rparr>"
  have r1: "startUprStream True 7 example_ts (noz example_start) = Some (None, noz \<sigma>1)"
    by (simp add: \<sigma>1_def example_defs startUprStream_def startUprStreamInner_def getNewVersion_def registerRequest_def
        isStreamActiveNoLock_def is_acked_def setStreamState_def)
  have "hstep example_cfg example_svc 7 example_start \<sigma>1"
    using hstep.request[OF _ _ _ r1, of example_cfg example_svc]
    by (simp add: \<sigma>1_def example_defs well_ok_def)
  then have reach1: "hreach example_cfg example_svc 7 example_ts \<sigma>1"
    using example_handshake_start by (meson hreach.intros)
  have n1: "vbHandshakeMap (noz \<sigma>1) 7 = Some \<lparr>sentMsgs = [1 \<mapsto> 10], ackedMsgs = Map.empty, isDisabled = False, currentVersionWell = 1\<rparr>"
    "vb_stream_status (noz \<sigma>1) 7 = Some Dcp_Stream_Init" "requests (noz \<sigma>1) = [(7, 1, example_ts)]"
    "cur_ts (noz \<sigma>1) 7 = Some (Some example_ts)" "uprFeed (noz \<sigma>1)"
    by (simp_all add: \<sigma>1_def example_defs startUprStream_def startUprStreamInner_def getNewVersion_def registerRequest_def
        isStreamActiveNoLock_def is_acked_def setStreamState_def)
  have s1: "\<not> dead \<sigma>1" "rolled \<sigma>1 = []" "ts_Seqno example_ts = 10"
    by (simp_all add: \<sigma>1_def example_start_def example_ts_def)
  obtain m2 where m2: "?upd 7 4 (ckm \<sigma>1) = Some (Inr (zero_ts 7), m2)" "start_ts m2 7 = Some (zero_ts 7)"
    by (simp add: UpdateVBTimestamps_def \<sigma>1_def example_defs getVBTimestampForVB_def ckptRecordsWLock_def empty_record_def
        updateCurrentVBOpaque_def populateVBTimestamp_def SetStartSeqno_def validateVbno_def NewThroughSeqnoTrackerSvc_def Let_def)
  have r2: "on_rollback ?upd True 7 1 4 (noz \<sigma>1, ckm \<sigma>1) = Some out \<and> fst out \<and> snd (snd out) = m2 \<and>
     asked (noz \<sigma>1) 7 1 = [10] \<and> vb_stream_status (fst (snd out)) 7 = Some Dcp_Stream_Init"
    using n1 m2
    by (simp add: out_def on_rollback_def asked_def processRollbackResponse_def isStreamActiveNoLock_def is_acked_def
        deregisterRequestNoLock_def setTS_def startUprStream_def startUprStreamInner_def getNewVersion_def
        registerRequest_def setStreamState_def Let_def)
  then have "hstep example_cfg example_svc 7 \<sigma>1 \<sigma>2"
    using n1 hstep.rollback[of \<sigma>1 7 1 example_ts 4 example_cfg example_svc example_capi True "fst out" "fst (snd out)" "snd (snd out)"]
    by (simp add: \<sigma>2_def well_ok_def s1 prod_eq_iff)
  with reach1 have reach: "hreach example_cfg example_svc 7 example_ts \<sigma>2" by (rule hreach.step)
  moreover have "rolled \<sigma>2 = [10]" "\<not> dead \<sigma>2" "vb_stream_status (noz \<sigma>2) 7 = Some Dcp_Stream_Init"
    "start_ts (ckm \<sigma>2) 7 = Some (zero_ts 7)"
    using r2 m2 by (simp_all add: \<sigma>2_def s1)
  ultimately show ?thesis using rollback_handshake[OF reach] by (intro exI[of _ \<sigma>2]) auto
qed

end
