(* ===== verification/Spec2Isabelle.thy ===== *)
theory Spec2Isabelle
  imports Router_Throttling Xmem_Safety Checkpoint_System Dcp_System
begin

text \<open>
  A verification library for the cross data centre replication service (XDCR) of
  this repository.  Paths are relative to \<open>src/\<close>.

  \<^bold>\<open>The program.\<close>  A pipeline replicates a bucket to a remote cluster.  A DCP nozzle
  (\<open>parts/dcp_nozzle.go\<close>) opens one stream per vbucket at a start timestamp and
  forwards every mutation to a router (\<open>parts/router.go\<close>), which filters and
  throttles it and hands it to the xmem nozzle of the vbucket
  (\<open>parts/xmem_nozzle.go\<close>).  That nozzle resolves conflicts, keeps the requests under
  way in a buffer, writes them within the bandwidth limit and handles the
  responses.  The through-seqno tracker
  (\<open>service_impl/through_seqno_tracker_service.go\<close>) listens to the events of all
  parts and computes, per vbucket, up to which sequence number everything has been
  dealt with.  The checkpoint manager (\<open>pipeline_svc/checkpoint_manager.go\<close>) stores
  that number, with the state of the target, as a checkpoint record through the
  checkpoints service (\<open>metadata_svc/checkpoints_service.go\<close>) and the metadata
  service over metakv (\<open>metadata_svc/metakv_metadata_service.go\<close>).  When a pipeline
  starts, the manager chooses the start timestamps from the stored records.

  \<^bold>\<open>Conventions.\<close>  Integers keep their width (\<open>uint16\<close>, \<open>uint32\<close>, \<open>uint64\<close> are words
  that wrap); Go structs are records under the names of the source, with a prefix
  where two structs share a field name; an error is a value of \<open>goerror\<close>; \<open>None\<close> as
  the outer result of an operation is a panic, and \<open>outcome\<close> also has a value for a
  blocked goroutine.  A Go map that is only looked up is a map, one that is ranged
  over is an association list or comes with the order of the visit.  Operations on
  a struct take the record and return it.  Code outside the repository (metakv,
  the memcached client, the REST interface of the target, random numbers, clocks)
  is an argument; what is relied on is a named assumption of a theorem or a locale.
  Log output is left out everywhere.

  \<^bold>\<open>The theories.\<close>
    \<^item> \<open>Prelude\<close>, \<open>Go_Strings\<close>, \<open>Base_Utils\<close>: integers and errors, Go's string functions, and the
      sorted lists, deltas, shuffles, load balancing and versions of
      \<open>base/simple_utils.go\<close>.
    \<^item> \<open>Through_Seqno\<close> has the tracker with one definition per method.
      \<open>Through_Seqno_System\<close> interleaves the event handlers of a vbucket with
      \<open>GetThroughSeqno\<close> calls and the truncations these start in the background;
      \<open>Through_Seqno_Safety\<close> shows that the through sequence number never passes a
      mutation not dealt with, never goes back and is not held up by one that is, and
      that nothing panics.
    \<^item> \<open>Checkpoint\<close> has records and documents (\<open>metadata/checkpoint.go\<close>) with their JSON form:
      a document is the bounded history of the records added, and what survives the
      JSON form, which rounds numbers from 2^53 on.
    \<^item> \<open>Meta_KV\<close> has the metadata service and the retry executor (\<open>utils/utils.go\<close>):
      under the laws of metakv (locale \<open>metakv_store\<close>) what is set is what is read.
      \<open>Checkpoint_Service\<close> has the keys and documents over it: an upsert is atomic and
      hides a failed write, a deletion is exact.
    \<^item> \<open>Checkpoint_Manager\<close> has the choice of start timestamps, rollbacks, failover logs,
      snapshots and checkpoint operations.  \<open>Checkpoint_System\<close> interleaves any number of
      checkpoint operations, each split at its locks, with the tracker and the target.
    \<^item> \<open>Dcp_Nozzle\<close> has the handshake helper, stream states and the handling of feed
      messages; \<open>Dcp_System\<close> interleaves stream requests, rollbacks and successes of a
      vbucket and shows that the negotiation descends and stays consistent.
    \<^item> \<open>Memcached\<close>, \<open>Conflict_Resolution\<close>, \<open>Router\<close>: requests and responses, the comparison of
      metadata and the batched lookup at the target, composition, filtering and routing.
    \<^item> \<open>Throttlers\<close>, \<open>Router_Throttling\<close>: quotas of the bandwidth throttler
      (\<open>pipeline_svc/bandwidth_throttler.go\<close>) and tokens of the throughput throttler
      (\<open>service_impl/throughput_throttler_service.go\<close>), rate bounds, and when the throttling
      loop of the router ends.
    \<^item> \<open>Part\<close>: the life cycle of parts (\<open>parts/abstract_part.go\<close>).
    \<^item> \<open>Xmem_Buffer\<close>, \<open>Xmem_Client\<close>, \<open>Xmem_Nozzle\<close>: the request buffer as a slot table,
      writing on a connection, and the operations of the nozzle.  \<open>Xmem_System\<close> interleaves its
      goroutines; \<open>Xmem_Safety\<close> shows that every accepted request is accounted for.
    \<^item> This theory holds the property that spans the tracker, the checkpoint operations,
      the store and the restart.

  \<^bold>\<open>Interfaces.\<close>  \<open>metakv_store\<close> (laws of metakv) gives \<open>metadata_store\<close> and, with
  \<open>checkpoint_metakv\<close>, the contract \<open>checkpoint_store\<close> the manager relies on.
  \<open>slot_table\<close>, \<open>conflict_order\<close>, \<open>sorted_search\<close>, \<open>bit_flags\<close>, \<open>fair_throttler\<close> and
  \<open>progressing_writer\<close> are the contracts of the request buffer, of conflict
  resolution, of the two list searches, of the filter modes, of the throttler the
  router waits for and of the throttled connection; each is interpreted on the
  definitions of the component that provides it.  \<open>metakv_store\<close>, whose provider is
  outside the repository, is interpreted on a store in memory.

  \<^bold>\<open>Loops.\<close>  Loops over a list or a counter are structural recursions or have a
  termination proof.  The loops that wait for another service (throttling, writing)
  and the search of \<open>GetThroughSeqno\<close> are partial functions; \<open>throttle_terminates\<close>,
  \<open>write_terminates\<close> and \<open>GetThroughSeqno_progress\<close> show when they return.  Retries are bounded by the number the settings give.  No fuel is used.

  \<^bold>\<open>Not modelled.\<close>  Opening and closing connections and feeds, TLS and the repair of
  the manager's connections (remote calls whose results are arguments here); timers,
  statistics and their events; the capi nozzle, which sends over HTTP; filter
  expressions, which are evaluated by external libraries; the services around the
  pipelines (replication manager and its REST handlers, pipeline manager and
  factory, specifications, remote clusters, settings, topology, supervisors, resource
  manager, migration, audit and UI log), which coordinate pipelines and do not touch
  the data path.
\<close>


section \<open>The pipeline resumes at a safe point\<close>

text \<open>C1. A pipeline runs on an initially empty document of a vbucket: the handlers of the tracker, the
  computations of through sequence numbers and any number of concurrent checkpoint operations interleave,
  metakv behaves as documented.  If the document read afterwards is given to the manager of a restarted
  pipeline, the timestamp it chooses is zero or that of a record one of the operations wrote and the target
  agrees on; and every mutation of the stream up to that timestamp has been sent, filtered or rejected, the
  sent ones applied by the target at a sequence number that the record covers.\<close>

theorem resume_point_safe:
  fixes kv :: "'s \<Rightarrow> string \<Rightarrow> (content \<times> 'r) option"
  assumes metakv: "metakv_store mk kv" "0 < n" "- (2 ^ 63) \<le> target_cluster_version cfg" "target_cluster_version cfg < 2 ^ 63"
    and stream: "stream_ok start stream" "\<not> isTargetES cfg"
    and run: "creach cfg (checkpoints_svc mk rs n) v start stream m0 \<sigma>"
    and fresh: "path_store kv (ck_store m0) (getCheckpointDocKey (Topic cfg) v) = None"
    and exact: "\<forall>r\<in>set (log \<sigma>). exact_record r \<and> Target_vb_opaque r \<noteq> None"
    and read: "CheckpointsDoc_get mk rs (Topic cfg) v (ck_store (mgr \<sigma>)) = (Some (Inr d), s')"
    and start: "known v m" "getVBTimestampForVB cfg' capi v (Some d) max_seqno m = Some (Inr ts, m')"
  shows "ts = zero_ts v \<or>
    (\<exists>r. r \<in> set (log \<sigma>) \<and> ts = ts_of_record v r \<and> agreed cfg' capi v r \<and>
       (\<forall>x\<in>set stream. x \<le> ts_Seqno ts \<longrightarrow>
          (\<exists>ty. fate (trk \<sigma>) x = Some ty \<and>
             (ty = SeqnoTypeSent \<longrightarrow> (\<exists>h. applied \<sigma> x = Some h \<and> h \<le> Target_Seqno r)))))"
proof -
  have ck: "checkpoint_metakv mk kv n (target_cluster_version cfg)"
    using metakv by (simp add: checkpoint_metakv_def checkpoint_metakv_axioms_def)
  note contract = checkpoint_metakv.store_contract[OF ck, of rs "Topic cfg"]
  let ?recs = "checkpoint_metakv.doc_recs kv (Topic cfg)" and ?wf = "checkpoint_metakv.doc_wf kv (Topic cfg)"
  have none: "?wf (ck_store m0) v" "?recs (ck_store m0) v = {}"
    using fresh by (simp_all add: checkpoint_metakv.doc_wf_def[OF ck] checkpoint_metakv.doc_recs_def[OF ck]
        checkpoint_metakv.stored_def[OF ck])
  have st: "?wf (ck_store (mgr \<sigma>)) v" "?recs (ck_store (mgr \<sigma>)) v \<subseteq> set (log \<sigma>)"
    using checkpoint_store.stored_in_log[OF contract run refl refl none(1) exact] none(2) by simp_all
  have "cs_CheckpointsDoc (checkpoints_svc mk rs n) (Topic cfg) v (ck_store (mgr \<sigma>)) = (Some (Inr d), s')"
    using read by (simp add: checkpoints_svc_def)
  from checkpoint_store.start_from_stored[OF contract st(1) this start] consider
    "ts = zero_ts v" | r where "r \<in> set (log \<sigma>)" "ts = ts_of_record v r" "agreed cfg' capi v r"
    using st(2) by blast
  then show ?thesis
  proof cases
    case (2 r)
    have "backed stream \<sigma> (Seqno r) (Target_Seqno r)"
      using creach_cinv[OF run stream] 2(1) by (simp add: cinv_def)
    then have "\<forall>x\<in>set stream. x \<le> Seqno r \<longrightarrow>
        (\<exists>ty. fate (trk \<sigma>) x = Some ty \<and> (ty = SeqnoTypeSent \<longrightarrow> (\<exists>h. applied \<sigma> x = Some h \<and> h \<le> Target_Seqno r)))"
      unfolding backed_def dealt_with_def by fastforce
    then show ?thesis using 2 by auto
  qed simp
qed

theorem resume_point_safe_witness:
  "\<exists>\<sigma> m' ts. creach example_cfg example_cs 7 0 [2, 3, 5] example_mgr \<sigma> \<and>
     getVBTimestampForVB example_cfg example_capi 7 (Some example_stored) (- 1) example_mgr = Some (Inr ts, m') \<and>
     ts_Seqno ts = 3 \<and> (\<forall>x\<in>set [2, 3, 5]. x \<le> 3 \<longrightarrow> fate (trk \<sigma>) x \<noteq> None) \<and> fate (trk \<sigma>) 5 = None"
proof -
  obtain \<sigma> where \<sigma>: "creach example_cfg (checkpoints_svc mem_metakv example_settings 2) 7 0 [2, 3, 5] example_mgr \<sigma>"
    "log \<sigma> = [example_written]" "fate (trk \<sigma>) = [3 \<mapsto> SeqnoTypeSent, 2 \<mapsto> SeqnoTypeSent]"
    "CheckpointsDoc_get mem_metakv example_settings ''t'' 7 (ck_store (mgr \<sigma>)) = (Some (Inr example_stored), ck_store (mgr \<sigma>))"
    using example_checkpoint_run unfolding example_cs_def by blast
  have c: "Topic example_cfg = ''t''" "target_cluster_version example_cfg = 0x50000" "\<not> isTargetES example_cfg"
    by (simp_all add: example_cfg_def)
  have m: "path_store snd (ck_store example_mgr) k = None" "known 7 example_mgr" for k
    by (simp_all add: example_mgr_def path_store_def known_def)
  have e: "\<forall>r\<in>set (log \<sigma>). exact_record r \<and> Target_vb_opaque r \<noteq> None"
    using \<sigma>(2) example_exact by (simp add: example_written_def)
  obtain m' where ts: "getVBTimestampForVB example_cfg example_capi 7 (Some example_stored) (- 1) example_mgr =
      Some (Inr (ts_of_record 7 example_written), m')"
    by (simp add: getVBTimestampForVB_def ckptRecordsWLock_def example_stored_def GetCheckpointRecords_def example_cfg_def
        example_capi_def example_mgr_def updateCurrentVBOpaque_def populateVBTimestamp_def Let_def)
  have s: "ts_Seqno (ts_of_record 7 example_written) = 3" by (simp add: example_written_def example_update_def)
  have "ts_of_record 7 example_written \<noteq> zero_ts 7" using s by (auto dest: arg_cong[of _ _ ts_Seqno])
  then have "\<forall>x\<in>set [2, 3, 5]. x \<le> 3 \<longrightarrow> fate (trk \<sigma>) x \<noteq> None"
    using resume_point_safe[OF mem.metakv_store_axioms _ _ _ example_stream c(3) \<sigma>(1) m(1) e _ m(2) ts] \<sigma>(4) c(1,2) s
    by fastforce
  then show ?thesis using \<sigma>(1,3) ts s unfolding example_cs_def by (intro exI conjI) auto
qed

end
